(* ===== verification/Prelude.thy ===== *)
theory Prelude
  imports Main "HOL-Library.Word" "HOL-Library.Monad_Syntax"
begin

text \<open>
  Shared vocabulary of the development: bytes and C strings, little-endian integers, C's
  32-bit \<open>int\<close>, and the option monad in which every operation that may dereference a bad
  pointer, dead-lock on its own mutex or loop forever is written.  \<open>None\<close> is always "the C
  program has no defined continuation"; a total-correctness statement about such an operation
  is written with \<open>returns m Q\<close>: the operation does return, and its result satisfies \<open>Q\<close>.
\<close>

named_theorems buf_simps
  "the buffer operations in terms of the pending bytes"
named_theorems codec_simps
  "encoders and parsers of the messages, unfolded to their fields"
named_theorems heap_simps
  "reads of the user and client stores after a write"

section \<open>Bytes and C strings\<close>

type_synonym bytes = "char list"
type_synonym u16 = "16 word"
type_synonym u32 = "32 word"

abbreviation NUL :: char where
  "NUL \<equiv> CHR 0x00"

text \<open>What a \<open>char *\<close> that points at \<open>b\<close> (followed by a terminator) reads as: the bytes
  before the first NUL.\<close>

definition cstr :: "bytes \<Rightarrow> bytes" where
  "cstr b = takeWhile (\<lambda>c. c \<noteq> NUL) b"

lemma cstr_id: "NUL \<notin> set b \<Longrightarrow> cstr b = b"
  unfolding cstr_def takeWhile_eq_all_conv by auto

lemma NUL_notin_cstr [simp]: "NUL \<notin> set (cstr b)"
  unfolding cstr_def by (auto dest: set_takeWhileD)

lemma cstr_cstr [simp]: "cstr (cstr b) = cstr b"
  by (simp add: cstr_id)

section \<open>C's 32-bit int\<close>

text \<open>The value an \<open>int\<close> object holds after a computation whose exact result is \<open>x\<close>: two's
  complement on 32 bits.\<close>

definition int32 :: "int \<Rightarrow> int" where
  "int32 x = signed_take_bit 31 x"

definition fits_int32 :: "int \<Rightarrow> bool" where
  "fits_int32 x \<longleftrightarrow> - (2 ^ 31) \<le> x \<and> x < 2 ^ 31"

lemma int32_id: "fits_int32 x \<Longrightarrow> int32 x = x"
  unfolding fits_int32_def int32_def by (rule signed_take_bit_int_eq_self) auto

lemma int32_fits [simp]: "fits_int32 (int32 x)"
  unfolding fits_int32_def int32_def
  using signed_take_bit_int_greater_eq_minus_exp [of 31 x] signed_take_bit_int_less_exp [of 31 x]
  by simp

section \<open>Little-endian integers\<close>

fun le_bytes :: "nat \<Rightarrow> nat \<Rightarrow> bytes" where
  "le_bytes 0 n = []"
| "le_bytes (Suc k) n = char_of n # le_bytes k (n div 256)"

fun of_le :: "bytes \<Rightarrow> nat" where
  "of_le [] = 0"
| "of_le (c # cs) = of_char c + 256 * of_le cs"

lemma length_le_bytes [simp]: "length (le_bytes k n) = k"
  by (induction k arbitrary: n) auto

lemma take_le_bytes: "j \<le> k \<Longrightarrow> take j (le_bytes k n) = le_bytes j n"
proof (induction k arbitrary: j n)
  case (Suc k)
  then show ?case by (cases j) auto
qed simp

lemma of_le_le_bytes: "of_le (le_bytes k n) = n mod 256 ^ k"
  by (induction k arbitrary: n) (auto simp: mod_mult2_eq)

lemma of_le_bound: "of_le cs < 256 ^ length cs"
proof (induction cs)
  case (Cons c cs)
  have "of_char c < (256 :: nat)" by (rule nat_of_char_less_256)
  with Cons show ?case unfolding of_le.simps length_Cons power_Suc by linarith
qed simp

lemma le_bytes_of_le: "le_bytes (length cs) (of_le cs) = cs"
proof (induction cs)
  case (Cons c cs)
  have c: "of_char c < (256 :: nat)" by simp
  have "char_of (of_char c + 256 * of_le cs) = c"
    using char_of_mod_256 [of "of_char c + 256 * of_le cs"] by simp
  moreover from c have "(of_char c + 256 * of_le cs) div 256 = of_le cs"
    by (metis add.right_neutral div_less div_mult_self2 zero_neq_numeral add.left_neutral)
  ultimately show ?case using Cons by simp
qed simp

text \<open>A \<open>uint32_t\<close> read through a cast pointer: \<open>None\<close> when fewer than four bytes are there.\<close>

definition read_u32 :: "bytes \<Rightarrow> u32 option" where
  "read_u32 b = (if 4 \<le> length b then Some (word_of_nat (of_le (take 4 b))) else None)"

lemma read_u32_le_bytes: "4 \<le> k \<Longrightarrow> read_u32 (le_bytes k (unat w) @ rest) = Some w"
proof -
  assume k: "4 \<le> k"
  have "unat w < 2 ^ 32" using unsigned_less [of w] by simp
  with k show ?thesis
    by (simp add: read_u32_def take_le_bytes of_le_le_bytes)
qed

section \<open>Operations that may have no defined result\<close>

definition returns :: "'a option \<Rightarrow> ('a \<Rightarrow> bool) \<Rightarrow> bool" where
  "returns m Q \<longleftrightarrow> (case m of None \<Rightarrow> False | Some x \<Rightarrow> Q x)"

lemma returns_simps [simp]:
  "returns None Q \<longleftrightarrow> False"
  "returns (Some x) Q \<longleftrightarrow> Q x"
  by (simp_all add: returns_def)

lemma returns_bind [simp]: "returns (m \<bind> k) Q \<longleftrightarrow> returns m (\<lambda>x. returns (k x) Q)"
  by (cases m) auto

lemma returns_if [simp]:
  "returns (if b then m else n) Q \<longleftrightarrow> (if b then returns m Q else returns n Q)"
  by simp

lemma returnsE:
  assumes "returns m Q"
  obtains x where "m = Some x" and "Q x"
  using assms by (cases m) auto

lemma returnsI: "m = Some x \<Longrightarrow> Q x \<Longrightarrow> returns m Q"
  by simp

lemma returns_mono: "returns m Q \<Longrightarrow> (\<And>x. m = Some x \<Longrightarrow> Q x \<Longrightarrow> R x) \<Longrightarrow> returns m R"
  by (cases m) auto

lemma returns_Some: "returns m Q \<Longrightarrow> m = Some x \<Longrightarrow> Q x"
  by simp

text \<open>A \<open>while (curr != NULL)\<close> walk over a linked list whose body may fail.\<close>

fun foldM :: "('a \<Rightarrow> 's \<Rightarrow> 's option) \<Rightarrow> 'a list \<Rightarrow> 's \<Rightarrow> 's option" where
  "foldM f [] s = Some s"
| "foldM f (x # xs) s = (case f x s of None \<Rightarrow> None | Some s' \<Rightarrow> foldM f xs s')"

lemma foldM_returns:
  assumes "P s"
    and "\<And>x t. x \<in> set xs \<Longrightarrow> P t \<Longrightarrow> returns (f x t) P"
  shows "returns (foldM f xs s) P"
  using assms
proof (induction xs arbitrary: s)
  case (Cons x xs)
  then have "returns (f x s) P" by simp
  then obtain t where "f x s = Some t" and "P t" by (rule returnsE)
  with Cons show ?case by simp
qed simp

text \<open>The loop with a prefix-indexed invariant: \<open>P ys t\<close> says what holds once the elements
  \<open>ys\<close> have been visited.\<close>

lemma foldM_prefix:
  assumes "P [] s"
    and "\<And>ys x t. \<exists>zs. xs = ys @ x # zs \<Longrightarrow> P ys t \<Longrightarrow> returns (f x t) (P (ys @ [x]))"
  shows "returns (foldM f xs s) (P xs)"
proof -
  have "xs = ys @ zs \<Longrightarrow> P ys t \<Longrightarrow> returns (foldM f zs t) (P xs)" for ys zs t
  proof (induction zs arbitrary: ys t)
    case (Cons z zs)
    then have "returns (f z t) (P (ys @ [z]))" using assms(2) by blast
    then obtain t' where "f z t = Some t'" and "P (ys @ [z]) t'" by (rule returnsE)
    with Cons.IH [of "ys @ [z]" t'] Cons.prems(1) show ?case by simp
  qed simp
  from this [of "[]"] assms(1) show ?thesis by simp
qed

end
