(* ===== verification/Index.thy ===== *)
theory Index
  imports Prelude
begin

text \<open>
  The contract of the two tries the program walks with C strings.  \<open>name_lookup\<close> is what they
  share; a \<open>name_index\<close> (the users) overwrites an entry, a \<open>name_registry\<close> (the files) keeps the
  first one.  \<open>storable\<close> are the values whose presence a lookup can see.
\<close>

locale name_lookup =
  fixes empty_ix :: 't
    and find_ix :: "'t \<Rightarrow> bytes \<Rightarrow> 'v option"
    and put_ix :: "'t \<Rightarrow> bytes \<Rightarrow> 'v \<Rightarrow> 't"
    and storable :: "'v \<Rightarrow> bool"
  assumes find_empty: "find_ix empty_ix k = None"
    and find_put_other: "k' \<noteq> k \<Longrightarrow> find_ix (put_ix t k v) k' = find_ix t k'"
    and find_put_absent: "find_ix t k = None \<Longrightarrow> storable v \<Longrightarrow> find_ix (put_ix t k v) k = Some v"
begin

abbreviation put_all :: "(bytes \<times> 'v) list \<Rightarrow> 't \<Rightarrow> 't" where
  "put_all kvs t \<equiv> fold (\<lambda>(k, v) t. put_ix t k v) kvs t"

lemma find_put_all_other: "k' \<notin> fst ` set kvs \<Longrightarrow> find_ix (put_all kvs t) k' = find_ix t k'"
proof (induction kvs arbitrary: t)
  case (Cons kv kvs)
  then show ?case by (cases kv) (auto simp: find_put_other)
qed simp

end

locale name_index = name_lookup +
  assumes find_put_present: "storable v \<Longrightarrow> find_ix (put_ix t k v) k = Some v"
begin

text \<open>An index that was filled in some order holds the last value stored under each name.\<close>

lemma find_built:
  "\<forall>(k, v) \<in> set kvs. storable v \<Longrightarrow> find_ix (put_all kvs empty_ix) k' = map_of (rev kvs) k'"
proof (induction kvs rule: rev_induct)
  case Nil
  then show ?case by (simp add: find_empty)
next
  case (snoc kv kvs)
  obtain k v where "kv = (k, v)" by (cases kv)
  with snoc show ?case
    by (cases "k' = k") (auto simp: find_put_present find_put_other)
qed

end

locale name_registry = name_lookup +
  assumes find_put_taken: "find_ix t k = Some w \<Longrightarrow> find_ix (put_ix t k v) k = Some w"
begin

text \<open>Registration is first come, first served, and permanent.\<close>

lemma find_put_all_taken: "find_ix t k = Some w \<Longrightarrow> find_ix (put_all kvs t) k = Some w"
proof (induction kvs arbitrary: t)
  case (Cons kv kvs)
  obtain k' v where kv: "kv = (k', v)" by (cases kv)
  have "find_ix (put_ix t k' v) k = Some w"
    using Cons.prems by (cases "k' = k") (simp_all add: find_put_taken find_put_other)
  with Cons.IH kv show ?case by simp
qed simp

lemma find_registered:
  "\<forall>(k, v) \<in> set kvs. storable v \<Longrightarrow> find_ix (put_all kvs empty_ix) k' = map_of kvs k'"
proof (induction kvs rule: rev_induct)
  case Nil
  then show ?case by (simp add: find_empty)
next
  case (snoc kv kvs)
  obtain k v where kv: "kv = (k, v)" by (cases kv)
  have sv: "storable v" and IH: "find_ix (put_all kvs empty_ix) k' = map_of kvs k'"
    using snoc kv by auto
  show ?case
  proof (cases "k' = k")
    case False
    with IH kv show ?thesis by (simp add: find_put_other map_add_def split: option.split)
  next
    case True
    with IH kv sv show ?thesis
      by (cases "map_of kvs k'") (simp_all add: find_put_absent find_put_taken map_add_def)
  qed
qed

end

end
