(* ===== verification/Buffer.thy ===== *)
theory Buffer
  imports Prelude
begin

text \<open>
  \<open>lib/buffer.c\<close> and the buffer halves of \<open>send_response\<close> (\<open>lib/socket.c\<close>),
  \<open>send_request\<close> (\<open>clientlib/command.c\<close>), \<open>im_receive_command\<close> and \<open>im_send_buffer\<close>.
  A buffer is its memory (a function from offsets, so that bytes \<open>malloc\<close> or \<open>realloc\<close>
  leaves unset are some value nobody relies on), its capacity and the offsets
  \<open>buffer_start\<close> and \<open>buffer_end\<close>.  \<open>pending\<close> is the abstract content, a byte queue;
  the locale \<open>byte_queue\<close> is the contract the socket layer relies on.  Sizes are \<open>nat\<close>;
  the one place where \<open>size_t\<close> really wraps, \<open>recv\<close> returning -1, writes the modulus out.
\<close>

section \<open>The buffer and its operations\<close>

record im_buffer =
  mem :: "nat \<Rightarrow> char"
  buffer_capacity :: nat
  buffer_start :: nat
  buffer_end :: nat

definition init_buffer :: "nat \<Rightarrow> im_buffer" where
  "init_buffer sz =
     \<lparr>mem = (\<lambda>_. NUL), buffer_capacity = sz, buffer_start = 0, buffer_end = 0\<rparr>"

text \<open>\<open>OUT_BUFFER_DEFAULT_SIZE\<close> is glibc's \<open>BUFSIZ\<close>; \<open>MSG_LIMIT\<close> is in \<open>lib/client.h\<close>.\<close>

definition OUT_BUFFER_DEFAULT_SIZE :: nat where
  "OUT_BUFFER_DEFAULT_SIZE = 8192"

definition MSG_LIMIT :: nat where
  "MSG_LIMIT = 32768"

text \<open>\<open>memcpy(buffer->buffer + at, src, len)\<close>.\<close>

definition mem_write :: "(nat \<Rightarrow> char) \<Rightarrow> nat \<Rightarrow> bytes \<Rightarrow> (nat \<Rightarrow> char)" where
  "mem_write m at src = (\<lambda>i. if at \<le> i \<and> i < at + length src then src ! (i - at) else m i)"

definition mem_read :: "(nat \<Rightarrow> char) \<Rightarrow> nat \<Rightarrow> nat \<Rightarrow> bytes" where
  "mem_read m i j = map m [i..<j]"

text \<open>The bytes between \<open>buffer_start\<close> and \<open>buffer_end\<close> move to the front.  The copy is
  \<open>memcpy\<close> in the code although the two regions can overlap (\<open>reset_overlaps\<close>), which C leaves undefined;
  the model takes the copy that is meant, which is the one a byte-wise forward \<open>memcpy\<close> and \<open>memmove\<close> make.\<close>

definition reset_buffer_start :: "im_buffer \<Rightarrow> im_buffer" where
  "reset_buffer_start b =
     (if buffer_start b = 0 then b
      else b\<lparr>mem := mem_write (mem b) 0 (mem_read (mem b) (buffer_start b) (buffer_end b)),
             buffer_end := buffer_end b - buffer_start b,
             buffer_start := 0\<rparr>)"

definition reset_overlaps :: "im_buffer \<Rightarrow> bool" where
  "reset_overlaps b \<longleftrightarrow> 0 < buffer_start b \<and> buffer_start b < buffer_end b - buffer_start b"

text \<open>\<open>while (buffer_end + len >= buffer_capacity) buffer_capacity <<= 1\<close>; \<open>None\<close> is a loop
  that never ends (a capacity of 0).\<close>

partial_function (option) grow_capacity :: "nat \<Rightarrow> nat \<Rightarrow> nat option" where
  "grow_capacity need cap = (if need \<ge> cap then grow_capacity need (2 * cap) else Some cap)"

definition buffer_append :: "im_buffer \<Rightarrow> bytes \<Rightarrow> im_buffer option" where
  "buffer_append b bs =
     (let len = length bs in do {
        b1 \<leftarrow> (if buffer_end b + len \<ge> buffer_capacity b then
                 (let r = reset_buffer_start b in
                  if buffer_end r + len \<ge> buffer_capacity r then do {
                    cap \<leftarrow> grow_capacity (buffer_end r + len) (buffer_capacity r);
                    Some (r\<lparr>buffer_capacity := cap\<rparr>)
                  } else Some r)
               else Some b);
        Some (b1\<lparr>mem := mem_write (mem b1) (buffer_end b1) bs,
                 buffer_end := buffer_end b1 + len\<rparr>)
      })"

text \<open>The head of \<open>im_receive_command\<close>: compact, and double the capacity when more than half
  of it is in use.\<close>

definition recv_prepare :: "im_buffer \<Rightarrow> im_buffer" where
  "recv_prepare b =
     (let r = reset_buffer_start b in
      if 2 * buffer_end r > buffer_capacity r
      then r\<lparr>buffer_capacity := 2 * buffer_capacity r\<rparr> else r)"

definition recv_room :: "im_buffer \<Rightarrow> nat" where
  "recv_room b = buffer_capacity b - buffer_end b"

text \<open>The kernel stores the bytes and \<open>buffer_end\<close> advances; a failing \<open>recv\<close> (-1 stored in a
  \<open>size_t\<close>) stores nothing and \<open>buffer_end\<close> still "advances", modulo \<open>2 ^ 64\<close>.\<close>

definition recv_store :: "im_buffer \<Rightarrow> bytes \<Rightarrow> im_buffer" where
  "recv_store b bs = b\<lparr>mem := mem_write (mem b) (buffer_end b) bs,
                       buffer_end := buffer_end b + length bs\<rparr>"

definition recv_failed :: "im_buffer \<Rightarrow> im_buffer" where
  "recv_failed b = b\<lparr>buffer_end := (buffer_end b + (2 ^ 64 - 1)) mod 2 ^ 64\<rparr>"

definition advance_start :: "nat \<Rightarrow> im_buffer \<Rightarrow> im_buffer" where
  "advance_start n b = b\<lparr>buffer_start := buffer_start b + n\<rparr>"

text \<open>\<open>send\<close> takes \<open>nsent\<close> bytes from \<open>buffer_start\<close> on, and the tail of
  \<open>im_send_buffer\<close> compacts a buffer that is half consumed.\<close>

definition send_compact :: "im_buffer \<Rightarrow> im_buffer" where
  "send_compact b = (if 2 * buffer_start b \<ge> buffer_capacity b then reset_buffer_start b else b)"

definition send_take :: "nat \<Rightarrow> im_buffer \<Rightarrow> bytes \<times> im_buffer" where
  "send_take nsent b =
     (mem_read (mem b) (buffer_start b) (buffer_start b + nsent),
      send_compact (advance_start nsent b))"

section \<open>Well-formed buffers and their content\<close>

definition buf_ok :: "im_buffer \<Rightarrow> bool" where
  "buf_ok b \<longleftrightarrow> 0 < buffer_capacity b \<and> buffer_start b \<le> buffer_end b
     \<and> buffer_end b \<le> buffer_capacity b"

definition pending :: "im_buffer \<Rightarrow> bytes" where
  "pending b = mem_read (mem b) (buffer_start b) (buffer_end b)"

lemma length_mem_read [simp]: "length (mem_read m i j) = j - i"
  by (simp add: mem_read_def)

lemma mem_read_write_same: "j = at + length bs \<Longrightarrow> mem_read (mem_write m at bs) at j = bs"
  by (rule nth_equalityI) (auto simp: mem_read_def mem_write_def)

lemma mem_read_write_before: "j \<le> at \<Longrightarrow> mem_read (mem_write m at bs) i j = mem_read m i j"
  by (auto simp: mem_read_def mem_write_def)

lemma mem_read_append: "i \<le> j \<Longrightarrow> j \<le> k \<Longrightarrow> mem_read m i k = mem_read m i j @ mem_read m j k"
  unfolding mem_read_def by (metis map_append le_add_diff_inverse upt_add_eq_append)

lemma drop_mem_read: "drop n (mem_read m i j) = mem_read m (i + n) j"
  by (simp add: mem_read_def drop_map add.commute)

lemma length_pending [simp]: "length (pending b) = buffer_end b - buffer_start b"
  by (simp add: pending_def)

lemma init_buffer_ok [buf_simps]:
  "buf_ok (init_buffer n) \<longleftrightarrow> 0 < n" "pending (init_buffer n) = []"
  by (auto simp: init_buffer_def buf_ok_def pending_def mem_read_def)

lemma reset_ok [buf_simps]: "buf_ok b \<Longrightarrow> buf_ok (reset_buffer_start b)"
  by (auto simp: reset_buffer_start_def buf_ok_def)

lemma reset_pending [buf_simps]: "buf_ok b \<Longrightarrow> pending (reset_buffer_start b) = pending b"
  by (auto simp: reset_buffer_start_def pending_def buf_ok_def mem_read_write_same)

lemma reset_fields [simp]:
  "buffer_start (reset_buffer_start b) = 0"
  "buffer_capacity (reset_buffer_start b) = buffer_capacity b"
  "buffer_end (reset_buffer_start b) = buffer_end b - buffer_start b"
  by (auto simp: reset_buffer_start_def)

text \<open>The doubling loop ends for every positive capacity, with the least doubling that fits.\<close>

lemma grow_capacity_returns:
  "0 < cap \<Longrightarrow> \<exists>k. grow_capacity need cap = Some (2 ^ k * cap) \<and> need < 2 ^ k * cap
     \<and> (\<forall>j < k. 2 ^ j * cap \<le> need)"
proof (induction "need + 1 - cap" arbitrary: cap rule: less_induct)
  case less
  show ?case
  proof (cases "need \<ge> cap")
    case False
    then show ?thesis by (intro exI [of _ 0]) (simp add: grow_capacity.simps)
  next
    case True
    with less.prems have "need + 1 - 2 * cap < need + 1 - cap" by simp
    from less.hyps [OF this] less.prems obtain k where
      k: "grow_capacity need (2 * cap) = Some (2 ^ k * (2 * cap))" "need < 2 ^ k * (2 * cap)"
        "\<forall>j < k. 2 ^ j * (2 * cap) \<le> need" by auto
    have "\<forall>j < Suc k. 2 ^ j * cap \<le> need"
    proof (intro allI impI)
      fix j assume "j < Suc k"
      with k(3) True show "2 ^ j * cap \<le> need" by (cases j) (auto simp: mult.assoc)
    qed
    with k True show ?thesis
      by (intro exI [of _ "Suc k"]) (simp add: grow_capacity.simps [of need cap] ac_simps)
  qed
qed

lemma buffer_store:
  assumes "buffer_start c \<le> buffer_end c"
  shows "pending (c\<lparr>mem := mem_write (mem c) (buffer_end c) bs,
                 buffer_end := buffer_end c + length bs\<rparr>) = pending c @ bs"
  using assms
    mem_read_append [of "buffer_start c" "buffer_end c" "buffer_end c + length bs"
      "mem_write (mem c) (buffer_end c) bs"]
  by (simp add: pending_def mem_read_write_same mem_read_write_before)

lemma append_ok [buf_simps]:
  assumes "buf_ok b"
  shows "returns (buffer_append b bs) (\<lambda>b'. buf_ok b' \<and> pending b' = pending b @ bs
           \<and> buffer_end b' < buffer_capacity b' \<and> buffer_capacity b \<le> buffer_capacity b')"
proof -
  have store: "buf_ok (c\<lparr>mem := mem_write (mem c) (buffer_end c) bs,
                 buffer_end := buffer_end c + length bs\<rparr>)
      \<and> pending (c\<lparr>mem := mem_write (mem c) (buffer_end c) bs,
                 buffer_end := buffer_end c + length bs\<rparr>) = pending c @ bs"
    if "buf_ok c" and "buffer_end c + length bs < buffer_capacity c" for c
    using that buffer_store [of c bs] by (simp add: buf_ok_def)
  show ?thesis
  proof (cases "buffer_end b + length bs \<ge> buffer_capacity b")
    case False
    with store [of b] assms show ?thesis by (simp add: buffer_append_def)
  next
    case full: True
    let ?r = "reset_buffer_start b"
    have r: "buf_ok ?r" "pending ?r = pending b" using assms by (simp_all add: buf_simps)
    show ?thesis
    proof (cases "buffer_end ?r + length bs \<ge> buffer_capacity ?r")
      case False
      with full store [of ?r] r show ?thesis by (simp add: buffer_append_def)
    next
      case True
      have "0 < buffer_capacity ?r" using r by (simp add: buf_ok_def)
      from grow_capacity_returns [OF this] obtain k where
        k: "grow_capacity (buffer_end ?r + length bs) (buffer_capacity ?r)
              = Some (2 ^ k * buffer_capacity ?r)"
          "buffer_end ?r + length bs < 2 ^ k * buffer_capacity ?r" by blast
      let ?c = "?r\<lparr>buffer_capacity := 2 ^ k * buffer_capacity ?r\<rparr>"
      have "buffer_capacity ?r \<le> 2 ^ k * buffer_capacity ?r" by simp
      moreover have "pending ?c = pending ?r" by (simp add: pending_def)
      moreover from r(1) calculation(1) have "buf_ok ?c"
        unfolding buf_ok_def by (auto intro: le_trans)
      ultimately show ?thesis
        using full True k store [of ?c] r(2) by (simp add: buffer_append_def)
    qed
  qed
qed

lemma recv_prepare_ok [buf_simps]:
  assumes "buf_ok b"
  shows "buf_ok (recv_prepare b)" "pending (recv_prepare b) = pending b"
    "buffer_start (recv_prepare b) = 0" "buffer_capacity (recv_prepare b) \<le> 2 * recv_room (recv_prepare b)"
    "0 < recv_room (recv_prepare b)"
proof -
  have r: "buf_ok (reset_buffer_start b)" "pending (reset_buffer_start b) = pending b"
    using assms by (simp_all add: buf_simps)
  show "buf_ok (recv_prepare b)" "buffer_start (recv_prepare b) = 0"
    using r(1) by (auto simp: recv_prepare_def Let_def buf_ok_def)
  show "pending (recv_prepare b) = pending b"
    using r(2) by (auto simp: recv_prepare_def Let_def pending_def)
  show "buffer_capacity (recv_prepare b) \<le> 2 * recv_room (recv_prepare b)"
    and "0 < recv_room (recv_prepare b)"
    using r(1) by (auto simp: recv_prepare_def Let_def recv_room_def buf_ok_def)
qed

lemma recv_store_ok [buf_simps]:
  assumes "buf_ok b"
  shows "pending (recv_store b bs) = pending b @ bs"
    "length bs \<le> recv_room b \<Longrightarrow> buf_ok (recv_store b bs)"
  using assms buffer_store [of b bs]
  by (auto simp: recv_store_def buf_ok_def recv_room_def)

lemma advance_ok [buf_simps]:
  assumes "buf_ok b" and "n \<le> length (pending b)"
  shows "buf_ok (advance_start n b)" "pending (advance_start n b) = drop n (pending b)"
  using assms by (auto simp: advance_start_def buf_ok_def pending_def drop_mem_read)

lemma send_compact_ok [buf_simps]:
  "buf_ok b \<Longrightarrow> buf_ok (send_compact b)" "buf_ok b \<Longrightarrow> pending (send_compact b) = pending b"
  by (simp_all add: send_compact_def buf_simps)

lemma send_take_ok [buf_simps]:
  assumes "buf_ok b" and "n \<le> length (pending b)"
  shows "fst (send_take n b) = take n (pending b)"
    "buf_ok (snd (send_take n b))" "pending (snd (send_take n b)) = drop n (pending b)"
proof -
  have "buffer_start b + n \<le> buffer_end b" using assms by (auto simp: buf_ok_def)
  then show "fst (send_take n b) = take n (pending b)"
    by (simp add: send_take_def pending_def mem_read_def take_map)
  show "buf_ok (snd (send_take n b))" "pending (snd (send_take n b)) = drop n (pending b)"
    using assms by (simp_all add: send_take_def buf_simps)
qed

section \<open>The contract: a byte queue\<close>

text \<open>What the two ends of a connection do to an output buffer: a handler appends an encoded
  message, the network thread takes as many bytes as the kernel accepted.\<close>

datatype queue_op = Append bytes | Take nat

fun run_queue :: "('b \<Rightarrow> bytes \<Rightarrow> 'b option) \<Rightarrow> (nat \<Rightarrow> 'b \<Rightarrow> bytes \<times> 'b)
    \<Rightarrow> queue_op list \<Rightarrow> 'b \<Rightarrow> (bytes \<times> 'b) option" where
  "run_queue app tak [] b = Some ([], b)"
| "run_queue app tak (Append bs # ops) b =
     (case app b bs of None \<Rightarrow> None | Some b' \<Rightarrow> run_queue app tak ops b')"
| "run_queue app tak (Take n # ops) b =
     (case run_queue app tak ops (snd (tak n b)) of None \<Rightarrow> None
      | Some (out, b') \<Rightarrow> Some (fst (tak n b) @ out, b'))"

fun appended :: "queue_op list \<Rightarrow> bytes" where
  "appended [] = []"
| "appended (Append bs # ops) = bs @ appended ops"
| "appended (Take n # ops) = appended ops"

text \<open>The kernel never accepts more bytes than it is offered.\<close>

fun takes_fit :: "nat \<Rightarrow> queue_op list \<Rightarrow> bool" where
  "takes_fit k [] = True"
| "takes_fit k (Append bs # ops) = takes_fit (k + length bs) ops"
| "takes_fit k (Take n # ops) = (n \<le> k \<and> takes_fit (k - n) ops)"

locale byte_queue =
  fixes ok :: "'b \<Rightarrow> bool"
    and content :: "'b \<Rightarrow> bytes"
    and app :: "'b \<Rightarrow> bytes \<Rightarrow> 'b option"
    and tak :: "nat \<Rightarrow> 'b \<Rightarrow> bytes \<times> 'b"
  assumes app_law: "ok b \<Longrightarrow> returns (app b bs) (\<lambda>b'. ok b' \<and> content b' = content b @ bs)"
    and tak_law: "ok b \<Longrightarrow> n \<le> length (content b) \<Longrightarrow>
      fst (tak n b) = take n (content b) \<and> ok (snd (tak n b))
        \<and> content (snd (tak n b)) = drop n (content b)"
begin

lemma run_fifo:
  "ok b \<Longrightarrow> takes_fit (length (content b)) ops \<Longrightarrow>
   returns (run_queue app tak ops b)
     (\<lambda>(out, b'). ok b' \<and> out @ content b' = content b @ appended ops)"
proof (induction ops arbitrary: b)
  case (Cons q ops)
  show ?case
  proof (cases q)
    case (Append bs)
    from app_law [OF Cons.prems(1), of bs] obtain b' where
      b': "app b bs = Some b'" "ok b'" "content b' = content b @ bs" by (auto elim: returnsE)
    with Cons.IH [of b'] Cons.prems Append show ?thesis by simp
  next
    case (Take n)
    with Cons.prems have n: "n \<le> length (content b)" by simp
    note t = tak_law [OF Cons.prems(1) n]
    with Cons.IH [of "snd (tak n b)"] Cons.prems Take obtain out b' where
      "run_queue app tak ops (snd (tak n b)) = Some (out, b')" "ok b'"
      "out @ content b' = drop n (content b) @ appended ops" by (auto elim!: returnsE)
    with Take t show ?thesis by simp
  qed
qed simp

end

interpretation obuf: byte_queue buf_ok pending buffer_append send_take
proof unfold_locales
  fix b bs assume "buf_ok b"
  then show "returns (buffer_append b bs) (\<lambda>b'. buf_ok b' \<and> pending b' = pending b @ bs)"
    using append_ok [of b bs] by (auto elim!: returns_mono)
next
  fix b n assume "buf_ok b" "n \<le> length (pending b)"
  then show "fst (send_take n b) = take n (pending b) \<and> buf_ok (snd (send_take n b))
      \<and> pending (snd (send_take n b)) = drop n (pending b)"
    using send_take_ok [of b n] by blast
qed

section \<open>Properties\<close>



text \<open>C25. Appending always ends: the capacity is doubled only as often as needed, and afterwards there
  is room behind the content.\<close>

theorem append_grows_to_fit:
  assumes "buf_ok b"
  shows "returns (buffer_append b bs) (\<lambda>b'. buffer_end b' < buffer_capacity b'
    \<and> (\<exists>k. buffer_capacity b' = 2 ^ k * buffer_capacity b
         \<and> (\<forall>j < k. 2 ^ j * buffer_capacity b \<le> length (pending b) + length bs)))"
proof -
  let ?r = "reset_buffer_start b" and ?n = "buffer_end b - buffer_start b + length bs"
  have cap: "0 < buffer_capacity b" using assms by (simp add: buf_ok_def)
  from grow_capacity_returns [OF this, of ?n] obtain k where
    k: "grow_capacity ?n (buffer_capacity b) = Some (2 ^ k * buffer_capacity b)" "?n < 2 ^ k * buffer_capacity b"
      "\<forall>j < k. 2 ^ j * buffer_capacity b \<le> ?n" by blast
  have stay: "\<exists>k. buffer_capacity b = 2 ^ k * buffer_capacity b
      \<and> (\<forall>j < k. 2 ^ j * buffer_capacity b \<le> length (pending b) + length bs)"
    by (intro exI [of _ 0]) simp
  show ?thesis
    using k stay
    by (cases "buffer_end b + length bs < buffer_capacity b"; cases "?n < buffer_capacity b")
      (auto simp: buffer_append_def Let_def not_less)
qed

lemma append_grows_to_fit_witness:
  "returns (buffer_append (init_buffer 4) ''abcdefgh'') (\<lambda>b'. 8 < buffer_capacity b')"
proof -
  have "buf_ok (init_buffer 4)" by (simp add: init_buffer_ok)
  from append_grows_to_fit [OF this, of "''abcdefgh''"] append_ok [OF this, of "''abcdefgh''"]
  show ?thesis by (auto simp: init_buffer_ok pending_def elim!: returnsE dest!: arg_cong [where f = length])
qed

text \<open>Before \<open>recv\<close> there is always room for at least half the buffer, so a result of 0 bytes means
  that the peer has closed and never that the buffer was full; what waits in it is kept.\<close>

lemma receive_has_room:
  assumes "buf_ok b"
  shows "buf_ok (recv_prepare b) \<and> pending (recv_prepare b) = pending b \<and> 0 < recv_room (recv_prepare b)
    \<and> buffer_capacity (recv_prepare b) \<le> 2 * recv_room (recv_prepare b)
    \<and> buffer_capacity (recv_prepare b) \<in> {buffer_capacity b, 2 * buffer_capacity b}"
  using recv_prepare_ok [OF assms] by (simp add: recv_prepare_def Let_def)

lemma receive_has_room_witness:
  "0 < recv_room (recv_prepare (recv_store (init_buffer 4) ''abcd''))"
proof -
  have "buf_ok (recv_store (init_buffer 4) ''abcd'')"
    by (rule recv_store_ok(2)) (simp add: init_buffer_ok, simp add: recv_room_def init_buffer_def)
  from receive_has_room [OF this] show ?thesis by blast
qed

end
