(* ===== verification/State.thy ===== *)
theory State
  imports Buffer
begin

text \<open>
  The data both programs share: \<open>lib/auth.h\<close>, \<open>lib/client.h\<close>, \<open>lib/file.h\<close> and the globals of
  \<open>server.c\<close> and \<open>client.c\<close>.  Users and connections point at each other, so both live in stores
  and are named by references; a reference that is not in its store is a dangling pointer, and
  reading through it is \<open>None\<close>.  The clock is part of the state: \<open>time(NULL)\<close> is constant while one
  event is handled and moves between events.
\<close>

section \<open>Structures\<close>

type_synonym uref = nat
type_synonym cref = nat

record user_t =
  u_username :: bytes
  u_password :: bytes
  u_last_logged_in :: int
  u_last_active :: int
  u_last_blocked :: int
  u_attempts :: int
  u_client :: "cref option"
  u_buffer :: im_buffer
  u_blocked :: "uref list"

datatype trie_user = Trie_User (trie_value: "uref option") (trie_child: "char \<Rightarrow> trie_user option")

record UserDb =
  db_first :: "uref list"
  db_root :: trie_user
  block_duration :: int
  login_timeout :: int

text \<open>The two functions the code stores in \<open>close_callback\<close> and \<open>close_prehook\<close>.\<close>

datatype close_hook = Server_Close_Connection | Pm_Close_Connection

record sockaddr_in =
  sin_family :: u16
  sin_port :: u16
  sin_addr :: u32

record im_client =
  c_fd :: int
  c_user :: "uref option"
  c_outbuffer :: im_buffer
  c_inbuffer :: im_buffer
  c_locked :: bool
  c_close_callback :: "close_hook option"
  c_close_prehook :: "close_hook option"
  c_addr :: sockaddr_in
  c_nchunks :: u32
  c_chunkids :: "u32 list"

text \<open>The globals of a process: \<open>clients[]\<close> with \<open>nclients\<close> its length, the epoll interest set
  (\<open>EPOLLIN\<close>, \<open>EPOLLOUT\<close> per registered descriptor), the open descriptors, what was printed, and
  whether \<open>ac_log(AC_LOG_FATAL, ...)\<close> was called.\<close>

record proc =
  is_server :: bool
  users :: "uref \<Rightarrow> user_t option"
  next_user :: uref
  client_store :: "cref \<Rightarrow> im_client option"
  next_client :: cref
  udb :: UserDb
  clients :: "cref list"
  epoll :: "int \<Rightarrow> (bool \<times> bool) option"
  open_fds :: "int set"
  now :: int
  stdout :: "bytes list"
  fatal :: bool

definition put_user :: "uref \<Rightarrow> user_t \<Rightarrow> 'a proc_scheme \<Rightarrow> 'a proc_scheme" where
  "put_user u us s = s\<lparr>users := (users s)(u \<mapsto> us)\<rparr>"

definition put_client :: "cref \<Rightarrow> im_client \<Rightarrow> 'a proc_scheme \<Rightarrow> 'a proc_scheme" where
  "put_client c cl s = s\<lparr>client_store := (client_store s)(c \<mapsto> cl)\<rparr>"

definition print_line :: "bytes \<Rightarrow> 'a proc_scheme \<Rightarrow> 'a proc_scheme" where
  "print_line l s = s\<lparr>stdout := stdout s @ [l]\<rparr>"

lemma put_user_fields [heap_simps]:
  "users (put_user u us s) = (users s)(u \<mapsto> us)"
  "is_server (put_user u us s) = is_server s"
  "next_user (put_user u us s) = next_user s"
  "client_store (put_user u us s) = client_store s"
  "next_client (put_user u us s) = next_client s"
  "udb (put_user u us s) = udb s"
  "clients (put_user u us s) = clients s"
  "epoll (put_user u us s) = epoll s"
  "open_fds (put_user u us s) = open_fds s"
  "now (put_user u us s) = now s"
  "stdout (put_user u us s) = stdout s"
  "fatal (put_user u us s) = fatal s"
  by (simp_all add: put_user_def)

lemma put_client_fields [heap_simps]:
  "client_store (put_client c cl s) = (client_store s)(c \<mapsto> cl)"
  "is_server (put_client c cl s) = is_server s"
  "users (put_client c cl s) = users s"
  "next_user (put_client c cl s) = next_user s"
  "next_client (put_client c cl s) = next_client s"
  "udb (put_client c cl s) = udb s"
  "clients (put_client c cl s) = clients s"
  "epoll (put_client c cl s) = epoll s"
  "open_fds (put_client c cl s) = open_fds s"
  "now (put_client c cl s) = now s"
  "stdout (put_client c cl s) = stdout s"
  "fatal (put_client c cl s) = fatal s"
  by (simp_all add: put_client_def)

lemma print_line_fields [heap_simps]:
  "users (print_line l s) = users s"
  "client_store (print_line l s) = client_store s"
  "udb (print_line l s) = udb s"
  "now (print_line l s) = now s"
  "epoll (print_line l s) = epoll s"
  "clients (print_line l s) = clients s"
  "stdout (print_line l s) = stdout s @ [l]"
  by (simp_all add: print_line_def)

end
