(* ===== verification/Auth.thy ===== *)
theory Auth
  imports Index State
begin

text \<open>
  \<open>lib/auth.c\<close> without the session functions (those are in \<open>Session\<close>, because they send): the
  user trie, the user database, the blocked lists, presence, and the user lists the commands
  print.  The trie is an instance of the \<open>name_index\<close> contract.
\<close>

section \<open>The user trie\<close>

definition newTrieUserNode :: trie_user where
  "newTrieUserNode = Trie_User None (\<lambda>_. None)"

text \<open>The descent of \<open>findUser\<close> and the insertion path of \<open>addUser\<close>.  \<open>trie_put\<close> rebuilds the
  nodes on the path; the code updates the same nodes in place.\<close>

fun trie_find :: "trie_user \<Rightarrow> bytes \<Rightarrow> uref option" where
  "trie_find t [] = trie_value t"
| "trie_find t (c # cs) = (case trie_child t c of None \<Rightarrow> None | Some t' \<Rightarrow> trie_find t' cs)"

fun trie_put :: "trie_user \<Rightarrow> bytes \<Rightarrow> uref \<Rightarrow> trie_user" where
  "trie_put t [] u = Trie_User (Some u) (trie_child t)"
| "trie_put t (c # cs) u =
     (let t' = (case trie_child t c of None \<Rightarrow> newTrieUserNode | Some t' \<Rightarrow> t')
      in Trie_User (trie_value t) ((trie_child t)(c \<mapsto> trie_put t' cs u)))"

lemma trie_find_new [simp]: "trie_find newTrieUserNode k = None"
  by (cases k) (auto simp: newTrieUserNode_def)

lemma trie_find_put: "trie_find (trie_put t k u) k' = (if k' = k then Some u else trie_find t k')"
proof (induction t k u arbitrary: k' rule: trie_put.induct)
  case (1 t u)
  then show ?case by (cases k') auto
next
  case (2 t c cs u)
  then show ?case by (cases k') (auto simp: Let_def split: option.splits)
qed

interpretation utrie: name_index newTrieUserNode trie_find trie_put "\<lambda>_. True"
  by unfold_locales (simp_all add: trie_find_put)

section \<open>The user database\<close>

definition newUserDb :: "int \<Rightarrow> int \<Rightarrow> UserDb" where
  "newUserDb bd lt = \<lparr>db_first = [], db_root = newTrieUserNode, block_duration = bd, login_timeout = lt\<rparr>"

definition new_user :: "bytes \<Rightarrow> bytes \<Rightarrow> user_t" where
  "new_user name pw = \<lparr>u_username = cstr name, u_password = cstr pw, u_last_logged_in = -1,
     u_last_active = -1, u_last_blocked = -1, u_attempts = 0, u_client = None,
     u_buffer = init_buffer OUT_BUFFER_DEFAULT_SIZE, u_blocked = []\<rparr>"

definition addUser :: "'a proc_scheme \<Rightarrow> bytes \<Rightarrow> bytes \<Rightarrow> uref \<times> 'a proc_scheme" where
  "addUser s name pw =
     (let u = next_user s; db = udb s in
      (u, s\<lparr>users := (users s)(u \<mapsto> new_user name pw), next_user := Suc u,
            udb := db\<lparr>db_first := u # db_first db,
                      db_root := trie_put (db_root db) (cstr name) u\<rparr>\<rparr>))"

definition findUser :: "'a proc_scheme \<Rightarrow> bytes \<Rightarrow> uref option" where
  "findUser s name = trie_find (db_root (udb s)) (cstr name)"

definition findOrAddUser :: "'a proc_scheme \<Rightarrow> bytes \<Rightarrow> uref \<times> 'a proc_scheme" where
  "findOrAddUser s name =
     (case findUser s name of Some u \<Rightarrow> (u, s) | None \<Rightarrow> addUser s name [])"

text \<open>\<open>fscanf("%s")\<close> reads one token: the bytes up to the next white space.\<close>

definition isspace :: "char \<Rightarrow> bool" where
  "isspace c \<longleftrightarrow> c \<in> {CHR 0x20, CHR 0x09, CHR 0x0A, CHR 0x0B, CHR 0x0C, CHR 0x0D}"

function tokens :: "bytes \<Rightarrow> bytes list" where
  "tokens b = (let r = dropWhile isspace b in
     if r = [] then [] else takeWhile (\<lambda>c. \<not> isspace c) r # tokens (dropWhile (\<lambda>c. \<not> isspace c) r))"
  by pat_completeness auto
termination
proof (relation "measure length", goal_cases)
  case (2 b r)
  then obtain c cs where "dropWhile isspace b = c # cs" "\<not> isspace c"
    by (cases "dropWhile isspace b") (auto dest: hd_dropWhile simp: dropWhile_eq_Cons_conv)
  moreover from this have "length (c # cs) \<le> length b"
    by (metis length_dropWhile_le)
  ultimately show ?case
    using 2 length_dropWhile_le [of "\<lambda>c. \<not> isspace c" cs] by simp
qed simp

declare tokens.simps [simp del]

definition USERNAME_LIMIT :: nat where
  "USERNAME_LIMIT = 1024"

text \<open>The loop of \<open>buildUserDb\<close>.  Both arrays keep their content between rounds, so a file that ends
  after a name adds a user with the previous round's password (\<open>None\<close> in the first round, where
  the array is not set).  A token that does not fit its array overflows it.\<close>

fun build_loop :: "bytes list \<Rightarrow> bytes option \<Rightarrow> 'a proc_scheme \<Rightarrow> 'a proc_scheme option" where
  "build_loop [] pw s = Some s"
| "build_loop [name] pw s =
     (if length name < USERNAME_LIMIT
      then (case pw of None \<Rightarrow> None | Some p \<Rightarrow> Some (snd (addUser s name p))) else None)"
| "build_loop (name # pw # ts) prev s =
     (if length name < USERNAME_LIMIT \<and> length pw < USERNAME_LIMIT
      then build_loop ts (Some pw) (snd (addUser s name pw)) else None)"

definition buildUserDb :: "bytes \<Rightarrow> int \<Rightarrow> int \<Rightarrow> 'a proc_scheme \<Rightarrow> 'a proc_scheme option" where
  "buildUserDb file bd lt s = build_loop (tokens file) None (s\<lparr>udb := newUserDb bd lt\<rparr>)"

section \<open>Presence and blocked lists\<close>

definition session_live :: "'a proc_scheme \<Rightarrow> user_t \<Rightarrow> bool" where
  "session_live s us \<longleftrightarrow>
     u_client us \<noteq> None \<and> now s < int32 (u_last_active us + login_timeout (udb s))"

definition isUserLoggedIn :: "'a proc_scheme \<Rightarrow> uref option \<Rightarrow> bool option" where
  "isUserLoggedIn s user = (case user of None \<Rightarrow> Some False
     | Some u \<Rightarrow> do { us \<leftarrow> users s u; Some (session_live s us) })"

fun linked_has :: "uref list \<Rightarrow> uref \<Rightarrow> bool" where
  "linked_has [] u = False"
| "linked_has (v # vs) u = (if v = u then True else linked_has vs u)"

definition hasBlockedUser :: "'a proc_scheme \<Rightarrow> uref \<Rightarrow> uref \<Rightarrow> bool option" where
  "hasBlockedUser s by_u u = do { b \<leftarrow> users s by_u; Some (linked_has (u_blocked b) u) }"

definition blockUser :: "'a proc_scheme \<Rightarrow> uref \<Rightarrow> uref \<Rightarrow> 'a proc_scheme option" where
  "blockUser s by_u u =
     (if u = by_u then Some s
      else do {
        h \<leftarrow> hasBlockedUser s by_u u;
        if h then Some s
        else do { b \<leftarrow> users s by_u; Some (put_user by_u (b\<lparr>u_blocked := u # u_blocked b\<rparr>) s) } })"

text \<open>The pointer-to-pointer walk of \<open>unblockUser\<close>: after a removal the node that took the place of
  the removed one is stepped over without being looked at.\<close>

fun unblock_walk :: "uref \<Rightarrow> uref list \<Rightarrow> uref list" where
  "unblock_walk u [] = []"
| "unblock_walk u (v # vs) =
     (if v = u then (case vs of [] \<Rightarrow> [] | w # ws \<Rightarrow> w # unblock_walk u ws)
      else v # unblock_walk u vs)"

definition unblockUser :: "'a proc_scheme \<Rightarrow> uref \<Rightarrow> uref \<Rightarrow> 'a proc_scheme option" where
  "unblockUser s by_u u = do {
     b \<leftarrow> users s by_u;
     Some (put_user by_u (b\<lparr>u_blocked := unblock_walk u (u_blocked b)\<rparr>) s) }"

section \<open>User lists\<close>

fun filterM :: "('a \<Rightarrow> bool option) \<Rightarrow> 'a list \<Rightarrow> 'a list option" where
  "filterM p [] = Some []"
| "filterM p (x # xs) = do { b \<leftarrow> p x; r \<leftarrow> filterM p xs; Some (if b then x # r else r) }"

definition loggedInUsersAfterTime ::
    "'a proc_scheme \<Rightarrow> int \<Rightarrow> bool \<Rightarrow> uref \<Rightarrow> uref list option" where
  "loggedInUsersAfterTime s threshold currentlyOnline exclude =
     filterM (\<lambda>u. if u \<noteq> exclude then do {
                    us \<leftarrow> users s u;
                    if u_last_active us \<ge> threshold
                    then (if \<not> currentlyOnline then Some True else isUserLoggedIn s (Some u))
                    else Some False }
                  else Some False) (db_first (udb s))"

definition loggedInUsers :: "'a proc_scheme \<Rightarrow> bool \<Rightarrow> uref \<Rightarrow> uref list option" where
  "loggedInUsers s currentlyOnline exclude = loggedInUsersAfterTime s 0 currentlyOnline exclude"

definition loggedInUsersInPastSeconds ::
    "'a proc_scheme \<Rightarrow> int \<Rightarrow> bool \<Rightarrow> uref \<Rightarrow> uref list option" where
  "loggedInUsersInPastSeconds s seconds currentlyOnline exclude =
     loggedInUsersAfterTime s (int32 (now s - seconds)) currentlyOnline exclude"

fun names_of :: "'a proc_scheme \<Rightarrow> uref list \<Rightarrow> bytes list option" where
  "names_of s [] = Some []"
| "names_of s (u # us) = do { x \<leftarrow> users s u; ns \<leftarrow> names_of s us; Some (u_username x # ns) }"

text \<open>The writing loop: the separator goes in front of a name unless nothing has been written.\<close>

fun join_names :: "bytes \<Rightarrow> bytes \<Rightarrow> bytes list \<Rightarrow> bytes" where
  "join_names sep out [] = out"
| "join_names sep out (n # ns) = join_names sep (if out \<noteq> [] then out @ sep @ n else out @ n) ns"

text \<open>\<open>*str\<close> is NULL for an empty list; otherwise \<open>ret + 1\<close> bytes are allocated, and writing more than
  that is a heap overflow.\<close>

definition userLinkedListToString ::
    "'a proc_scheme \<Rightarrow> uref list \<Rightarrow> bytes \<Rightarrow> (nat \<times> bytes option) option" where
  "userLinkedListToString s l sep =
     (if l = [] then Some (0, None)
      else do {
        ns \<leftarrow> names_of s l;
        let ret = sum_list (map (\<lambda>n. 2 + length n) ns) - 2;
        let out = join_names sep [] ns;
        if length out + 1 \<le> ret + 1 then Some (ret, Some out) else None })"

section \<open>Facts: lists of users\<close>

lemma linked_has_iff [simp]: "linked_has vs u \<longleftrightarrow> u \<in> set vs"
  by (induction vs) auto

lemma hasBlockedUser_eq [heap_simps]:
  "users s b = Some x \<Longrightarrow> hasBlockedUser s b u = Some (u \<in> set (u_blocked x))"
  by (simp add: hasBlockedUser_def)

lemma isUserLoggedIn_eq [heap_simps]:
  "isUserLoggedIn s None = Some False"
  "users s u = Some x \<Longrightarrow> isUserLoggedIn s (Some u) = Some (session_live s x)"
  by (simp_all add: isUserLoggedIn_def)

text \<open>On a list without duplicates, which is what \<open>blockUser\<close> maintains, the walk removes exactly
  the user; with duplicates it may leave one behind.\<close>

lemma unblock_walk_set: "set (unblock_walk u vs) \<subseteq> set vs"
  by (induction u vs rule: unblock_walk.induct) (auto split: list.splits)

lemma unblock_walk_notin: "u \<notin> set vs \<Longrightarrow> unblock_walk u vs = vs"
  by (induction u vs rule: unblock_walk.induct) auto

lemma unblock_walk_distinct: "distinct vs \<Longrightarrow> unblock_walk u vs = remove1 u vs"
proof (induction u vs rule: unblock_walk.induct)
  case (2 u v vs)
  then show ?case
    by (cases vs) (auto simp: unblock_walk_notin split: if_splits)
qed simp

lemma filterM_eq:
  "(\<And>x. x \<in> set xs \<Longrightarrow> p x = Some (q x)) \<Longrightarrow> filterM p xs = Some (filter q xs)"
  by (induction xs) auto

lemma names_of_eq:
  "set l \<subseteq> dom (users s) \<Longrightarrow> names_of s l = Some (map (\<lambda>u. u_username (the (users s u))) l)"
  by (induction l) auto

lemma join_names_acc: "out \<noteq> [] \<Longrightarrow> join_names sep out ns = out @ concat (map (\<lambda>n. sep @ n) ns)"
  by (induction ns arbitrary: out) auto

lemma join_names_eq:
  "[] \<notin> set (n # ns) \<Longrightarrow> join_names sep [] (n # ns) = n @ concat (map (\<lambda>n. sep @ n) ns)"
  using join_names_acc [of n sep ns] by auto

lemma join_names_length:
  "length (join_names sep out ns) \<le> length out + sum_list (map (\<lambda>n. length sep + length n) ns)"
  by (induction ns arbitrary: out) (fastforce intro: order_trans)+

lemma join_names_fits:
  assumes "length sep \<le> 2" and "ns \<noteq> []"
  shows "length (join_names sep [] ns) \<le> sum_list (map (\<lambda>n. 2 + length n) ns) - 2"
proof -
  obtain n ns' where ns: "ns = n # ns'" using assms(2) by (cases ns) auto
  have "sum_list (map (\<lambda>n. length sep + length n) ns') \<le> sum_list (map (\<lambda>n. 2 + length n) ns')"
    using assms(1) by (intro sum_list_mono) simp
  with join_names_length [of sep n ns'] show ?thesis by (simp add: ns)
qed

lemma userLinkedListToString_returns:
  assumes "set l \<subseteq> dom (users s)" and "length sep \<le> 2"
  shows "userLinkedListToString s l sep =
    Some (if l = [] then (0, None) else
      (sum_list (map (\<lambda>u. 2 + length (u_username (the (users s u)))) l) - 2,
       Some (join_names sep [] (map (\<lambda>u. u_username (the (users s u))) l))))"
  using assms join_names_fits [OF assms(2), of "map (\<lambda>u. u_username (the (users s u))) l"]
  by (auto simp: userLinkedListToString_def names_of_eq comp_def)

section \<open>Facts: the database\<close>

text \<open>The trie and the linked list of users tell the same story: a lookup is a search of the list,
  newest user first, by name.\<close>

definition named :: "'a proc_scheme \<Rightarrow> bytes \<Rightarrow> uref \<Rightarrow> bool" where
  "named s n u \<longleftrightarrow> (case users s u of None \<Rightarrow> False | Some x \<Rightarrow> u_username x = n)"

definition db_ok :: "'a proc_scheme \<Rightarrow> bool" where
  "db_ok s \<longleftrightarrow>
     set (db_first (udb s)) = dom (users s) \<and> distinct (db_first (udb s))
     \<and> (\<forall>u \<in> dom (users s). u < next_user s)
     \<and> (\<forall>n. trie_find (db_root (udb s)) n = List.find (named s n) (db_first (udb s)))"

lemma db_okD:
  assumes "db_ok s"
  shows "set (db_first (udb s)) = dom (users s)" "distinct (db_first (udb s))"
    "u \<in> dom (users s) \<Longrightarrow> u < next_user s"
    "trie_find (db_root (udb s)) n = List.find (named s n) (db_first (udb s))"
  using assms by (auto simp: db_ok_def)

lemma find_cong_list: "(\<And>x. x \<in> set xs \<Longrightarrow> p x = q x) \<Longrightarrow> List.find p xs = List.find q xs"
  by (induction xs) auto

lemma findUser_list: "db_ok s \<Longrightarrow> findUser s name = List.find (named s (cstr name)) (db_first (udb s))"
  by (simp add: findUser_def db_okD)

lemma findUser_SomeD:
  assumes "db_ok s" and "findUser s name = Some u"
  obtains x where "users s u = Some x" and "u_username x = cstr name" and "u \<in> set (db_first (udb s))"
  using assms by (auto simp: findUser_list find_Some_iff named_def split: option.splits)

lemma findUser_NoneD:
  assumes "db_ok s" and "findUser s name = None" and "users s u = Some x"
  shows "u_username x \<noteq> cstr name"
proof -
  have "u \<in> set (db_first (udb s))" using assms(1,3) by (auto simp: db_okD)
  with assms show ?thesis by (auto simp: findUser_list find_None_iff named_def)
qed

lemma addUser_db_ok:
  assumes "db_ok s"
  shows "db_ok (snd (addUser s name pw))"
proof -
  let ?u = "next_user s" and ?t = "snd (addUser s name pw)"
  have u: "?u \<notin> set (db_first (udb s))" using assms by (auto simp: db_okD dest: db_okD(3))
  have "List.find (named ?t n) (db_first (udb s)) = List.find (named s n) (db_first (udb s))" for n
    using u by (intro find_cong_list) (auto simp: named_def addUser_def Let_def)
  moreover have "named ?t n ?u \<longleftrightarrow> cstr name = n" for n
    by (simp add: named_def addUser_def Let_def new_user_def)
  ultimately show ?thesis
    using assms u
    by (auto simp: db_ok_def addUser_def Let_def trie_find_put less_Suc_eq)
qed

lemma db_ok_users_upd:
  assumes "db_ok s" and "users s u = Some x" and "u_username y = u_username x"
    and "users t = (users s)(u \<mapsto> y)" and "udb t = udb s" and "next_user t = next_user s"
  shows "db_ok t"
proof -
  have "named t n v = named s n v" for n v
    using assms by (auto simp: named_def)
  then have "List.find (named t n) l = List.find (named s n) l" for n l
    by (intro find_cong_list) simp
  moreover have "dom (users t) = dom (users s)" using assms by auto
  ultimately show ?thesis using assms(1,5,6) by (simp add: db_ok_def)
qed

lemma db_ok_cong:
  assumes "users t = users s" and "udb t = udb s" and "next_user t = next_user s"
  shows "db_ok t = db_ok s"
proof -
  have "named t = named s" by (intro ext) (simp add: named_def assms)
  then show ?thesis by (simp add: db_ok_def assms)
qed

section \<open>Properties\<close>

text \<open>One round of \<open>buildUserDb\<close> adds one entry to the index the lookups see.\<close>

lemma findUser_addUser:
  "findUser (snd (addUser s n pw)) name = (if cstr name = cstr n then Some (next_user s) else findUser s name)"
  "users (snd (addUser s n pw)) = (users s)(next_user s \<mapsto> new_user n pw)"
  by (simp_all add: findUser_def addUser_def Let_def trie_find_put)

definition listed_as :: "'a proc_scheme \<Rightarrow> bytes \<Rightarrow> bytes \<Rightarrow> bool" where
  "listed_as s name pw \<longleftrightarrow> (\<exists>u x. findUser s name = Some u \<and> users s u = Some x
     \<and> u_username x = name \<and> u_password x = pw)"

lemma listed_as_addUser:
  assumes "db_ok s" and "NUL \<notin> set name" and "NUL \<notin> set n" and "NUL \<notin> set pw"
  shows "n = name \<Longrightarrow> listed_as (snd (addUser s n pw)) name pw"
    "n \<noteq> name \<Longrightarrow> listed_as s name q \<Longrightarrow> listed_as (snd (addUser s n pw)) name q"
    "n \<noteq> name \<Longrightarrow> findUser s name = None \<Longrightarrow> findUser (snd (addUser s n pw)) name = None"
proof -
  show "n = name \<Longrightarrow> listed_as (snd (addUser s n pw)) name pw"
    using assms by (simp add: listed_as_def findUser_addUser new_user_def cstr_id)
  show "n \<noteq> name \<Longrightarrow> findUser s name = None \<Longrightarrow> findUser (snd (addUser s n pw)) name = None"
    using assms by (simp add: findUser_addUser cstr_id)
  have "users s u = Some x \<Longrightarrow> u \<noteq> next_user s" for u x
    using db_okD(3) [OF assms(1), of u] by auto
  then show "n \<noteq> name \<Longrightarrow> listed_as s name q \<Longrightarrow> listed_as (snd (addUser s n pw)) name q"
    using assms by (force simp: listed_as_def findUser_addUser cstr_id)
qed

lemma build_loop_index:
  assumes "db_ok s" and "\<forall>(n, p) \<in> set ps. length n < USERNAME_LIMIT \<and> length p < USERNAME_LIMIT \<and> NUL \<notin> set n \<and> NUL \<notin> set p"
    and "NUL \<notin> set name"
  shows "returns (build_loop (concat (map (\<lambda>(n, p). [n, p]) ps)) prev s) (\<lambda>t. db_ok t \<and>
    (case map_of (rev ps) name of
       Some p \<Rightarrow> listed_as t name p
     | None \<Rightarrow> (findUser s name = None \<longrightarrow> findUser t name = None)
         \<and> (\<forall>q. listed_as s name q \<longrightarrow> listed_as t name q)))"
  using assms(1,2)
proof (induction ps arbitrary: s prev)
  case (Cons e ps)
  obtain n p where e: "e = (n, p)" by (cases e)
  with Cons.prems have ok: "length n < USERNAME_LIMIT" "length p < USERNAME_LIMIT" "NUL \<notin> set n" "NUL \<notin> set p"
    by auto
  let ?s = "snd (addUser s n p)"
  note step = listed_as_addUser [OF Cons.prems(1) assms(3) ok(3,4)]
  have "returns (build_loop (concat (map (\<lambda>(n, p). [n, p]) ps)) (Some p) ?s) (\<lambda>t. db_ok t \<and>
    (case map_of (rev ps) name of
       Some p \<Rightarrow> listed_as t name p
     | None \<Rightarrow> (findUser ?s name = None \<longrightarrow> findUser t name = None)
         \<and> (\<forall>q. listed_as ?s name q \<longrightarrow> listed_as t name q)))"
    using Cons.prems addUser_db_ok by (intro Cons.IH) auto
  then show ?case using e ok(1,2) step
    by (auto simp: map_add_def elim!: returns_mono split: option.splits if_splits)
qed simp

text \<open>C22. A user is found under exactly the names of the credentials file, with the password of the
  last line that names it.\<close>

theorem credentials_lookup:
  assumes "tokens file = concat (map (\<lambda>(n, p). [n, p]) ps)" and "NUL \<notin> set name"
    and "\<forall>(n, p) \<in> set ps. length n < USERNAME_LIMIT \<and> length p < USERNAME_LIMIT \<and> NUL \<notin> set n \<and> NUL \<notin> set p"
    and "users s = Map.empty"
  shows "returns (buildUserDb file bd lt s) (\<lambda>t. db_ok t \<and>
    (case map_of (rev ps) name of
       None \<Rightarrow> findUser t name = None
     | Some p \<Rightarrow> (\<exists>u x. findUser t name = Some u \<and> users t u = Some x \<and> u_username x = name \<and> u_password x = p)))"
proof -
  let ?s = "s\<lparr>udb := newUserDb bd lt\<rparr>"
  have "db_ok ?s" using assms(4) by (simp add: db_ok_def newUserDb_def)
  moreover have "findUser ?s name = None" by (simp add: findUser_def newUserDb_def)
  ultimately show ?thesis
    using build_loop_index [OF _ assms(3,2), of ?s None]
    by (auto simp: buildUserDb_def assms(1) listed_as_def elim!: returns_mono split: option.splits)
qed

text \<open>The state of the witness: a process that has just been started.\<close>

definition blank_proc :: proc where
  "blank_proc = \<lparr>is_server = True, users = Map.empty, next_user = 0, client_store = Map.empty, next_client = 0,
     udb = newUserDb 0 0, clients = [], epoll = Map.empty, open_fds = {}, now = 100, stdout = [], fatal = False\<rparr>"

lemma credentials_lookup_witness:
  "returns (buildUserDb ''ann a1 bob b1 ann a2'' 60 50 blank_proc) (\<lambda>t.
     \<exists>u x. findUser t ''ann'' = Some u \<and> users t u = Some x \<and> u_password x = ''a2'')"
proof -
  have "tokens ''ann a1 bob b1 ann a2'' = concat (map (\<lambda>(n, p). [n, p]) [(''ann'', ''a1''), (''bob'', ''b1''), (''ann'', ''a2'')])"
    by (simp add: tokens.simps isspace_def Let_def)
  from credentials_lookup [OF this, of "''ann''" blank_proc 60 50] show ?thesis
    by (auto simp: USERNAME_LIMIT_def blank_proc_def elim!: returns_mono)
qed

text \<open>The text of a list of users is the names with the separator between them, and it fits the
  memory that was allocated for it (every caller's separator is one or two bytes long).\<close>

theorem user_list_text_fits:
  assumes "set (u # l) \<subseteq> dom (users s)" and "length sep \<le> 2"
    and "\<forall>v \<in> set (u # l). \<forall>x. users s v = Some x \<longrightarrow> u_username x \<noteq> []"
  shows "\<exists>n. userLinkedListToString s (u # l) sep = Some (n, Some (u_username (the (users s u))
      @ concat (map (\<lambda>v. sep @ u_username (the (users s v))) l)))
    \<and> length (u_username (the (users s u)) @ concat (map (\<lambda>v. sep @ u_username (the (users s v))) l)) \<le> n"
proof -
  let ?ns = "map (\<lambda>v. u_username (the (users s v))) (u # l)"
  have "u_username (the (users s v)) \<noteq> []" if "v \<in> set (u # l)" for v
  proof -
    from that assms(1) obtain x where "users s v = Some x" by blast
    moreover from this that assms(3) have "u_username x \<noteq> []" by blast
    ultimately show ?thesis by simp
  qed
  then have "[] \<notin> set ?ns" by (metis (no_types, lifting) imageE image_set)
  then have "join_names sep [] ?ns = u_username (the (users s u)) @ concat (map (\<lambda>v. sep @ u_username (the (users s v))) l)"
    using join_names_eq [of "u_username (the (users s u))" "map (\<lambda>v. u_username (the (users s v))) l" sep]
    by (simp add: comp_def)
  with userLinkedListToString_returns [OF assms(1,2)] join_names_fits [OF assms(2), of ?ns] show ?thesis
    by (simp add: comp_def)
qed

lemma user_list_text_fits_witness:
  "\<exists>n. userLinkedListToString (blank_proc\<lparr>users := [0 \<mapsto> new_user ''ann'' ''a'', 1 \<mapsto> new_user ''bob'' ''b'']\<rparr>) [1, 0] [CHR 0x0A] =
    Some (n, Some (''bob'' @ [CHR 0x0A] @ ''ann''))"
  using user_list_text_fits [of 1 "[0]" "blank_proc\<lparr>users := [0 \<mapsto> new_user ''ann'' ''a'', 1 \<mapsto> new_user ''bob'' ''b'']\<rparr>" "[CHR 0x0A]"]
  by (auto simp: new_user_def cstr_def)

end
