(* ===== verification/Protobuf.thy ===== *)
theory Protobuf
  imports Prelude
begin

text \<open>
  The protobuf runtime \<open>achelper/ac_protobuf\<close> is a git submodule whose sources are not part
  of the repository.  Its entry points are therefore a parameter of the model, the record
  \<open>pb_lib\<close>, and what the code relies on are the laws of the locale \<open>pb_codec\<close>.  The field and
  message structures are those the generated code in \<open>proto/\<close> fills in and reads: a linked
  list of fields with an id, a wire type, a length and a pointer to the value.
\<close>

section \<open>The structures and the library's entry points\<close>

text \<open>\<open>field_len\<close> is \<open>None\<close> where the code leaves it unset (the generated encoders set it for
  length-delimited fields only); \<open>field_value\<close> are the bytes the value pointer leads to.\<close>

record ac_protobuf_field =
  field_id :: nat
  wiretype :: nat
  field_len :: "nat option"
  field_value :: bytes

type_synonym ac_protobuf_message = "ac_protobuf_field list"

record pb_lib =
  ac_encode_protobuf_msg :: "ac_protobuf_message \<Rightarrow> bytes"
  ac_decode_protobuf_msg :: "bytes \<Rightarrow> (ac_protobuf_message \<times> nat) option"
  ac_decode_protobuf_msg_with_n_fields :: "bytes \<Rightarrow> nat \<Rightarrow> (ac_protobuf_message \<times> nat) option"
  ac_find_protobuf_field_in_msg :: "ac_protobuf_message \<Rightarrow> nat \<Rightarrow> ac_protobuf_field option"

section \<open>What the code relies on\<close>

definition wf_field :: "ac_protobuf_field \<Rightarrow> bool" where
  "wf_field f \<longleftrightarrow> 0 < field_id f \<and> field_id f < 2 ^ 29 \<and>
     (if wiretype f = 0 then 8 \<le> length (field_value f)
      else wiretype f = 2 \<and>
        (case field_len f of None \<Rightarrow> False
         | Some n \<Rightarrow> n < 2 ^ 31 \<and> n \<le> length (field_value f)))"

text \<open>A decoded field against the one that was encoded.\<close>

definition same_field :: "ac_protobuf_field \<Rightarrow> ac_protobuf_field \<Rightarrow> bool" where
  "same_field f g \<longleftrightarrow> field_id g = field_id f \<and> wiretype g = wiretype f \<and>
     (if wiretype f = 0 then 8 \<le> length (field_value g)
        \<and> take 8 (field_value g) = take 8 (field_value f)
      else (case field_len f of None \<Rightarrow> False
            | Some n \<Rightarrow> field_len g = Some n \<and> n \<le> length (field_value g)
                \<and> take n (field_value g) = take n (field_value f)))"

definition wf_msg :: "ac_protobuf_message \<Rightarrow> bool" where
  "wf_msg m \<longleftrightarrow> m \<noteq> [] \<and> list_all wf_field m"

text \<open>
  A message decodes to the fields it was encoded from, both as a whole buffer and as the first
  \<open>n\<close> fields of a stream; a decoder that needs \<open>n\<close> fields never looks past them, so more input
  does not change an answer.
\<close>

locale pb_codec =
  fixes pb :: pb_lib
  assumes find_law: "ac_find_protobuf_field_in_msg pb m i = List.find (\<lambda>f. field_id f = i) m"
    and decode_law: "wf_msg m \<Longrightarrow>
      returns (ac_decode_protobuf_msg pb (ac_encode_protobuf_msg pb m))
        (\<lambda>(m', k). k = length (ac_encode_protobuf_msg pb m) \<and> list_all2 same_field m m')"
    and decode_n_law: "wf_msg m \<Longrightarrow>
      returns (ac_decode_protobuf_msg_with_n_fields pb (ac_encode_protobuf_msg pb m @ rest) (length m))
        (\<lambda>(m', k). k = length (ac_encode_protobuf_msg pb m) \<and> list_all2 same_field m m')"
    and decode_n_stream: "ac_decode_protobuf_msg_with_n_fields pb bs n = Some (m', k) \<Longrightarrow> 0 < n \<Longrightarrow>
      0 < k \<and> k \<le> length bs \<and>
      ac_decode_protobuf_msg_with_n_fields pb (bs @ rest) n = Some (m', k)"
begin

text \<open>A strict prefix of an encoded message is never taken for a message.\<close>

lemma decode_n_incomplete:
  assumes "wf_msg m" and "ac_encode_protobuf_msg pb m = p @ q" and "q \<noteq> []"
  shows "ac_decode_protobuf_msg_with_n_fields pb p (length m) = None"
proof (rule ccontr)
  assume "ac_decode_protobuf_msg_with_n_fields pb p (length m) \<noteq> None"
  then obtain m' k where
    d: "ac_decode_protobuf_msg_with_n_fields pb p (length m) = Some (m', k)" by auto
  have n: "0 < length m" using assms(1) by (simp add: wf_msg_def)
  from decode_n_stream [OF d n, of q] have "k \<le> length p"
    and "ac_decode_protobuf_msg_with_n_fields pb (ac_encode_protobuf_msg pb m) (length m) = Some (m', k)"
    by (simp_all add: assms(2))
  with decode_n_law [OF assms(1), of "[]"] assms(2,3) show False by simp
qed

lemma encode_nonempty:
  assumes "wf_msg m" shows "ac_encode_protobuf_msg pb m \<noteq> []"
proof
  assume e: "ac_encode_protobuf_msg pb m = []"
  from decode_n_law [OF assms, of "[]"] obtain m' k where
    "ac_decode_protobuf_msg_with_n_fields pb [] (length m) = Some (m', k)"
    by (auto simp: e elim!: returnsE)
  from decode_n_stream [OF this, of "[]"] assms show False by (auto simp: wf_msg_def)
qed

end

section \<open>Reading and writing the fields of a message\<close>

text \<open>The generated code treats every field in one of three ways.  Strings and bytes are copied
  out with a terminator behind them, so a value is its bytes and reads as a C string through
  \<open>cstr\<close>; \<open>uint32_t\<close> and \<open>bool\<close> are read through a cast of the value pointer.  A missing field is
  a NULL pointer that is dereferenced at once: \<open>None\<close>.\<close>

definition read_bytes_field :: "pb_lib \<Rightarrow> ac_protobuf_message \<Rightarrow> nat \<Rightarrow> bytes option" where
  "read_bytes_field pb m i = do {
     f \<leftarrow> ac_find_protobuf_field_in_msg pb m i;
     n \<leftarrow> field_len f;
     if n \<le> length (field_value f) then Some (take n (field_value f)) else None }"

definition read_u32_field :: "pb_lib \<Rightarrow> ac_protobuf_message \<Rightarrow> nat \<Rightarrow> u32 option" where
  "read_u32_field pb m i = do {
     f \<leftarrow> ac_find_protobuf_field_in_msg pb m i;
     read_u32 (field_value f) }"

definition read_bool_field :: "pb_lib \<Rightarrow> ac_protobuf_message \<Rightarrow> nat \<Rightarrow> bool option" where
  "read_bool_field pb m i = do {
     f \<leftarrow> ac_find_protobuf_field_in_msg pb m i;
     case field_value f of [] \<Rightarrow> None | c # _ \<Rightarrow> Some (c \<noteq> NUL) }"

definition bytes_field :: "nat \<Rightarrow> bytes \<Rightarrow> ac_protobuf_field" where
  "bytes_field i v =
     \<lparr>field_id = i, wiretype = 2, field_len = Some (length v), field_value = v @ [NUL]\<rparr>"

definition u32_field :: "nat \<Rightarrow> u32 \<Rightarrow> ac_protobuf_field" where
  "u32_field i w =
     \<lparr>field_id = i, wiretype = 0, field_len = None, field_value = le_bytes 8 (unat w)\<rparr>"

definition bool_field :: "nat \<Rightarrow> bool \<Rightarrow> ac_protobuf_field" where
  "bool_field i b =
     \<lparr>field_id = i, wiretype = 0, field_len = None, field_value = le_bytes 8 (of_bool b)\<rparr>"

definition small_bytes :: "bytes \<Rightarrow> bool" where
  "small_bytes v \<longleftrightarrow> length v < 2 ^ 31"

lemma wf_fields [codec_simps]:
  "wf_field (bytes_field i v) \<longleftrightarrow> 0 < i \<and> i < 2 ^ 29 \<and> small_bytes v"
  "wf_field (u32_field i w) \<longleftrightarrow> 0 < i \<and> i < 2 ^ 29"
  "wf_field (bool_field i b) \<longleftrightarrow> 0 < i \<and> i < 2 ^ 29"
  by (auto simp: wf_field_def bytes_field_def u32_field_def bool_field_def small_bytes_def)

lemma field_ids [codec_simps]:
  "field_id (bytes_field i v) = i" "field_id (u32_field i w) = i" "field_id (bool_field i b) = i"
  by (simp_all add: bytes_field_def u32_field_def bool_field_def)

text \<open>The content of a field the generated encoders made.\<close>

definition field_bytes :: "ac_protobuf_field \<Rightarrow> bytes" where
  "field_bytes f = (case field_len f of None \<Rightarrow> [] | Some n \<Rightarrow> take n (field_value f))"

definition field_u32 :: "ac_protobuf_field \<Rightarrow> u32" where
  "field_u32 f = word_of_nat (of_le (take 4 (field_value f)))"

definition field_bool :: "ac_protobuf_field \<Rightarrow> bool" where
  "field_bool f \<longleftrightarrow> take 1 (field_value f) \<noteq> [NUL]"

lemma take1_le_bytes: "take (Suc 0) (le_bytes 8 n) = [char_of n]"
  using take_le_bytes [of 1 8 n] by simp

lemma field_contents [codec_simps]:
  "field_bytes (bytes_field i v) = v" "field_u32 (u32_field i w) = w" "field_bool (bool_field i b) = b"
proof -
  show "field_bytes (bytes_field i v) = v" by (simp add: field_bytes_def bytes_field_def)
  show "field_u32 (u32_field i w) = w"
    using read_u32_le_bytes [of 8 w "[]"]
    by (simp add: field_u32_def u32_field_def read_u32_def)
  show "field_bool (bool_field i b) = b"
    by (cases b) (simp_all add: field_bool_def bool_field_def take1_le_bytes char_of_def bit_0)
qed

lemma field_inject [codec_simps]:
  "bytes_field i v = bytes_field i v' \<longleftrightarrow> v = v'"
  "u32_field i w = u32_field i w' \<longleftrightarrow> w = w'"
  "bool_field i b = bool_field i b' \<longleftrightarrow> b = b'"
proof -
  show "bytes_field i v = bytes_field i v' \<longleftrightarrow> v = v'" by (auto simp: bytes_field_def)
  show "u32_field i w = u32_field i w' \<longleftrightarrow> w = w'" by (metis field_contents(2))
  show "bool_field i b = bool_field i b' \<longleftrightarrow> b = b'"
  proof
    assume "bool_field i b = bool_field i b'"
    then have "field_bool (bool_field i b) = field_bool (bool_field i b')" by (simp only:)
    then show "b = b'" by (simp only: field_contents)
  qed (simp only:)
qed

lemma same_field_id: "same_field f g \<Longrightarrow> field_id g = field_id f"
  by (simp add: same_field_def)

context pb_codec
begin

text \<open>A field that is found in what was encoded is found, with the same content, in what was
  decoded.\<close>

lemma find_same:
  "list_all2 same_field m m' \<Longrightarrow> List.find (\<lambda>f. field_id f = i) m = Some f \<Longrightarrow>
   \<exists>g. ac_find_protobuf_field_in_msg pb m' i = Some g \<and> same_field f g"
  unfolding find_law
  by (induction rule: list_all2_induct) (auto simp: same_field_id split: if_splits)

lemma read_bytes_decoded:
  assumes "list_all2 same_field m m'"
    and "\<exists>v. List.find (\<lambda>f. field_id f = i) m = Some (bytes_field i v)"
  shows "read_bytes_field pb m' i = map_option field_bytes (List.find (\<lambda>f. field_id f = i) m)"
proof -
  from assms(2) obtain v where
    v: "List.find (\<lambda>f. field_id f = i) m = Some (bytes_field i v)" by blast
  from find_same [OF assms(1) v] v show ?thesis
    by (auto simp: read_bytes_field_def same_field_def bytes_field_def field_bytes_def)
qed

lemma read_u32_decoded:
  assumes "list_all2 same_field m m'"
    and "\<exists>w. List.find (\<lambda>f. field_id f = i) m = Some (u32_field i w)"
  shows "read_u32_field pb m' i = map_option field_u32 (List.find (\<lambda>f. field_id f = i) m)"
proof -
  from assms(2) obtain w where
    w: "List.find (\<lambda>f. field_id f = i) m = Some (u32_field i w)" by blast
  from find_same [OF assms(1) w] obtain g where
    g: "ac_find_protobuf_field_in_msg pb m' i = Some g"
      "take 8 (field_value g) = le_bytes 8 (unat w)"
    by (auto simp: same_field_def u32_field_def)
  then have "field_value g = le_bytes 8 (unat w) @ drop 8 (field_value g)"
    by (metis append_take_drop_id)
  with g(1) w read_u32_le_bytes [of 8 w "drop 8 (field_value g)"] show ?thesis
    by (simp add: read_u32_field_def codec_simps)
qed

lemma read_bool_decoded:
  assumes "list_all2 same_field m m'"
    and "\<exists>b. List.find (\<lambda>f. field_id f = i) m = Some (bool_field i b)"
  shows "read_bool_field pb m' i = map_option field_bool (List.find (\<lambda>f. field_id f = i) m)"
proof -
  from assms(2) obtain b where
    b: "List.find (\<lambda>f. field_id f = i) m = Some (bool_field i b)" by blast
  from find_same [OF assms(1) b] obtain g where
    g: "ac_find_protobuf_field_in_msg pb m' i = Some g"
      "take 8 (field_value g) = le_bytes 8 (of_bool b)"
    by (auto simp: same_field_def bool_field_def)
  from g(2) have "take (Suc 0) (take 8 (field_value g)) = [char_of (of_bool b :: nat)]"
    by (simp only: take1_le_bytes)
  then obtain cs where "field_value g = char_of (of_bool b :: nat) # cs"
    by (cases "field_value g") auto
  moreover have "(char_of (of_bool b :: nat) \<noteq> NUL) = b"
    by (cases b) (simp_all add: char_of_def bit_0)
  ultimately show ?thesis using g(1) b by (auto simp: read_bool_field_def codec_simps)
qed

lemmas read_decoded = read_bytes_decoded read_u32_decoded read_bool_decoded

text \<open>What every parser of the generated code does with what its encoder made: if it reads the
  message back from any decoded copy of the fields, it reads it back from the bytes.\<close>

lemma decode_then:
  assumes "wf_msg m" and "\<And>m'. list_all2 same_field m m' \<Longrightarrow> P m' = Some r"
  shows "ac_decode_protobuf_msg pb (ac_encode_protobuf_msg pb m) \<bind>
      (\<lambda>(m', k). P m' \<bind> (\<lambda>r. Some (r, k))) = Some (r, length (ac_encode_protobuf_msg pb m))"
  using decode_law [OF assms(1)] assms(2) by (auto elim!: returnsE)

lemma decode_n_then:
  assumes "wf_msg m" and "\<And>m'. list_all2 same_field m m' \<Longrightarrow> P m' = Some r" and "n = length m"
  shows "\<exists>m'. ac_decode_protobuf_msg_with_n_fields pb (ac_encode_protobuf_msg pb m @ rest) n
      = Some (m', length (ac_encode_protobuf_msg pb m)) \<and> P m' = Some r"
  using decode_n_law [OF assms(1), of rest] assms(2,3) by (auto elim!: returnsE)

end

end
