(* ===== verification/Messages.thy ===== *)
theory Messages
  imports Protobuf
begin

text \<open>
  The generated message code of \<open>proto/*.pb.h\<close> and \<open>proto/*.pb.c\<close>, one section per message of
  \<open>request.proto\<close> and \<open>response.proto\<close>: the structure as a record, the parser from a decoded
  message and from bytes, the encoder to a message and to bytes.  A parser that meets a message
  without one of its fields dereferences NULL, which is \<open>None\<close>.  The \<open>free\<close> functions only
  release memory and are not modelled.
\<close>

section \<open>IMRequest\<close>

record IMRequest =
  imq_type :: u32
  imq_value :: bytes

definition parseIMRequestFromProtobufMsg :: "pb_lib \<Rightarrow> ac_protobuf_message \<Rightarrow> IMRequest option" where
  "parseIMRequestFromProtobufMsg pb msg = do {
     type_v \<leftarrow> read_u32_field pb msg 1;
     value_v \<leftarrow> read_bytes_field pb msg 2;
     Some \<lparr>imq_type = type_v, imq_value = value_v\<rparr> }"

definition parseIMRequestFromBytes :: "pb_lib \<Rightarrow> bytes \<Rightarrow> (IMRequest \<times> nat) option" where
  "parseIMRequestFromBytes pb bs = ac_decode_protobuf_msg pb bs \<bind>
     (\<lambda>(msg, rd). parseIMRequestFromProtobufMsg pb msg \<bind> (\<lambda>r. Some (r, rd)))"

definition encodeIMRequestToProtobufMsg :: "IMRequest \<Rightarrow> ac_protobuf_message" where
  "encodeIMRequestToProtobufMsg msg = [u32_field 1 (imq_type msg), bytes_field 2 (imq_value msg)]"

definition encodeIMRequestToBytes :: "pb_lib \<Rightarrow> IMRequest \<Rightarrow> bytes" where
  "encodeIMRequestToBytes pb msg = ac_encode_protobuf_msg pb (encodeIMRequestToProtobufMsg msg)"

lemma wf_IMRequest [codec_simps]:
  "wf_msg (encodeIMRequestToProtobufMsg r) \<longleftrightarrow> small_bytes (imq_value r)"
  by (simp add: wf_msg_def encodeIMRequestToProtobufMsg_def codec_simps)


section \<open>LoginRequest\<close>

record LoginRequest =
  lr_username :: bytes
  lr_password :: bytes
  lr_port :: u32

definition parseLoginRequestFromProtobufMsg :: "pb_lib \<Rightarrow> ac_protobuf_message \<Rightarrow> LoginRequest option" where
  "parseLoginRequestFromProtobufMsg pb msg = do {
     username_v \<leftarrow> read_bytes_field pb msg 1;
     password_v \<leftarrow> read_bytes_field pb msg 2;
     port_v \<leftarrow> read_u32_field pb msg 3;
     Some \<lparr>lr_username = username_v, lr_password = password_v, lr_port = port_v\<rparr> }"

definition parseLoginRequestFromBytes :: "pb_lib \<Rightarrow> bytes \<Rightarrow> (LoginRequest \<times> nat) option" where
  "parseLoginRequestFromBytes pb bs = ac_decode_protobuf_msg pb bs \<bind>
     (\<lambda>(msg, rd). parseLoginRequestFromProtobufMsg pb msg \<bind> (\<lambda>r. Some (r, rd)))"

definition encodeLoginRequestToProtobufMsg :: "LoginRequest \<Rightarrow> ac_protobuf_message" where
  "encodeLoginRequestToProtobufMsg msg = [bytes_field 1 (lr_username msg), bytes_field 2 (lr_password msg), u32_field 3 (lr_port msg)]"

definition encodeLoginRequestToBytes :: "pb_lib \<Rightarrow> LoginRequest \<Rightarrow> bytes" where
  "encodeLoginRequestToBytes pb msg = ac_encode_protobuf_msg pb (encodeLoginRequestToProtobufMsg msg)"

lemma wf_LoginRequest [codec_simps]:
  "wf_msg (encodeLoginRequestToProtobufMsg r) \<longleftrightarrow> small_bytes (lr_username r) \<and> small_bytes (lr_password r)"
  by (simp add: wf_msg_def encodeLoginRequestToProtobufMsg_def codec_simps)


section \<open>MessageRequest\<close>

record MessageRequest =
  mr_broadcast :: bool
  mr_username :: bytes
  mr_msg :: bytes

definition parseMessageRequestFromProtobufMsg :: "pb_lib \<Rightarrow> ac_protobuf_message \<Rightarrow> MessageRequest option" where
  "parseMessageRequestFromProtobufMsg pb msg = do {
     broadcast_v \<leftarrow> read_bool_field pb msg 1;
     username_v \<leftarrow> read_bytes_field pb msg 2;
     msg_v \<leftarrow> read_bytes_field pb msg 3;
     Some \<lparr>mr_broadcast = broadcast_v, mr_username = username_v, mr_msg = msg_v\<rparr> }"

definition parseMessageRequestFromBytes :: "pb_lib \<Rightarrow> bytes \<Rightarrow> (MessageRequest \<times> nat) option" where
  "parseMessageRequestFromBytes pb bs = ac_decode_protobuf_msg pb bs \<bind>
     (\<lambda>(msg, rd). parseMessageRequestFromProtobufMsg pb msg \<bind> (\<lambda>r. Some (r, rd)))"

definition encodeMessageRequestToProtobufMsg :: "MessageRequest \<Rightarrow> ac_protobuf_message" where
  "encodeMessageRequestToProtobufMsg msg = [bool_field 1 (mr_broadcast msg), bytes_field 2 (mr_username msg), bytes_field 3 (mr_msg msg)]"

definition encodeMessageRequestToBytes :: "pb_lib \<Rightarrow> MessageRequest \<Rightarrow> bytes" where
  "encodeMessageRequestToBytes pb msg = ac_encode_protobuf_msg pb (encodeMessageRequestToProtobufMsg msg)"

lemma wf_MessageRequest [codec_simps]:
  "wf_msg (encodeMessageRequestToProtobufMsg r) \<longleftrightarrow> small_bytes (mr_username r) \<and> small_bytes (mr_msg r)"
  by (simp add: wf_msg_def encodeMessageRequestToProtobufMsg_def codec_simps)


section \<open>WhoElseRequest\<close>

record WhoElseRequest =
  wr_limitTime :: bool
  wr_pastSeconds :: u32
  wr_currentlyOnline :: bool

definition parseWhoElseRequestFromProtobufMsg :: "pb_lib \<Rightarrow> ac_protobuf_message \<Rightarrow> WhoElseRequest option" where
  "parseWhoElseRequestFromProtobufMsg pb msg = do {
     limitTime_v \<leftarrow> read_bool_field pb msg 1;
     pastSeconds_v \<leftarrow> read_u32_field pb msg 2;
     currentlyOnline_v \<leftarrow> read_bool_field pb msg 3;
     Some \<lparr>wr_limitTime = limitTime_v, wr_pastSeconds = pastSeconds_v, wr_currentlyOnline = currentlyOnline_v\<rparr> }"

definition parseWhoElseRequestFromBytes :: "pb_lib \<Rightarrow> bytes \<Rightarrow> (WhoElseRequest \<times> nat) option" where
  "parseWhoElseRequestFromBytes pb bs = ac_decode_protobuf_msg pb bs \<bind>
     (\<lambda>(msg, rd). parseWhoElseRequestFromProtobufMsg pb msg \<bind> (\<lambda>r. Some (r, rd)))"

definition encodeWhoElseRequestToProtobufMsg :: "WhoElseRequest \<Rightarrow> ac_protobuf_message" where
  "encodeWhoElseRequestToProtobufMsg msg = [bool_field 1 (wr_limitTime msg), u32_field 2 (wr_pastSeconds msg), bool_field 3 (wr_currentlyOnline msg)]"

definition encodeWhoElseRequestToBytes :: "pb_lib \<Rightarrow> WhoElseRequest \<Rightarrow> bytes" where
  "encodeWhoElseRequestToBytes pb msg = ac_encode_protobuf_msg pb (encodeWhoElseRequestToProtobufMsg msg)"

lemma wf_WhoElseRequest [codec_simps]:
  "wf_msg (encodeWhoElseRequestToProtobufMsg r) \<longleftrightarrow> True"
  by (simp add: wf_msg_def encodeWhoElseRequestToProtobufMsg_def codec_simps)


section \<open>BlockRequest\<close>

record BlockRequest =
  br_username :: bytes

definition parseBlockRequestFromProtobufMsg :: "pb_lib \<Rightarrow> ac_protobuf_message \<Rightarrow> BlockRequest option" where
  "parseBlockRequestFromProtobufMsg pb msg = do {
     username_v \<leftarrow> read_bytes_field pb msg 1;
     Some \<lparr>br_username = username_v\<rparr> }"

definition parseBlockRequestFromBytes :: "pb_lib \<Rightarrow> bytes \<Rightarrow> (BlockRequest \<times> nat) option" where
  "parseBlockRequestFromBytes pb bs = ac_decode_protobuf_msg pb bs \<bind>
     (\<lambda>(msg, rd). parseBlockRequestFromProtobufMsg pb msg \<bind> (\<lambda>r. Some (r, rd)))"

definition encodeBlockRequestToProtobufMsg :: "BlockRequest \<Rightarrow> ac_protobuf_message" where
  "encodeBlockRequestToProtobufMsg msg = [bytes_field 1 (br_username msg)]"

definition encodeBlockRequestToBytes :: "pb_lib \<Rightarrow> BlockRequest \<Rightarrow> bytes" where
  "encodeBlockRequestToBytes pb msg = ac_encode_protobuf_msg pb (encodeBlockRequestToProtobufMsg msg)"

lemma wf_BlockRequest [codec_simps]:
  "wf_msg (encodeBlockRequestToProtobufMsg r) \<longleftrightarrow> small_bytes (br_username r)"
  by (simp add: wf_msg_def encodeBlockRequestToProtobufMsg_def codec_simps)


section \<open>UnBlockRequest\<close>

record UnBlockRequest =
  ubr_username :: bytes

definition parseUnBlockRequestFromProtobufMsg :: "pb_lib \<Rightarrow> ac_protobuf_message \<Rightarrow> UnBlockRequest option" where
  "parseUnBlockRequestFromProtobufMsg pb msg = do {
     username_v \<leftarrow> read_bytes_field pb msg 1;
     Some \<lparr>ubr_username = username_v\<rparr> }"

definition parseUnBlockRequestFromBytes :: "pb_lib \<Rightarrow> bytes \<Rightarrow> (UnBlockRequest \<times> nat) option" where
  "parseUnBlockRequestFromBytes pb bs = ac_decode_protobuf_msg pb bs \<bind>
     (\<lambda>(msg, rd). parseUnBlockRequestFromProtobufMsg pb msg \<bind> (\<lambda>r. Some (r, rd)))"

definition encodeUnBlockRequestToProtobufMsg :: "UnBlockRequest \<Rightarrow> ac_protobuf_message" where
  "encodeUnBlockRequestToProtobufMsg msg = [bytes_field 1 (ubr_username msg)]"

definition encodeUnBlockRequestToBytes :: "pb_lib \<Rightarrow> UnBlockRequest \<Rightarrow> bytes" where
  "encodeUnBlockRequestToBytes pb msg = ac_encode_protobuf_msg pb (encodeUnBlockRequestToProtobufMsg msg)"

lemma wf_UnBlockRequest [codec_simps]:
  "wf_msg (encodeUnBlockRequestToProtobufMsg r) \<longleftrightarrow> small_bytes (ubr_username r)"
  by (simp add: wf_msg_def encodeUnBlockRequestToProtobufMsg_def codec_simps)


section \<open>LogOutRequest\<close>

text \<open>The message has no fields: its structure is empty, its encoding is the empty message, and its
  parser never looks at what was decoded.\<close>

type_synonym LogOutRequest = unit

definition parseLogOutRequestFromProtobufMsg :: "pb_lib \<Rightarrow> ac_protobuf_message option \<Rightarrow> LogOutRequest option" where
  "parseLogOutRequestFromProtobufMsg pb msg = Some ()"

definition parseLogOutRequestFromBytes :: "pb_lib \<Rightarrow> bytes \<Rightarrow> (LogOutRequest \<times> nat) option" where
  "parseLogOutRequestFromBytes pb bs = (let msg = ac_decode_protobuf_msg pb bs in do {
     r \<leftarrow> parseLogOutRequestFromProtobufMsg pb (map_option fst msg);
     Some (r, case msg of None \<Rightarrow> 0 | Some (_, rd) \<Rightarrow> rd) })"

definition encodeLogOutRequestToProtobufMsg :: "LogOutRequest \<Rightarrow> ac_protobuf_message" where
  "encodeLogOutRequestToProtobufMsg msg = []"

definition encodeLogOutRequestToBytes :: "pb_lib \<Rightarrow> LogOutRequest \<Rightarrow> bytes" where
  "encodeLogOutRequestToBytes pb msg = ac_encode_protobuf_msg pb (encodeLogOutRequestToProtobufMsg msg)"

section \<open>GetIPRequest\<close>

record GetIPRequest =
  giq_username :: bytes

definition parseGetIPRequestFromProtobufMsg :: "pb_lib \<Rightarrow> ac_protobuf_message \<Rightarrow> GetIPRequest option" where
  "parseGetIPRequestFromProtobufMsg pb msg = do {
     username_v \<leftarrow> read_bytes_field pb msg 1;
     Some \<lparr>giq_username = username_v\<rparr> }"

definition parseGetIPRequestFromBytes :: "pb_lib \<Rightarrow> bytes \<Rightarrow> (GetIPRequest \<times> nat) option" where
  "parseGetIPRequestFromBytes pb bs = ac_decode_protobuf_msg pb bs \<bind>
     (\<lambda>(msg, rd). parseGetIPRequestFromProtobufMsg pb msg \<bind> (\<lambda>r. Some (r, rd)))"

definition encodeGetIPRequestToProtobufMsg :: "GetIPRequest \<Rightarrow> ac_protobuf_message" where
  "encodeGetIPRequestToProtobufMsg msg = [bytes_field 1 (giq_username msg)]"

definition encodeGetIPRequestToBytes :: "pb_lib \<Rightarrow> GetIPRequest \<Rightarrow> bytes" where
  "encodeGetIPRequestToBytes pb msg = ac_encode_protobuf_msg pb (encodeGetIPRequestToProtobufMsg msg)"

lemma wf_GetIPRequest [codec_simps]:
  "wf_msg (encodeGetIPRequestToProtobufMsg r) \<longleftrightarrow> small_bytes (giq_username r)"
  by (simp add: wf_msg_def encodeGetIPRequestToProtobufMsg_def codec_simps)


section \<open>RegisterFileRequest\<close>

record RegisterFileRequest =
  rfr_filename :: bytes
  rfr_chunks :: u32

definition parseRegisterFileRequestFromProtobufMsg :: "pb_lib \<Rightarrow> ac_protobuf_message \<Rightarrow> RegisterFileRequest option" where
  "parseRegisterFileRequestFromProtobufMsg pb msg = do {
     filename_v \<leftarrow> read_bytes_field pb msg 1;
     chunks_v \<leftarrow> read_u32_field pb msg 2;
     Some \<lparr>rfr_filename = filename_v, rfr_chunks = chunks_v\<rparr> }"

definition parseRegisterFileRequestFromBytes :: "pb_lib \<Rightarrow> bytes \<Rightarrow> (RegisterFileRequest \<times> nat) option" where
  "parseRegisterFileRequestFromBytes pb bs = ac_decode_protobuf_msg pb bs \<bind>
     (\<lambda>(msg, rd). parseRegisterFileRequestFromProtobufMsg pb msg \<bind> (\<lambda>r. Some (r, rd)))"

definition encodeRegisterFileRequestToProtobufMsg :: "RegisterFileRequest \<Rightarrow> ac_protobuf_message" where
  "encodeRegisterFileRequestToProtobufMsg msg = [bytes_field 1 (rfr_filename msg), u32_field 2 (rfr_chunks msg)]"

definition encodeRegisterFileRequestToBytes :: "pb_lib \<Rightarrow> RegisterFileRequest \<Rightarrow> bytes" where
  "encodeRegisterFileRequestToBytes pb msg = ac_encode_protobuf_msg pb (encodeRegisterFileRequestToProtobufMsg msg)"

lemma wf_RegisterFileRequest [codec_simps]:
  "wf_msg (encodeRegisterFileRequestToProtobufMsg r) \<longleftrightarrow> small_bytes (rfr_filename r)"
  by (simp add: wf_msg_def encodeRegisterFileRequestToProtobufMsg_def codec_simps)


section \<open>RegisterChunkRequest\<close>

record RegisterChunkRequest =
  rcr_filename :: bytes
  rcr_chunks :: bytes

definition parseRegisterChunkRequestFromProtobufMsg :: "pb_lib \<Rightarrow> ac_protobuf_message \<Rightarrow> RegisterChunkRequest option" where
  "parseRegisterChunkRequestFromProtobufMsg pb msg = do {
     filename_v \<leftarrow> read_bytes_field pb msg 1;
     chunks_v \<leftarrow> read_bytes_field pb msg 2;
     Some \<lparr>rcr_filename = filename_v, rcr_chunks = chunks_v\<rparr> }"

definition parseRegisterChunkRequestFromBytes :: "pb_lib \<Rightarrow> bytes \<Rightarrow> (RegisterChunkRequest \<times> nat) option" where
  "parseRegisterChunkRequestFromBytes pb bs = ac_decode_protobuf_msg pb bs \<bind>
     (\<lambda>(msg, rd). parseRegisterChunkRequestFromProtobufMsg pb msg \<bind> (\<lambda>r. Some (r, rd)))"

definition encodeRegisterChunkRequestToProtobufMsg :: "RegisterChunkRequest \<Rightarrow> ac_protobuf_message" where
  "encodeRegisterChunkRequestToProtobufMsg msg = [bytes_field 1 (rcr_filename msg), bytes_field 2 (rcr_chunks msg)]"

definition encodeRegisterChunkRequestToBytes :: "pb_lib \<Rightarrow> RegisterChunkRequest \<Rightarrow> bytes" where
  "encodeRegisterChunkRequestToBytes pb msg = ac_encode_protobuf_msg pb (encodeRegisterChunkRequestToProtobufMsg msg)"

lemma wf_RegisterChunkRequest [codec_simps]:
  "wf_msg (encodeRegisterChunkRequestToProtobufMsg r) \<longleftrightarrow> small_bytes (rcr_filename r) \<and> small_bytes (rcr_chunks r)"
  by (simp add: wf_msg_def encodeRegisterChunkRequestToProtobufMsg_def codec_simps)


section \<open>SearchFileRequest\<close>

record SearchFileRequest =
  sfr_filename :: bytes
  sfr_chunks :: bytes

definition parseSearchFileRequestFromProtobufMsg :: "pb_lib \<Rightarrow> ac_protobuf_message \<Rightarrow> SearchFileRequest option" where
  "parseSearchFileRequestFromProtobufMsg pb msg = do {
     filename_v \<leftarrow> read_bytes_field pb msg 1;
     chunks_v \<leftarrow> read_bytes_field pb msg 2;
     Some \<lparr>sfr_filename = filename_v, sfr_chunks = chunks_v\<rparr> }"

definition parseSearchFileRequestFromBytes :: "pb_lib \<Rightarrow> bytes \<Rightarrow> (SearchFileRequest \<times> nat) option" where
  "parseSearchFileRequestFromBytes pb bs = ac_decode_protobuf_msg pb bs \<bind>
     (\<lambda>(msg, rd). parseSearchFileRequestFromProtobufMsg pb msg \<bind> (\<lambda>r. Some (r, rd)))"

definition encodeSearchFileRequestToProtobufMsg :: "SearchFileRequest \<Rightarrow> ac_protobuf_message" where
  "encodeSearchFileRequestToProtobufMsg msg = [bytes_field 1 (sfr_filename msg), bytes_field 2 (sfr_chunks msg)]"

definition encodeSearchFileRequestToBytes :: "pb_lib \<Rightarrow> SearchFileRequest \<Rightarrow> bytes" where
  "encodeSearchFileRequestToBytes pb msg = ac_encode_protobuf_msg pb (encodeSearchFileRequestToProtobufMsg msg)"

lemma wf_SearchFileRequest [codec_simps]:
  "wf_msg (encodeSearchFileRequestToProtobufMsg r) \<longleftrightarrow> small_bytes (sfr_filename r) \<and> small_bytes (sfr_chunks r)"
  by (simp add: wf_msg_def encodeSearchFileRequestToProtobufMsg_def codec_simps)


section \<open>IMResponse\<close>

record IMResponse =
  rsp_type :: u32
  rsp_success :: bool
  rsp_value :: bytes

definition parseIMResponseFromProtobufMsg :: "pb_lib \<Rightarrow> ac_protobuf_message \<Rightarrow> IMResponse option" where
  "parseIMResponseFromProtobufMsg pb msg = do {
     type_v \<leftarrow> read_u32_field pb msg 1;
     success_v \<leftarrow> read_bool_field pb msg 2;
     value_v \<leftarrow> read_bytes_field pb msg 3;
     Some \<lparr>rsp_type = type_v, rsp_success = success_v, rsp_value = value_v\<rparr> }"

definition parseIMResponseFromBytes :: "pb_lib \<Rightarrow> bytes \<Rightarrow> (IMResponse \<times> nat) option" where
  "parseIMResponseFromBytes pb bs = ac_decode_protobuf_msg pb bs \<bind>
     (\<lambda>(msg, rd). parseIMResponseFromProtobufMsg pb msg \<bind> (\<lambda>r. Some (r, rd)))"

definition encodeIMResponseToProtobufMsg :: "IMResponse \<Rightarrow> ac_protobuf_message" where
  "encodeIMResponseToProtobufMsg msg = [u32_field 1 (rsp_type msg), bool_field 2 (rsp_success msg), bytes_field 3 (rsp_value msg)]"

definition encodeIMResponseToBytes :: "pb_lib \<Rightarrow> IMResponse \<Rightarrow> bytes" where
  "encodeIMResponseToBytes pb msg = ac_encode_protobuf_msg pb (encodeIMResponseToProtobufMsg msg)"

lemma wf_IMResponse [codec_simps]:
  "wf_msg (encodeIMResponseToProtobufMsg r) \<longleftrightarrow> small_bytes (rsp_value r)"
  by (simp add: wf_msg_def encodeIMResponseToProtobufMsg_def codec_simps)


section \<open>TextResponse\<close>

record TextResponse =
  txt_msg :: bytes

definition parseTextResponseFromProtobufMsg :: "pb_lib \<Rightarrow> ac_protobuf_message \<Rightarrow> TextResponse option" where
  "parseTextResponseFromProtobufMsg pb msg = do {
     msg_v \<leftarrow> read_bytes_field pb msg 1;
     Some \<lparr>txt_msg = msg_v\<rparr> }"

definition parseTextResponseFromBytes :: "pb_lib \<Rightarrow> bytes \<Rightarrow> (TextResponse \<times> nat) option" where
  "parseTextResponseFromBytes pb bs = ac_decode_protobuf_msg pb bs \<bind>
     (\<lambda>(msg, rd). parseTextResponseFromProtobufMsg pb msg \<bind> (\<lambda>r. Some (r, rd)))"

definition encodeTextResponseToProtobufMsg :: "TextResponse \<Rightarrow> ac_protobuf_message" where
  "encodeTextResponseToProtobufMsg msg = [bytes_field 1 (txt_msg msg)]"

definition encodeTextResponseToBytes :: "pb_lib \<Rightarrow> TextResponse \<Rightarrow> bytes" where
  "encodeTextResponseToBytes pb msg = ac_encode_protobuf_msg pb (encodeTextResponseToProtobufMsg msg)"

lemma wf_TextResponse [codec_simps]:
  "wf_msg (encodeTextResponseToProtobufMsg r) \<longleftrightarrow> small_bytes (txt_msg r)"
  by (simp add: wf_msg_def encodeTextResponseToProtobufMsg_def codec_simps)


section \<open>ExitResponse\<close>

record ExitResponse =
  ext_msg :: bytes

definition parseExitResponseFromProtobufMsg :: "pb_lib \<Rightarrow> ac_protobuf_message \<Rightarrow> ExitResponse option" where
  "parseExitResponseFromProtobufMsg pb msg = do {
     msg_v \<leftarrow> read_bytes_field pb msg 1;
     Some \<lparr>ext_msg = msg_v\<rparr> }"

definition parseExitResponseFromBytes :: "pb_lib \<Rightarrow> bytes \<Rightarrow> (ExitResponse \<times> nat) option" where
  "parseExitResponseFromBytes pb bs = ac_decode_protobuf_msg pb bs \<bind>
     (\<lambda>(msg, rd). parseExitResponseFromProtobufMsg pb msg \<bind> (\<lambda>r. Some (r, rd)))"

definition encodeExitResponseToProtobufMsg :: "ExitResponse \<Rightarrow> ac_protobuf_message" where
  "encodeExitResponseToProtobufMsg msg = [bytes_field 1 (ext_msg msg)]"

definition encodeExitResponseToBytes :: "pb_lib \<Rightarrow> ExitResponse \<Rightarrow> bytes" where
  "encodeExitResponseToBytes pb msg = ac_encode_protobuf_msg pb (encodeExitResponseToProtobufMsg msg)"

lemma wf_ExitResponse [codec_simps]:
  "wf_msg (encodeExitResponseToProtobufMsg r) \<longleftrightarrow> small_bytes (ext_msg r)"
  by (simp add: wf_msg_def encodeExitResponseToProtobufMsg_def codec_simps)


section \<open>GetIPResponse\<close>

record GetIPResponse =
  gip_username :: bytes
  gip_addr :: bytes

definition parseGetIPResponseFromProtobufMsg :: "pb_lib \<Rightarrow> ac_protobuf_message \<Rightarrow> GetIPResponse option" where
  "parseGetIPResponseFromProtobufMsg pb msg = do {
     username_v \<leftarrow> read_bytes_field pb msg 1;
     addr_v \<leftarrow> read_bytes_field pb msg 2;
     Some \<lparr>gip_username = username_v, gip_addr = addr_v\<rparr> }"

definition parseGetIPResponseFromBytes :: "pb_lib \<Rightarrow> bytes \<Rightarrow> (GetIPResponse \<times> nat) option" where
  "parseGetIPResponseFromBytes pb bs = ac_decode_protobuf_msg pb bs \<bind>
     (\<lambda>(msg, rd). parseGetIPResponseFromProtobufMsg pb msg \<bind> (\<lambda>r. Some (r, rd)))"

definition encodeGetIPResponseToProtobufMsg :: "GetIPResponse \<Rightarrow> ac_protobuf_message" where
  "encodeGetIPResponseToProtobufMsg msg = [bytes_field 1 (gip_username msg), bytes_field 2 (gip_addr msg)]"

definition encodeGetIPResponseToBytes :: "pb_lib \<Rightarrow> GetIPResponse \<Rightarrow> bytes" where
  "encodeGetIPResponseToBytes pb msg = ac_encode_protobuf_msg pb (encodeGetIPResponseToProtobufMsg msg)"

lemma wf_GetIPResponse [codec_simps]:
  "wf_msg (encodeGetIPResponseToProtobufMsg r) \<longleftrightarrow> small_bytes (gip_username r) \<and> small_bytes (gip_addr r)"
  by (simp add: wf_msg_def encodeGetIPResponseToProtobufMsg_def codec_simps)


section \<open>PrivateRegistrationResponse\<close>

record PrivateRegistrationResponse =
  prr_username :: bytes

definition parsePrivateRegistrationResponseFromProtobufMsg :: "pb_lib \<Rightarrow> ac_protobuf_message \<Rightarrow> PrivateRegistrationResponse option" where
  "parsePrivateRegistrationResponseFromProtobufMsg pb msg = do {
     username_v \<leftarrow> read_bytes_field pb msg 1;
     Some \<lparr>prr_username = username_v\<rparr> }"

definition parsePrivateRegistrationResponseFromBytes :: "pb_lib \<Rightarrow> bytes \<Rightarrow> (PrivateRegistrationResponse \<times> nat) option" where
  "parsePrivateRegistrationResponseFromBytes pb bs = ac_decode_protobuf_msg pb bs \<bind>
     (\<lambda>(msg, rd). parsePrivateRegistrationResponseFromProtobufMsg pb msg \<bind> (\<lambda>r. Some (r, rd)))"

definition encodePrivateRegistrationResponseToProtobufMsg :: "PrivateRegistrationResponse \<Rightarrow> ac_protobuf_message" where
  "encodePrivateRegistrationResponseToProtobufMsg msg = [bytes_field 1 (prr_username msg)]"

definition encodePrivateRegistrationResponseToBytes :: "pb_lib \<Rightarrow> PrivateRegistrationResponse \<Rightarrow> bytes" where
  "encodePrivateRegistrationResponseToBytes pb msg = ac_encode_protobuf_msg pb (encodePrivateRegistrationResponseToProtobufMsg msg)"

lemma wf_PrivateRegistrationResponse [codec_simps]:
  "wf_msg (encodePrivateRegistrationResponseToProtobufMsg r) \<longleftrightarrow> small_bytes (prr_username r)"
  by (simp add: wf_msg_def encodePrivateRegistrationResponseToProtobufMsg_def codec_simps)


section \<open>ChunkDataRequest\<close>

record ChunkDataRequest =
  cdq_filename :: bytes
  cdq_chunk :: u32

definition parseChunkDataRequestFromProtobufMsg :: "pb_lib \<Rightarrow> ac_protobuf_message \<Rightarrow> ChunkDataRequest option" where
  "parseChunkDataRequestFromProtobufMsg pb msg = do {
     filename_v \<leftarrow> read_bytes_field pb msg 1;
     chunk_v \<leftarrow> read_u32_field pb msg 2;
     Some \<lparr>cdq_filename = filename_v, cdq_chunk = chunk_v\<rparr> }"

definition parseChunkDataRequestFromBytes :: "pb_lib \<Rightarrow> bytes \<Rightarrow> (ChunkDataRequest \<times> nat) option" where
  "parseChunkDataRequestFromBytes pb bs = ac_decode_protobuf_msg pb bs \<bind>
     (\<lambda>(msg, rd). parseChunkDataRequestFromProtobufMsg pb msg \<bind> (\<lambda>r. Some (r, rd)))"

definition encodeChunkDataRequestToProtobufMsg :: "ChunkDataRequest \<Rightarrow> ac_protobuf_message" where
  "encodeChunkDataRequestToProtobufMsg msg = [bytes_field 1 (cdq_filename msg), u32_field 2 (cdq_chunk msg)]"

definition encodeChunkDataRequestToBytes :: "pb_lib \<Rightarrow> ChunkDataRequest \<Rightarrow> bytes" where
  "encodeChunkDataRequestToBytes pb msg = ac_encode_protobuf_msg pb (encodeChunkDataRequestToProtobufMsg msg)"

lemma wf_ChunkDataRequest [codec_simps]:
  "wf_msg (encodeChunkDataRequestToProtobufMsg r) \<longleftrightarrow> small_bytes (cdq_filename r)"
  by (simp add: wf_msg_def encodeChunkDataRequestToProtobufMsg_def codec_simps)


section \<open>ChunkDataResponse\<close>

record ChunkDataResponse =
  cdr_filename :: bytes
  cdr_chunk :: u32
  cdr_data :: bytes

definition parseChunkDataResponseFromProtobufMsg :: "pb_lib \<Rightarrow> ac_protobuf_message \<Rightarrow> ChunkDataResponse option" where
  "parseChunkDataResponseFromProtobufMsg pb msg = do {
     filename_v \<leftarrow> read_bytes_field pb msg 1;
     chunk_v \<leftarrow> read_u32_field pb msg 2;
     data_v \<leftarrow> read_bytes_field pb msg 3;
     Some \<lparr>cdr_filename = filename_v, cdr_chunk = chunk_v, cdr_data = data_v\<rparr> }"

definition parseChunkDataResponseFromBytes :: "pb_lib \<Rightarrow> bytes \<Rightarrow> (ChunkDataResponse \<times> nat) option" where
  "parseChunkDataResponseFromBytes pb bs = ac_decode_protobuf_msg pb bs \<bind>
     (\<lambda>(msg, rd). parseChunkDataResponseFromProtobufMsg pb msg \<bind> (\<lambda>r. Some (r, rd)))"

definition encodeChunkDataResponseToProtobufMsg :: "ChunkDataResponse \<Rightarrow> ac_protobuf_message" where
  "encodeChunkDataResponseToProtobufMsg msg = [bytes_field 1 (cdr_filename msg), u32_field 2 (cdr_chunk msg), bytes_field 3 (cdr_data msg)]"

definition encodeChunkDataResponseToBytes :: "pb_lib \<Rightarrow> ChunkDataResponse \<Rightarrow> bytes" where
  "encodeChunkDataResponseToBytes pb msg = ac_encode_protobuf_msg pb (encodeChunkDataResponseToProtobufMsg msg)"

lemma wf_ChunkDataResponse [codec_simps]:
  "wf_msg (encodeChunkDataResponseToProtobufMsg r) \<longleftrightarrow> small_bytes (cdr_filename r) \<and> small_bytes (cdr_data r)"
  by (simp add: wf_msg_def encodeChunkDataResponseToProtobufMsg_def codec_simps)


section \<open>Round trips\<close>

context pb_codec
begin

lemma IMRequest_decoded:
  "list_all2 same_field (encodeIMRequestToProtobufMsg r) m' \<Longrightarrow> parseIMRequestFromProtobufMsg pb m' = Some r"
  by (simp add: parseIMRequestFromProtobufMsg_def read_decoded encodeIMRequestToProtobufMsg_def codec_simps)

lemma LoginRequest_decoded:
  "list_all2 same_field (encodeLoginRequestToProtobufMsg r) m' \<Longrightarrow> parseLoginRequestFromProtobufMsg pb m' = Some r"
  by (simp add: parseLoginRequestFromProtobufMsg_def read_decoded encodeLoginRequestToProtobufMsg_def codec_simps)

lemma MessageRequest_decoded:
  "list_all2 same_field (encodeMessageRequestToProtobufMsg r) m' \<Longrightarrow> parseMessageRequestFromProtobufMsg pb m' = Some r"
  by (simp add: parseMessageRequestFromProtobufMsg_def read_decoded encodeMessageRequestToProtobufMsg_def codec_simps)

lemma WhoElseRequest_decoded:
  "list_all2 same_field (encodeWhoElseRequestToProtobufMsg r) m' \<Longrightarrow> parseWhoElseRequestFromProtobufMsg pb m' = Some r"
  by (simp add: parseWhoElseRequestFromProtobufMsg_def read_decoded encodeWhoElseRequestToProtobufMsg_def codec_simps)

lemma BlockRequest_decoded:
  "list_all2 same_field (encodeBlockRequestToProtobufMsg r) m' \<Longrightarrow> parseBlockRequestFromProtobufMsg pb m' = Some r"
  by (simp add: parseBlockRequestFromProtobufMsg_def read_decoded encodeBlockRequestToProtobufMsg_def codec_simps)

lemma UnBlockRequest_decoded:
  "list_all2 same_field (encodeUnBlockRequestToProtobufMsg r) m' \<Longrightarrow> parseUnBlockRequestFromProtobufMsg pb m' = Some r"
  by (simp add: parseUnBlockRequestFromProtobufMsg_def read_decoded encodeUnBlockRequestToProtobufMsg_def codec_simps)

lemma GetIPRequest_decoded:
  "list_all2 same_field (encodeGetIPRequestToProtobufMsg r) m' \<Longrightarrow> parseGetIPRequestFromProtobufMsg pb m' = Some r"
  by (simp add: parseGetIPRequestFromProtobufMsg_def read_decoded encodeGetIPRequestToProtobufMsg_def codec_simps)

lemma RegisterFileRequest_decoded:
  "list_all2 same_field (encodeRegisterFileRequestToProtobufMsg r) m' \<Longrightarrow> parseRegisterFileRequestFromProtobufMsg pb m' = Some r"
  by (simp add: parseRegisterFileRequestFromProtobufMsg_def read_decoded encodeRegisterFileRequestToProtobufMsg_def codec_simps)

lemma RegisterChunkRequest_decoded:
  "list_all2 same_field (encodeRegisterChunkRequestToProtobufMsg r) m' \<Longrightarrow> parseRegisterChunkRequestFromProtobufMsg pb m' = Some r"
  by (simp add: parseRegisterChunkRequestFromProtobufMsg_def read_decoded encodeRegisterChunkRequestToProtobufMsg_def codec_simps)

lemma SearchFileRequest_decoded:
  "list_all2 same_field (encodeSearchFileRequestToProtobufMsg r) m' \<Longrightarrow> parseSearchFileRequestFromProtobufMsg pb m' = Some r"
  by (simp add: parseSearchFileRequestFromProtobufMsg_def read_decoded encodeSearchFileRequestToProtobufMsg_def codec_simps)

lemma IMResponse_decoded:
  "list_all2 same_field (encodeIMResponseToProtobufMsg r) m' \<Longrightarrow> parseIMResponseFromProtobufMsg pb m' = Some r"
  by (simp add: parseIMResponseFromProtobufMsg_def read_decoded encodeIMResponseToProtobufMsg_def codec_simps)

lemma TextResponse_decoded:
  "list_all2 same_field (encodeTextResponseToProtobufMsg r) m' \<Longrightarrow> parseTextResponseFromProtobufMsg pb m' = Some r"
  by (simp add: parseTextResponseFromProtobufMsg_def read_decoded encodeTextResponseToProtobufMsg_def codec_simps)

lemma ExitResponse_decoded:
  "list_all2 same_field (encodeExitResponseToProtobufMsg r) m' \<Longrightarrow> parseExitResponseFromProtobufMsg pb m' = Some r"
  by (simp add: parseExitResponseFromProtobufMsg_def read_decoded encodeExitResponseToProtobufMsg_def codec_simps)

lemma GetIPResponse_decoded:
  "list_all2 same_field (encodeGetIPResponseToProtobufMsg r) m' \<Longrightarrow> parseGetIPResponseFromProtobufMsg pb m' = Some r"
  by (simp add: parseGetIPResponseFromProtobufMsg_def read_decoded encodeGetIPResponseToProtobufMsg_def codec_simps)

lemma PrivateRegistrationResponse_decoded:
  "list_all2 same_field (encodePrivateRegistrationResponseToProtobufMsg r) m' \<Longrightarrow> parsePrivateRegistrationResponseFromProtobufMsg pb m' = Some r"
  by (simp add: parsePrivateRegistrationResponseFromProtobufMsg_def read_decoded encodePrivateRegistrationResponseToProtobufMsg_def codec_simps)

lemma ChunkDataRequest_decoded:
  "list_all2 same_field (encodeChunkDataRequestToProtobufMsg r) m' \<Longrightarrow> parseChunkDataRequestFromProtobufMsg pb m' = Some r"
  by (simp add: parseChunkDataRequestFromProtobufMsg_def read_decoded encodeChunkDataRequestToProtobufMsg_def codec_simps)

lemma ChunkDataResponse_decoded:
  "list_all2 same_field (encodeChunkDataResponseToProtobufMsg r) m' \<Longrightarrow> parseChunkDataResponseFromProtobufMsg pb m' = Some r"
  by (simp add: parseChunkDataResponseFromProtobufMsg_def read_decoded encodeChunkDataResponseToProtobufMsg_def codec_simps)

lemma IMRequest_roundtrip:
  "small_bytes (imq_value r) \<Longrightarrow> parseIMRequestFromBytes pb (encodeIMRequestToBytes pb r)
     = Some (r, length (encodeIMRequestToBytes pb r))"
  unfolding parseIMRequestFromBytes_def encodeIMRequestToBytes_def
  by (rule decode_then) (simp_all add: codec_simps IMRequest_decoded)

lemma LoginRequest_roundtrip:
  "small_bytes (lr_username r) \<Longrightarrow> small_bytes (lr_password r) \<Longrightarrow> parseLoginRequestFromBytes pb (encodeLoginRequestToBytes pb r)
     = Some (r, length (encodeLoginRequestToBytes pb r))"
  unfolding parseLoginRequestFromBytes_def encodeLoginRequestToBytes_def
  by (rule decode_then) (simp_all add: codec_simps LoginRequest_decoded)

lemma MessageRequest_roundtrip:
  "small_bytes (mr_username r) \<Longrightarrow> small_bytes (mr_msg r) \<Longrightarrow> parseMessageRequestFromBytes pb (encodeMessageRequestToBytes pb r)
     = Some (r, length (encodeMessageRequestToBytes pb r))"
  unfolding parseMessageRequestFromBytes_def encodeMessageRequestToBytes_def
  by (rule decode_then) (simp_all add: codec_simps MessageRequest_decoded)

lemma WhoElseRequest_roundtrip:
  "parseWhoElseRequestFromBytes pb (encodeWhoElseRequestToBytes pb r)
     = Some (r, length (encodeWhoElseRequestToBytes pb r))"
  unfolding parseWhoElseRequestFromBytes_def encodeWhoElseRequestToBytes_def
  by (rule decode_then) (simp_all add: codec_simps WhoElseRequest_decoded)

lemma BlockRequest_roundtrip:
  "small_bytes (br_username r) \<Longrightarrow> parseBlockRequestFromBytes pb (encodeBlockRequestToBytes pb r)
     = Some (r, length (encodeBlockRequestToBytes pb r))"
  unfolding parseBlockRequestFromBytes_def encodeBlockRequestToBytes_def
  by (rule decode_then) (simp_all add: codec_simps BlockRequest_decoded)

lemma UnBlockRequest_roundtrip:
  "small_bytes (ubr_username r) \<Longrightarrow> parseUnBlockRequestFromBytes pb (encodeUnBlockRequestToBytes pb r)
     = Some (r, length (encodeUnBlockRequestToBytes pb r))"
  unfolding parseUnBlockRequestFromBytes_def encodeUnBlockRequestToBytes_def
  by (rule decode_then) (simp_all add: codec_simps UnBlockRequest_decoded)

lemma GetIPRequest_roundtrip:
  "small_bytes (giq_username r) \<Longrightarrow> parseGetIPRequestFromBytes pb (encodeGetIPRequestToBytes pb r)
     = Some (r, length (encodeGetIPRequestToBytes pb r))"
  unfolding parseGetIPRequestFromBytes_def encodeGetIPRequestToBytes_def
  by (rule decode_then) (simp_all add: codec_simps GetIPRequest_decoded)

lemma RegisterFileRequest_roundtrip:
  "small_bytes (rfr_filename r) \<Longrightarrow> parseRegisterFileRequestFromBytes pb (encodeRegisterFileRequestToBytes pb r)
     = Some (r, length (encodeRegisterFileRequestToBytes pb r))"
  unfolding parseRegisterFileRequestFromBytes_def encodeRegisterFileRequestToBytes_def
  by (rule decode_then) (simp_all add: codec_simps RegisterFileRequest_decoded)

lemma RegisterChunkRequest_roundtrip:
  "small_bytes (rcr_filename r) \<Longrightarrow> small_bytes (rcr_chunks r) \<Longrightarrow> parseRegisterChunkRequestFromBytes pb (encodeRegisterChunkRequestToBytes pb r)
     = Some (r, length (encodeRegisterChunkRequestToBytes pb r))"
  unfolding parseRegisterChunkRequestFromBytes_def encodeRegisterChunkRequestToBytes_def
  by (rule decode_then) (simp_all add: codec_simps RegisterChunkRequest_decoded)

lemma SearchFileRequest_roundtrip:
  "small_bytes (sfr_filename r) \<Longrightarrow> small_bytes (sfr_chunks r) \<Longrightarrow> parseSearchFileRequestFromBytes pb (encodeSearchFileRequestToBytes pb r)
     = Some (r, length (encodeSearchFileRequestToBytes pb r))"
  unfolding parseSearchFileRequestFromBytes_def encodeSearchFileRequestToBytes_def
  by (rule decode_then) (simp_all add: codec_simps SearchFileRequest_decoded)

lemma IMResponse_roundtrip:
  "small_bytes (rsp_value r) \<Longrightarrow> parseIMResponseFromBytes pb (encodeIMResponseToBytes pb r)
     = Some (r, length (encodeIMResponseToBytes pb r))"
  unfolding parseIMResponseFromBytes_def encodeIMResponseToBytes_def
  by (rule decode_then) (simp_all add: codec_simps IMResponse_decoded)

lemma TextResponse_roundtrip:
  "small_bytes (txt_msg r) \<Longrightarrow> parseTextResponseFromBytes pb (encodeTextResponseToBytes pb r)
     = Some (r, length (encodeTextResponseToBytes pb r))"
  unfolding parseTextResponseFromBytes_def encodeTextResponseToBytes_def
  by (rule decode_then) (simp_all add: codec_simps TextResponse_decoded)

lemma ExitResponse_roundtrip:
  "small_bytes (ext_msg r) \<Longrightarrow> parseExitResponseFromBytes pb (encodeExitResponseToBytes pb r)
     = Some (r, length (encodeExitResponseToBytes pb r))"
  unfolding parseExitResponseFromBytes_def encodeExitResponseToBytes_def
  by (rule decode_then) (simp_all add: codec_simps ExitResponse_decoded)

lemma GetIPResponse_roundtrip:
  "small_bytes (gip_username r) \<Longrightarrow> small_bytes (gip_addr r) \<Longrightarrow> parseGetIPResponseFromBytes pb (encodeGetIPResponseToBytes pb r)
     = Some (r, length (encodeGetIPResponseToBytes pb r))"
  unfolding parseGetIPResponseFromBytes_def encodeGetIPResponseToBytes_def
  by (rule decode_then) (simp_all add: codec_simps GetIPResponse_decoded)

lemma PrivateRegistrationResponse_roundtrip:
  "small_bytes (prr_username r) \<Longrightarrow> parsePrivateRegistrationResponseFromBytes pb (encodePrivateRegistrationResponseToBytes pb r)
     = Some (r, length (encodePrivateRegistrationResponseToBytes pb r))"
  unfolding parsePrivateRegistrationResponseFromBytes_def encodePrivateRegistrationResponseToBytes_def
  by (rule decode_then) (simp_all add: codec_simps PrivateRegistrationResponse_decoded)

lemma ChunkDataRequest_roundtrip:
  "small_bytes (cdq_filename r) \<Longrightarrow> parseChunkDataRequestFromBytes pb (encodeChunkDataRequestToBytes pb r)
     = Some (r, length (encodeChunkDataRequestToBytes pb r))"
  unfolding parseChunkDataRequestFromBytes_def encodeChunkDataRequestToBytes_def
  by (rule decode_then) (simp_all add: codec_simps ChunkDataRequest_decoded)

lemma ChunkDataResponse_roundtrip:
  "small_bytes (cdr_filename r) \<Longrightarrow> small_bytes (cdr_data r) \<Longrightarrow> parseChunkDataResponseFromBytes pb (encodeChunkDataResponseToBytes pb r)
     = Some (r, length (encodeChunkDataResponseToBytes pb r))"
  unfolding parseChunkDataResponseFromBytes_def encodeChunkDataResponseToBytes_def
  by (rule decode_then) (simp_all add: codec_simps ChunkDataResponse_decoded)

end

end
