(* ===== verification/Socket.thy ===== *)
theory Socket
  imports Auth Messages
begin

text \<open>
  \<open>lib/response.c\<close> and the sending half of \<open>lib/socket.c\<close>: building responses, appending them to
  the right output buffer, and arming \<open>EPOLLOUT\<close>.  The heap invariant \<open>heap_inv\<close> and the frame
  relation \<open>buffers_only\<close> (nothing but output buffers changed) are stated here, because every
  handler is proved against them.
\<close>

section \<open>Responses\<close>

definition encodeTextResponseToIMResponseAndFree :: "pb_lib \<Rightarrow> TextResponse \<Rightarrow> bool \<Rightarrow> IMResponse" where
  "encodeTextResponseToIMResponseAndFree pb irsp success =
     \<lparr>rsp_type = 1, rsp_success = success, rsp_value = encodeTextResponseToBytes pb irsp\<rparr>"

definition encodeTextToIMResponse :: "pb_lib \<Rightarrow> bytes \<Rightarrow> bool \<Rightarrow> IMResponse" where
  "encodeTextToIMResponse pb txt success =
     encodeTextResponseToIMResponseAndFree pb \<lparr>txt_msg = cstr txt\<rparr> success"

definition encodeExitResponseToIMResponseAndFree :: "pb_lib \<Rightarrow> ExitResponse \<Rightarrow> bool \<Rightarrow> IMResponse" where
  "encodeExitResponseToIMResponseAndFree pb irsp success =
     \<lparr>rsp_type = 2, rsp_success = success, rsp_value = encodeExitResponseToBytes pb irsp\<rparr>"

definition encodeExitTextToIMResponse :: "pb_lib \<Rightarrow> bytes \<Rightarrow> bool \<Rightarrow> IMResponse" where
  "encodeExitTextToIMResponse pb txt success =
     encodeExitResponseToIMResponseAndFree pb \<lparr>ext_msg = cstr txt\<rparr> success"

section \<open>Sending\<close>

text \<open>\<open>epoll_ctl\<close>: modifying or deleting a descriptor that is not registered fails (and is logged),
  as does adding one that is.\<close>

definition epoll_mod :: "int \<Rightarrow> bool \<times> bool \<Rightarrow> (int \<Rightarrow> (bool \<times> bool) option) \<Rightarrow> (int \<Rightarrow> (bool \<times> bool) option)" where
  "epoll_mod fd ev e = (if e fd = None then e else e(fd \<mapsto> ev))"

definition send_response :: "pb_lib \<Rightarrow> im_buffer \<Rightarrow> IMResponse \<Rightarrow> im_buffer option" where
  "send_response pb b msg = buffer_append b (encodeIMResponseToBytes pb msg)"

text \<open>The mutex is not recursive: locking it twice in one thread never returns.\<close>

definition send_response_to_client ::
    "pb_lib \<Rightarrow> 'a proc_scheme \<Rightarrow> cref \<Rightarrow> IMResponse \<Rightarrow> 'a proc_scheme option" where
  "send_response_to_client pb s c msg = do {
     cl \<leftarrow> client_store s c;
     if c_locked cl then None else do {
       ob \<leftarrow> send_response pb (c_outbuffer cl) msg;
       Some ((put_client c (cl\<lparr>c_outbuffer := ob\<rparr>) s)
               \<lparr>epoll := epoll_mod (c_fd cl) (True, True) (epoll s)\<rparr>) } }"

definition send_response_to_user ::
    "pb_lib \<Rightarrow> 'a proc_scheme \<Rightarrow> uref \<Rightarrow> IMResponse \<Rightarrow> 'a proc_scheme option" where
  "send_response_to_user pb s u msg = do {
     us \<leftarrow> users s u;
     live \<leftarrow> (if u_client us \<noteq> None then isUserLoggedIn s (Some u) else Some False);
     (case (live, u_client us) of
        (True, Some c) \<Rightarrow> send_response_to_client pb s c msg
      | _ \<Rightarrow> do { b \<leftarrow> send_response pb (u_buffer us) msg;
                  Some (put_user u (us\<lparr>u_buffer := b\<rparr>) s) }) }"

section \<open>The heap invariant\<close>

text \<open>Users and connections are linked both ways, buffers are well formed, blocked lists have no
  duplicates and never hold their owner, the chunk array has the length the counter says, and the
  mutexes held are exactly \<open>L\<close>, by connections nobody is logged in on.\<close>

definition user_ok :: "'a proc_scheme \<Rightarrow> uref \<Rightarrow> user_t \<Rightarrow> bool" where
  "user_ok s u x \<longleftrightarrow> buf_ok (u_buffer x) \<and> distinct (u_blocked x) \<and> u \<notin> set (u_blocked x)
     \<and> set (u_blocked x) \<subseteq> dom (users s)
     \<and> (\<forall>c. u_client x = Some c \<longrightarrow> (\<exists>cl. client_store s c = Some cl \<and> c_user cl = Some u))"

definition client_ok :: "cref set \<Rightarrow> 'a proc_scheme \<Rightarrow> cref \<Rightarrow> im_client \<Rightarrow> bool" where
  "client_ok L s c cl \<longleftrightarrow> buf_ok (c_outbuffer cl) \<and> buf_ok (c_inbuffer cl)
     \<and> (c_locked cl \<longleftrightarrow> c \<in> L) \<and> length (c_chunkids cl) = unat (c_nchunks cl)
     \<and> (\<forall>u. c_user cl = Some u \<longrightarrow> c \<notin> L \<and> (\<exists>x. users s u = Some x \<and> u_client x = Some c))"

definition heap_inv :: "cref set \<Rightarrow> 'a proc_scheme \<Rightarrow> bool" where
  "heap_inv L s \<longleftrightarrow> db_ok s \<and> (\<forall>u x. users s u = Some x \<longrightarrow> user_ok s u x)
     \<and> (\<forall>c cl. client_store s c = Some cl \<longrightarrow> client_ok L s c cl)"

lemma heap_invD:
  assumes "heap_inv L s"
  shows "db_ok s" "users s u = Some x \<Longrightarrow> user_ok s u x"
    "client_store s c = Some cl \<Longrightarrow> client_ok L s c cl"
  using assms by (auto simp: heap_inv_def)

lemma heap_inv_user:
  assumes "heap_inv L s" and "users s u = Some x"
  shows "buf_ok (u_buffer x)" "distinct (u_blocked x)" "u \<notin> set (u_blocked x)"
    "set (u_blocked x) \<subseteq> dom (users s)"
    "u_client x = Some c \<Longrightarrow> \<exists>cl. client_store s c = Some cl \<and> c_user cl = Some u"
  using heap_invD(2) [OF assms] by (auto simp: user_ok_def)

lemma heap_inv_client:
  assumes "heap_inv L s" and "client_store s c = Some cl"
  shows "buf_ok (c_outbuffer cl)" "buf_ok (c_inbuffer cl)" "c_locked cl \<longleftrightarrow> c \<in> L"
    "length (c_chunkids cl) = unat (c_nchunks cl)"
    "c_user cl = Some u \<Longrightarrow> c \<notin> L \<and> (\<exists>x. users s u = Some x \<and> u_client x = Some c)"
  using heap_invD(3) [OF assms] by (auto simp: client_ok_def)

text \<open>Two users are never logged in on one connection.\<close>

lemma heap_inv_inj:
  assumes "heap_inv L s" and "users s u = Some x" and "users s v = Some y"
    and "u_client x = Some c" and "u_client y = Some c"
  shows "u = v"
  using heap_inv_user(5) [OF assms(1,2,4)] heap_inv_user(5) [OF assms(1,3,5)] by auto

section \<open>Frames: only output buffers changed\<close>

definition strip_user :: "user_t \<Rightarrow> user_t" where
  "strip_user x = x\<lparr>u_buffer := init_buffer 0\<rparr>"

definition strip_client :: "im_client \<Rightarrow> im_client" where
  "strip_client cl = cl\<lparr>c_outbuffer := init_buffer 0\<rparr>"

text \<open>Every global but the two stores and the interest set.\<close>

definition same_globals :: "'a proc_scheme \<Rightarrow> 'a proc_scheme \<Rightarrow> bool" where
  "same_globals s t \<longleftrightarrow> udb t = udb s \<and> now t = now s \<and> is_server t = is_server s
     \<and> clients t = clients s \<and> next_user t = next_user s \<and> next_client t = next_client s
     \<and> open_fds t = open_fds s \<and> stdout t = stdout s \<and> fatal t = fatal s
     \<and> proc.more t = proc.more s"

definition buffers_only :: "'a proc_scheme \<Rightarrow> 'a proc_scheme \<Rightarrow> bool" where
  "buffers_only s t \<longleftrightarrow>
     (\<forall>u. map_option strip_user (users t u) = map_option strip_user (users s u))
     \<and> (\<forall>c. map_option strip_client (client_store t c) = map_option strip_client (client_store s c))
     \<and> dom (epoll t) = dom (epoll s) \<and> same_globals s t"

lemma same_globals_refl [simp]: "same_globals s s"
  by (simp add: same_globals_def)

lemma same_globalsD:
  assumes "same_globals s t"
  shows "udb t = udb s" "now t = now s" "is_server t = is_server s" "clients t = clients s"
    "next_user t = next_user s" "next_client t = next_client s" "open_fds t = open_fds s"
    "stdout t = stdout s" "fatal t = fatal s" "proc.more t = proc.more s"
  using assms by (auto simp: same_globals_def)

lemma same_globals_trans: "same_globals r s \<Longrightarrow> same_globals s t \<Longrightarrow> same_globals r t"
  by (simp add: same_globals_def)

lemma same_globals_put [simp]:
  "same_globals s (put_user u x s)" "same_globals s (put_client c cl s)"
  "same_globals s (t\<lparr>epoll := e\<rparr>) = same_globals s t"
  by (simp_all add: same_globals_def put_user_def put_client_def)

lemma buffers_only_refl [simp]: "buffers_only s s"
  by (simp add: buffers_only_def)

lemma buffers_only_trans: "buffers_only r s \<Longrightarrow> buffers_only s t \<Longrightarrow> buffers_only r t"
  by (auto simp: buffers_only_def intro: same_globals_trans)

lemma buffers_only_globals: "buffers_only s t \<Longrightarrow> same_globals s t"
  by (simp add: buffers_only_def)

lemmas buffers_only_fields = same_globalsD [OF buffers_only_globals]

lemma strip_user_eq: "strip_user y = strip_user x \<longleftrightarrow> (\<exists>b. y = x\<lparr>u_buffer := b\<rparr>)"
proof
  assume "strip_user y = strip_user x"
  then have "y = x\<lparr>u_buffer := u_buffer y\<rparr>" by (cases x; cases y) (simp add: strip_user_def)
  then show "\<exists>b. y = x\<lparr>u_buffer := b\<rparr>" ..
qed (auto simp: strip_user_def)

lemma strip_client_eq: "strip_client y = strip_client x \<longleftrightarrow> (\<exists>b. y = x\<lparr>c_outbuffer := b\<rparr>)"
proof
  assume "strip_client y = strip_client x"
  then have "y = x\<lparr>c_outbuffer := c_outbuffer y\<rparr>" by (cases x; cases y) (simp add: strip_client_def)
  then show "\<exists>b. y = x\<lparr>c_outbuffer := b\<rparr>" ..
qed (auto simp: strip_client_def)

lemma buffers_only_user:
  assumes "buffers_only s t" and "users s u = Some x"
  obtains b where "users t u = Some (x\<lparr>u_buffer := b\<rparr>)"
proof -
  from assms have "map_option strip_user (users t u) = Some (strip_user x)"
    by (auto simp: buffers_only_def)
  then show thesis using that by (auto simp: strip_user_eq)
qed

lemma buffers_only_user_back:
  assumes "buffers_only s t" and "users t u = Some y"
  obtains x b where "users s u = Some x" and "y = x\<lparr>u_buffer := b\<rparr>"
proof -
  from assms have "map_option strip_user (users s u) = Some (strip_user y)"
    unfolding buffers_only_def by (metis option.simps(9))
  then obtain x where "users s u = Some x" "strip_user y = strip_user x" by auto
  then show thesis using that by (auto simp: strip_user_eq)
qed

lemma buffers_only_client:
  assumes "buffers_only s t" and "client_store s c = Some cl"
  obtains b where "client_store t c = Some (cl\<lparr>c_outbuffer := b\<rparr>)"
proof -
  from assms have "map_option strip_client (client_store t c) = Some (strip_client cl)"
    by (auto simp: buffers_only_def)
  then show thesis using that by (auto simp: strip_client_eq)
qed

lemma buffers_only_client_back:
  assumes "buffers_only s t" and "client_store t c = Some cl'"
  obtains cl b where "client_store s c = Some cl" and "cl' = cl\<lparr>c_outbuffer := b\<rparr>"
proof -
  from assms have "map_option strip_client (client_store s c) = Some (strip_client cl')"
    unfolding buffers_only_def by (metis option.simps(9))
  then obtain cl where "client_store s c = Some cl" "strip_client cl' = strip_client cl" by auto
  then show thesis using that by (auto simp: strip_client_eq)
qed

lemma buffers_only_dom:
  assumes "buffers_only s t"
  shows "dom (users t) = dom (users s)" "dom (client_store t) = dom (client_store s)"
  by (auto elim: buffers_only_user [OF assms] buffers_only_user_back [OF assms]
      buffers_only_client [OF assms] buffers_only_client_back [OF assms])

lemma buffers_only_live:
  "buffers_only s t \<Longrightarrow> session_live t x = session_live s x"
  "buffers_only s t \<Longrightarrow> session_live s (x\<lparr>u_buffer := b\<rparr>) = session_live s x"
  by (auto simp: session_live_def buffers_only_fields)

lemma buffers_only_db_ok:
  assumes b: "buffers_only s t" and "db_ok s"
  shows "db_ok t"
proof -
  have "named t n u = named s n u" for n u
  proof (cases "users s u")
    case None
    with buffers_only_dom(1) [OF b] have "users t u = None" by auto
    with None show ?thesis by (simp add: named_def)
  next
    case (Some x)
    with b obtain c where "users t u = Some (x\<lparr>u_buffer := c\<rparr>)" by (rule buffers_only_user)
    with Some show ?thesis by (simp add: named_def)
  qed
  then have "named t = named s" by (intro ext)
  with assms show ?thesis by (simp add: db_ok_def buffers_only_fields buffers_only_dom)
qed

lemma heap_inv_buffers:
  assumes b: "buffers_only s t" and inv: "heap_inv L s"
    and ub: "\<And>u x. users t u = Some x \<Longrightarrow> buf_ok (u_buffer x)"
    and cb: "\<And>c cl. client_store t c = Some cl \<Longrightarrow> buf_ok (c_outbuffer cl)"
  shows "heap_inv L t"
  unfolding heap_inv_def
proof (intro conjI allI impI)
  show "db_ok t" using buffers_only_db_ok [OF b] inv by (simp add: heap_inv_def)
next
  fix u y assume y: "users t u = Some y"
  from b y obtain x ub' where x: "users s u = Some x" "y = x\<lparr>u_buffer := ub'\<rparr>"
    by (rule buffers_only_user_back)
  have "\<exists>cl. client_store t c = Some cl \<and> c_user cl = Some u" if "u_client x = Some c" for c
    using heap_inv_user(5) [OF inv x(1) that] by (auto elim: buffers_only_client [OF b])
  then show "user_ok t u y"
    using heap_inv_user [OF inv x(1)] ub [OF y] x(2) buffers_only_dom [OF b]
    by (simp add: user_ok_def)
next
  fix c cl' assume c: "client_store t c = Some cl'"
  from b c obtain cl ob where cl: "client_store s c = Some cl" "cl' = cl\<lparr>c_outbuffer := ob\<rparr>"
    by (rule buffers_only_client_back)
  have "c \<notin> L \<and> (\<exists>x. users t u = Some x \<and> u_client x = Some c)" if "c_user cl = Some u" for u
    using heap_inv_client(5) [OF inv cl(1) that] by (auto elim: buffers_only_user [OF b])
  then show "client_ok L t c cl'"
    using heap_inv_client(1-4) [OF inv cl(1)] cb [OF c] cl(2)
    by (simp add: client_ok_def)
qed

section \<open>What sending does\<close>

text \<open>The bytes waiting for a connection, and for a user: those of the live session, or those kept
  for the next one.\<close>

definition cout :: "'a proc_scheme \<Rightarrow> cref \<Rightarrow> bytes" where
  "cout s c = (case client_store s c of None \<Rightarrow> [] | Some cl \<Rightarrow> pending (c_outbuffer cl))"

definition outbox :: "'a proc_scheme \<Rightarrow> uref \<Rightarrow> bytes" where
  "outbox s u = (case users s u of None \<Rightarrow> []
     | Some x \<Rightarrow> (case u_client x of None \<Rightarrow> pending (u_buffer x)
         | Some c \<Rightarrow> (if session_live s x then cout s c else pending (u_buffer x))))"

lemma outbox_cong:
  assumes "users t v = users s v" and "now t = now s" and "udb t = udb s" and "\<And>d. cout t d = cout s d"
  shows "outbox t v = outbox s v"
  using assms by (simp add: outbox_def session_live_def cong: option.case_cong if_cong)

definition sent_client :: "cref \<Rightarrow> bytes \<Rightarrow> 'a proc_scheme \<Rightarrow> 'a proc_scheme \<Rightarrow> bool" where
  "sent_client c bs s t \<longleftrightarrow> buffers_only s t \<and> users t = users s
     \<and> cout t c = cout s c @ bs \<and> (\<forall>d. d \<noteq> c \<longrightarrow> client_store t d = client_store s d)"

lemma send_response_to_client_spec:
  assumes inv: "heap_inv L s" and c: "client_store s c = Some cl" "c \<notin> L"
  shows "returns (send_response_to_client pb s c msg)
    (\<lambda>t. heap_inv L t \<and> sent_client c (encodeIMResponseToBytes pb msg) s t)"
proof -
  note cl = heap_inv_client [OF inv c(1)]
  from append_ok [OF cl(1), of "encodeIMResponseToBytes pb msg"] obtain ob where
    ob: "send_response pb (c_outbuffer cl) msg = Some ob" "buf_ok ob"
      "pending ob = pending (c_outbuffer cl) @ encodeIMResponseToBytes pb msg"
    by (auto simp: send_response_def elim!: returnsE)
  let ?t = "(put_client c (cl\<lparr>c_outbuffer := ob\<rparr>) s)\<lparr>epoll := epoll_mod (c_fd cl) (True, True) (epoll s)\<rparr>"
  have b: "buffers_only s ?t"
    using c(1) by (auto simp: buffers_only_def heap_simps strip_client_def epoll_mod_def)
  have "heap_inv L ?t"
    using b inv by (rule heap_inv_buffers)
      (use heap_inv_user(1) [OF inv] heap_inv_client(1) [OF inv] ob(2)
        in \<open>auto simp: heap_simps split: if_splits\<close>)
  with b show ?thesis using c ob cl(3)
    by (auto simp: send_response_to_client_def sent_client_def heap_simps cout_def)
qed

lemma outbox_sent_client:
  assumes inv: "heap_inv L s" and s: "sent_client c bs s t"
    and x: "users s u = Some x" "u_client x = Some c" "session_live s x"
  shows "outbox t v = (if v = u then outbox s v @ bs else outbox s v)"
proof -
  have live: "session_live t y = session_live s y" for y
    using s by (simp add: sent_client_def buffers_only_live)
  have "cout t d = cout s d" if "users s v = Some y" "u_client y = Some d" "v \<noteq> u" for y d
  proof -
    have "d \<noteq> c" using heap_inv_inj [OF inv that(1) x(1) that(2)] x(2) that(3) by auto
    with s show ?thesis by (simp add: sent_client_def cout_def)
  qed
  with s x show ?thesis
    by (auto simp: outbox_def sent_client_def live split: option.splits)
qed

text \<open>Sending to a user appends to that user's outbox and to nothing else.\<close>

definition sent_user :: "uref \<Rightarrow> bytes \<Rightarrow> 'a proc_scheme \<Rightarrow> 'a proc_scheme \<Rightarrow> bool" where
  "sent_user u bs s t \<longleftrightarrow> buffers_only s t
     \<and> (\<forall>v. outbox t v = (if v = u then outbox s v @ bs else outbox s v))
     \<and> (\<forall>v. users t v = users s v \<or> v = u \<and> (\<forall>x. users s u = Some x \<longrightarrow> \<not> session_live s x))
     \<and> (\<forall>d. (\<forall>x. users s u = Some x \<longrightarrow> session_live s x \<longrightarrow> u_client x \<noteq> Some d)
          \<longrightarrow> client_store t d = client_store s d)"

lemma send_response_to_user_spec:
  assumes inv: "heap_inv L s" and x: "users s u = Some x"
  shows "returns (send_response_to_user pb s u msg)
    (\<lambda>t. heap_inv L t \<and> sent_user u (encodeIMResponseToBytes pb msg) s t)"
proof (cases "u_client x \<noteq> None \<and> session_live s x")
  case True
  then obtain c where c: "u_client x = Some c" "session_live s x" by auto
  from heap_inv_user(5) [OF inv x c(1)] obtain cl where
    cl: "client_store s c = Some cl" "c_user cl = Some u" by blast
  have "c \<notin> L" using heap_inv_client(5) [OF inv cl] by blast
  from send_response_to_client_spec [OF inv cl(1) this, of pb msg] show ?thesis
  proof (rule returnsE)
    fix t assume t: "send_response_to_client pb s c msg = Some t"
      "heap_inv L t \<and> sent_client c (encodeIMResponseToBytes pb msg) s t"
    then have "sent_user u (encodeIMResponseToBytes pb msg) s t"
      using outbox_sent_client [OF inv _ x c] x c
      by (auto simp: sent_user_def sent_client_def)
    with t c x show ?thesis by (simp add: send_response_to_user_def heap_simps)
  qed
next
  case False
  then have off: "\<not> session_live s x" by (auto simp: session_live_def)
  from append_ok [OF heap_inv_user(1) [OF inv x], of "encodeIMResponseToBytes pb msg"] obtain b where
    b: "send_response pb (u_buffer x) msg = Some b" "buf_ok b"
      "pending b = pending (u_buffer x) @ encodeIMResponseToBytes pb msg"
    by (auto simp: send_response_def elim!: returnsE)
  let ?t = "put_user u (x\<lparr>u_buffer := b\<rparr>) s"
  have f: "buffers_only s ?t"
    using x by (auto simp: buffers_only_def heap_simps strip_user_def)
  have "heap_inv L ?t"
    using f inv by (rule heap_inv_buffers)
      (use heap_inv_user(1) [OF inv] heap_inv_client(1) [OF inv] b(2)
        in \<open>auto simp: heap_simps split: if_splits\<close>)
  moreover have "sent_user u (encodeIMResponseToBytes pb msg) s ?t"
    using f x b(3) False off buffers_only_live [OF f]
    by (auto simp: sent_user_def outbox_def cout_def heap_simps session_live_def split: option.splits)
  ultimately show ?thesis using x b(1) False
    by (auto simp: send_response_to_user_def heap_simps split: option.splits)
qed

text \<open>The same bytes for everybody in \<open>G\<close>, who all have live sessions.\<close>

definition told :: "(uref \<Rightarrow> bool) \<Rightarrow> bytes \<Rightarrow> 'a proc_scheme \<Rightarrow> 'a proc_scheme \<Rightarrow> bool" where
  "told G bs s t \<longleftrightarrow> buffers_only s t \<and> users t = users s
     \<and> (\<forall>v. outbox t v = (if G v then outbox s v @ bs else outbox s v))
     \<and> (\<forall>d. (\<forall>v x. G v \<longrightarrow> users s v = Some x \<longrightarrow> u_client x \<noteq> Some d) \<longrightarrow> client_store t d = client_store s d)"

lemma told_none: "told (\<lambda>v. False) bs s s"
  by (simp add: told_def)

lemma told_step:
  assumes t: "told G bs s t" and v: "sent_user v bs t t'" "\<not> G v" "users s v = Some x" "session_live s x"
  shows "told (\<lambda>w. G w \<or> w = v) bs s t'"
proof -
  have b: "buffers_only s t" "users t = users s" using t by (simp_all add: told_def)
  have live: "session_live t x" using v(4) buffers_only_live [OF b(1)] by simp
  have x: "users t v = Some x" using b(2) v(3) by simp
  have "buffers_only s t'" using b(1) v(1) by (auto simp: sent_user_def intro: buffers_only_trans)
  moreover have "users t' = users s"
  proof
    fix w
    have "users t' w = users t w" using v(1) x live by (auto simp: sent_user_def)
    then show "users t' w = users s w" by (simp add: b(2))
  qed
  moreover have "outbox t' w = (if G w \<or> w = v then outbox s w @ bs else outbox s w)" for w
    using t v(1,2) by (auto simp: told_def sent_user_def)
  moreover have "client_store t' d = client_store s d"
    if "\<forall>w y. (G w \<or> w = v) \<longrightarrow> users s w = Some y \<longrightarrow> u_client y \<noteq> Some d" for d
  proof -
    have "client_store t' d = client_store t d" using that v(1,3) x by (auto simp: sent_user_def)
    also have "\<dots> = client_store s d" using that t by (auto simp: told_def)
    finally show ?thesis .
  qed
  ultimately show ?thesis by (simp add: told_def)
qed

text \<open>What that puts on a connection.\<close>

definition cout_told :: "(uref \<Rightarrow> bool) \<Rightarrow> bytes \<Rightarrow> 'a proc_scheme \<Rightarrow> cref \<Rightarrow> bytes" where
  "cout_told G bs s d =
     (if \<exists>v x. G v \<and> users s v = Some x \<and> u_client x = Some d then cout s d @ bs else cout s d)"

lemma told_cout:
  assumes t: "told G bs s t" and live: "\<And>v. G v \<Longrightarrow> \<exists>x. users s v = Some x \<and> session_live s x"
  shows "cout t d = cout_told G bs s d"
proof (cases "\<exists>v x. G v \<and> users s v = Some x \<and> u_client x = Some d")
  case True
  then obtain v x where v: "G v" "users s v = Some x" "u_client x = Some d" by blast
  with live [of v] have l: "session_live s x" by auto
  moreover have "session_live t x" using l t buffers_only_live by (auto simp: told_def)
  moreover have "users t v = Some x" "outbox t v = outbox s v @ bs" using t v(1,2) by (simp_all add: told_def)
  ultimately have "cout t d = cout s d @ bs" using v(2,3) by (simp add: outbox_def)
  with True show ?thesis unfolding cout_told_def by (simp only: if_True)
next
  case False
  with t have "client_store t d = client_store s d" by (auto simp: told_def)
  then have "cout t d = cout s d" by (simp add: cout_def)
  with False show ?thesis unfolding cout_told_def by (simp only: if_False)
qed

end
