(* ===== verification/Session.thy ===== *)
theory Session
  imports Socket
begin

text \<open>
  Sessions: \<open>login\<close> and \<open>logoutUser\<close> of \<open>lib/auth.c\<close>, \<open>close_socket\<close> of \<open>lib/socket.c\<close> and the two
  hooks of \<open>client.c\<close> it may call.  The facts say that each keeps the heap invariant, returns, and
  notifies exactly the users it should.
\<close>

section \<open>The operations\<close>

text \<open>The loop both \<open>login\<close> and \<open>logoutUser\<close> run over \<open>db->first\<close>.\<close>

definition notify_one :: "pb_lib \<Rightarrow> uref \<Rightarrow> IMResponse \<Rightarrow> uref \<Rightarrow> 'a proc_scheme \<Rightarrow> 'a proc_scheme option" where
  "notify_one pb u rsp v t =
     (if v = u then Some t
      else do {
        live \<leftarrow> isUserLoggedIn t (Some v);
        if \<not> live then Some t
        else do {
          h \<leftarrow> hasBlockedUser t u v;
          if h then Some t else send_response_to_user pb t v rsp } })"

definition notify_others :: "pb_lib \<Rightarrow> uref \<Rightarrow> IMResponse \<Rightarrow> 'a proc_scheme \<Rightarrow> 'a proc_scheme option" where
  "notify_others pb u rsp s = foldM (notify_one pb u rsp) (db_first (udb s)) s"

text \<open>\<open>login\<close> returns its status code, \<open>*user\<close>, and the new state.\<close>

definition login :: "pb_lib \<Rightarrow> 'a proc_scheme \<Rightarrow> bytes \<Rightarrow> bytes
    \<Rightarrow> (nat \<times> uref option \<times> 'a proc_scheme) option" where
  "login pb s username password =
     (let ct = now s in
      case findUser s username of
        None \<Rightarrow> Some (1, None, s)
      | Some u \<Rightarrow> do {
          us \<leftarrow> users s u;
          if ct < u_last_blocked us then Some (2, Some u, s)
          else if u_password us \<noteq> cstr password then
            (let a = int32 (u_attempts us + 1) in
             if a = 3
             then Some (2, Some u, put_user u (us\<lparr>u_last_blocked := int32 (ct + block_duration (udb s)),
                                                u_attempts := 0\<rparr>) s)
             else Some (3, Some u, put_user u (us\<lparr>u_attempts := a\<rparr>) s))
          else do {
            live \<leftarrow> isUserLoggedIn s (Some u);
            if live then Some (4, Some u, s)
            else (let s1 = put_user u (us\<lparr>u_attempts := 0, u_last_logged_in := now s,
                                         u_last_active := now s\<rparr>) s;
                      rsp = encodeTextResponseToIMResponseAndFree pb
                              \<lparr>txt_msg = cstr username @ '' has logged in''\<rparr> True
                  in do { s2 \<leftarrow> notify_others pb u rsp s1; Some (0, Some u, s2) }) } })"

definition logoutUser :: "pb_lib \<Rightarrow> 'a proc_scheme \<Rightarrow> uref option \<Rightarrow> 'a proc_scheme option" where
  "logoutUser pb s user = (case user of None \<Rightarrow> Some s
     | Some u \<Rightarrow> do {
         us \<leftarrow> users s u;
         (case u_client us of None \<Rightarrow> Some s
          | Some c \<Rightarrow> do {
              cl \<leftarrow> client_store s c;
              let s1 = put_user u (us\<lparr>u_client := None\<rparr>) (put_client c (cl\<lparr>c_user := None\<rparr>) s);
              if \<not> is_server s1 then Some s1
              else notify_others pb u (encodeTextResponseToIMResponseAndFree pb
                     \<lparr>txt_msg = u_username us @ '' has logged out''\<rparr> True) s1 }) })"

fun run_close_hook :: "close_hook \<Rightarrow> cref \<Rightarrow> 'a proc_scheme \<Rightarrow> 'a proc_scheme option" where
  "run_close_hook Server_Close_Connection c s = Some (s\<lparr>fatal := True\<rparr>)"
| "run_close_hook Pm_Close_Connection c s = do {
     cl \<leftarrow> client_store s c;
     (case c_user cl of None \<Rightarrow> Some s
      | Some u \<Rightarrow> do {
          us \<leftarrow> users s u;
          Some (print_line (u_username us @ '' has ended private messaging session with you.'') s) }) }"

definition close_socket :: "pb_lib \<Rightarrow> 'a proc_scheme \<Rightarrow> cref option \<Rightarrow> 'a proc_scheme option" where
  "close_socket pb s client = (case client of None \<Rightarrow> Some s
     | Some c \<Rightarrow> do {
         cl0 \<leftarrow> client_store s c;
         if c_locked cl0 then None else do {
           let s1 = put_client c (cl0\<lparr>c_locked := True\<rparr>) s;
           s2 \<leftarrow> (case c_close_prehook cl0 of None \<Rightarrow> Some s1 | Some h \<Rightarrow> run_close_hook h c s1);
           cl2 \<leftarrow> client_store s2 c;
           s3 \<leftarrow> logoutUser pb s2 (c_user cl2);
           cl3 \<leftarrow> client_store s3 c;
           let s4 = (put_client c (cl3\<lparr>c_locked := False\<rparr>) s3)
                      \<lparr>epoll := (epoll s3)(c_fd cl3 := None), open_fds := open_fds s3 - {c_fd cl3}\<rparr>;
           (case c_close_callback cl3 of None \<Rightarrow> Some s4 | Some h \<Rightarrow> run_close_hook h c s4) } })"

section \<open>Notifying\<close>

text \<open>Who hears that \<open>u\<close> came or went: everybody else with a live session whom \<open>u\<close> has not blocked.\<close>

definition hears :: "'a proc_scheme \<Rightarrow> uref \<Rightarrow> uref \<Rightarrow> bool" where
  "hears s u v \<longleftrightarrow> v \<noteq> u \<and> (\<exists>x y. users s u = Some x \<and> users s v = Some y
     \<and> session_live s y \<and> v \<notin> set (u_blocked x))"

definition notified :: "uref \<Rightarrow> bytes \<Rightarrow> 'a proc_scheme \<Rightarrow> 'a proc_scheme \<Rightarrow> bool" where
  "notified u bs s t \<longleftrightarrow> told (hears s u) bs s t"

lemmas notified_simps = notified_def told_def

lemma hears_live: "hears s u v \<Longrightarrow> \<exists>y. users s v = Some y \<and> session_live s y"
  by (auto simp: hears_def)

lemma hears_buffers_only:
  assumes b: "buffers_only s t"
  shows "hears t u v = hears s u v"
proof -
  have n: "users t w = None \<longleftrightarrow> users s w = None" for w
    using buffers_only_dom(1) [OF b] by (metis domIff)
  show ?thesis
  proof (cases "users s u = None \<or> users s v = None")
    case False
    then obtain x y where xy: "users s u = Some x" "users s v = Some y" by auto
    obtain bx where "users t u = Some (x\<lparr>u_buffer := bx\<rparr>)" using b xy(1) by (rule buffers_only_user)
    moreover obtain b' where "users t v = Some (y\<lparr>u_buffer := b'\<rparr>)"
      using b xy(2) by (rule buffers_only_user)
    ultimately show ?thesis using xy by (simp add: hears_def buffers_only_live [OF b])
  next
    case True
    then have "users t u = None \<or> users t v = None" by (simp add: n)
    with True show ?thesis by (auto simp: hears_def)
  qed
qed

text \<open>One round of the loop, from a state that only differs in buffers from the one it began in.\<close>

lemma notify_one_spec:
  assumes inv: "heap_inv L t" and b: "buffers_only s t"
    and u: "u \<in> dom (users s)" and v: "v \<in> dom (users s)"
  shows "returns (notify_one pb u rsp v t) (\<lambda>t'. heap_inv L t' \<and>
    (if hears s u v then sent_user v (encodeIMResponseToBytes pb rsp) t t' else t' = t))"
proof -
  from u v b have "u \<in> dom (users t)" "v \<in> dom (users t)" by (simp_all add: buffers_only_dom)
  then obtain x y where xy: "users t u = Some x" "users t v = Some y" by blast
  have h: "hears s u v \<longleftrightarrow> v \<noteq> u \<and> session_live t y \<and> v \<notin> set (u_blocked x)"
    using xy hears_buffers_only [OF b, of u v] by (simp add: hears_def)
  from send_response_to_user_spec [OF inv xy(2), of pb rsp] inv show ?thesis
    by (auto simp: notify_one_def h xy heap_simps elim!: returns_mono)
qed

lemma notify_others_spec:
  assumes inv: "heap_inv L s" and u: "users s u = Some x"
  shows "returns (notify_others pb u rsp s)
    (\<lambda>t. heap_inv L t \<and> notified u (encodeIMResponseToBytes pb rsp) s t)"
proof -
  let ?bs = "encodeIMResponseToBytes pb rsp"
  let ?P = "\<lambda>ys t. heap_inv L t \<and> told (\<lambda>v. v \<in> set ys \<and> hears s u v) ?bs s t"
  note db = db_okD [OF heap_invD(1) [OF inv]]
  have "returns (foldM (notify_one pb u rsp) (db_first (udb s)) s) (?P (db_first (udb s)))"
  proof (rule foldM_prefix)
    show "?P [] s" using inv by (simp add: told_none)
  next
    fix ys v t
    assume ys: "\<exists>zs. db_first (udb s) = ys @ v # zs" and P: "?P ys t"
    then have v: "v \<notin> set ys" "v \<in> dom (users s)" using db(1,2) by auto
    have b: "buffers_only s t" using P by (simp add: told_def)
    have "heap_inv L t" "u \<in> dom (users s)" using P u by auto
    then have "returns (notify_one pb u rsp v t) (\<lambda>t'. heap_inv L t' \<and>
        (if hears s u v then sent_user v ?bs t t' else t' = t))" using b v(2) by (intro notify_one_spec)
    then show "returns (notify_one pb u rsp v t) (?P (ys @ [v]))"
    proof (rule returns_mono)
      fix t' assume t': "heap_inv L t' \<and> (if hears s u v then sent_user v ?bs t t' else t' = t)"
      show "?P (ys @ [v]) t'"
      proof (cases "hears s u v")
        case False
        then have "(\<lambda>w. w \<in> set (ys @ [v]) \<and> hears s u w) = (\<lambda>w. w \<in> set ys \<and> hears s u w)" by auto
        with False t' P show ?thesis by simp
      next
        case True
        then obtain y where "users s v = Some y" "session_live s y" by (auto simp: hears_def)
        with told_step [of "\<lambda>v. v \<in> set ys \<and> hears s u v" ?bs s t v t' y] t' P v(1) True
        have "told (\<lambda>w. w \<in> set ys \<and> hears s u w \<or> w = v) ?bs s t'" by simp
        moreover have "(\<lambda>w. w \<in> set ys \<and> hears s u w \<or> w = v) = (\<lambda>w. w \<in> set (ys @ [v]) \<and> hears s u w)"
          using True by auto
        ultimately show ?thesis using t' by simp
      qed
    qed
  qed
  moreover have "(\<lambda>v. v \<in> set (db_first (udb s)) \<and> hears s u v) = hears s u"
    using db(1) by (auto simp: hears_def fun_eq_iff)
  ultimately show ?thesis by (simp add: notify_others_def notified_def)
qed

section \<open>Changing one user or one connection\<close>

lemma heap_inv_cong:
  assumes "users t = users s" and "client_store t = client_store s" and "udb t = udb s"
    and "next_user t = next_user s"
  shows "heap_inv L t \<longleftrightarrow> heap_inv L s"
  using assms db_ok_cong [OF assms(1,3,4)]
  by (simp add: heap_inv_def user_ok_def client_ok_def)

lemma put_user_inv:
  assumes inv: "heap_inv L s" and x: "users s u = Some x" and y: "user_ok s u y"
    and name: "u_username y = u_username x" and cl: "u_client y = u_client x"
  shows "heap_inv L (put_user u y s)"
proof -
  have "db_ok (put_user u y s)"
    using heap_invD(1) [OF inv] x name by (rule db_ok_users_upd) (simp_all add: heap_simps)
  moreover have dom: "dom (users (put_user u y s)) = dom (users s)"
    using x by (auto simp: heap_simps)
  moreover have "user_ok (put_user u y s) v z" if "users (put_user u y s) v = Some z" for v z
    using that y heap_invD(2) [OF inv, of v z] dom
    by (auto simp: user_ok_def heap_simps split: if_splits)
  moreover have "client_ok L (put_user u y s) c k" if "client_store (put_user u y s) c = Some k" for c k
    using heap_invD(3) [OF inv, of c k] that x cl by (auto simp: client_ok_def heap_simps)
  ultimately show ?thesis by (simp add: heap_inv_def)
qed

lemma put_client_inv:
  assumes inv: "heap_inv L s" and c: "client_store s c = Some cl" and k: "client_ok L s c k"
    and u: "c_user k = c_user cl"
  shows "heap_inv L (put_client c k s)"
proof -
  have "db_ok (put_client c k s)"
    using heap_invD(1) [OF inv] by (subst db_ok_cong [of _ s]) (simp_all add: heap_simps)
  moreover have "user_ok (put_client c k s) v z" if "users (put_client c k s) v = Some z" for v z
    using heap_invD(2) [OF inv, of v z] that c u by (auto simp: user_ok_def heap_simps)
  moreover have "client_ok L (put_client c k s) d j" if "client_store (put_client c k s) d = Some j" for d j
    using heap_invD(3) [OF inv, of d j] that k by (auto simp: client_ok_def heap_simps split: if_splits)
  ultimately show ?thesis by (simp add: heap_inv_def)
qed

text \<open>The cut \<open>logoutUser\<close> makes between user and connection, and the link \<open>cmd_login_impl\<close> makes.\<close>

definition unlink :: "uref \<Rightarrow> cref \<Rightarrow> bool \<Rightarrow> 'a proc_scheme \<Rightarrow> 'a proc_scheme" where
  "unlink u c k s = (case (users s u, client_store s c) of
     (Some x, Some cl) \<Rightarrow> put_user u (x\<lparr>u_client := None\<rparr>)
        (put_client c (cl\<lparr>c_locked := k, c_user := None\<rparr>) s)
   | _ \<Rightarrow> s)"

lemma unlink_inv:
  assumes inv: "heap_inv L s" and x: "users s u = Some x" and xc: "u_client x = Some c"
  shows "heap_inv (if k then insert c L else L) (unlink u c k s)"
proof -
  from heap_inv_user(5) [OF inv x xc] obtain cl where
    cl: "client_store s c = Some cl" "c_user cl = Some u" by blast
  let ?t = "unlink u c k s"
  have t: "?t = put_user u (x\<lparr>u_client := None\<rparr>)
      (put_client c (cl\<lparr>c_locked := k, c_user := None\<rparr>) s)"
    by (simp add: unlink_def x cl)
  have cL: "c \<notin> L" using heap_inv_client(5) [OF inv cl] by blast
  have "db_ok ?t"
    using heap_invD(1) [OF inv] x _ by (rule db_ok_users_upd [of _ _ _ "x\<lparr>u_client := None\<rparr>"])
      (simp_all add: t heap_simps)
  moreover have dom: "dom (users ?t) = dom (users s)" using x by (auto simp: t heap_simps)
  moreover have "user_ok ?t v z" if "users ?t v = Some z" for v z
    using that heap_invD(2) [OF inv] dom x cl heap_inv_inj [OF inv x _ xc]
    by (auto simp: user_ok_def t heap_simps split: if_splits) (use cl in force)+
  moreover have "client_ok (if k then insert c L else L) ?t d j" if "client_store ?t d = Some j" for d j
  proof (cases "d = c")
    case True
    with that heap_invD(3) [OF inv cl(1)] cL show ?thesis
      by (auto simp: client_ok_def t heap_simps)
  next
    case False
    with that have j: "client_store s d = Some j" by (simp add: t heap_simps)
    have "c_user j \<noteq> Some u" using heap_inv_client(5) [OF inv j, of u] x xc False by auto
    with heap_invD(3) [OF inv j] False show ?thesis
      by (auto simp: client_ok_def t heap_simps)
  qed
  ultimately show ?thesis by (simp add: heap_inv_def)
qed

lemma unlink_simps:
  assumes "users s u = Some x" and "client_store s c = Some cl"
  shows "users (unlink u c k s) = (users s)(u \<mapsto> x\<lparr>u_client := None\<rparr>)"
    "client_store (unlink u c k s) = (client_store s)(c \<mapsto> cl\<lparr>c_locked := k, c_user := None\<rparr>)"
    "epoll (unlink u c k s) = epoll s" "same_globals s (unlink u c k s)"
  using assms by (auto simp: unlink_def heap_simps same_globals_def put_user_def put_client_def)

lemma unlink_outbox:
  assumes "users s u = Some x" and "client_store s c = Some cl"
  shows "outbox (unlink u c k s) v = (if v = u then pending (u_buffer x) else outbox s v)"
proof -
  have "now (unlink u c k s) = now s" "udb (unlink u c k s) = udb s"
    using unlink_simps(4) [OF assms] by (simp_all add: same_globalsD)
  then have live: "session_live (unlink u c k s) y = session_live s y" for y
    by (simp add: session_live_def)
  have "cout (unlink u c k s) d = cout s d" for d
    using assms by (simp add: cout_def unlink_simps)
  then show ?thesis
    using assms by (auto simp: outbox_def live unlink_simps split: option.splits)
qed

lemma unlink_hears:
  assumes "users s u = Some x" and "client_store s c = Some cl"
  shows "hears (unlink u c k s) u v = hears s u v"
proof -
  have "now (unlink u c k s) = now s" "udb (unlink u c k s) = udb s"
    using unlink_simps(4) [OF assms] by (simp_all add: same_globalsD)
  then have "session_live (unlink u c k s) y = session_live s y" for y
    by (simp add: session_live_def)
  then show ?thesis using assms by (auto simp: hears_def unlink_simps)
qed

text \<open>What the others are told after the cut is what they would have been told before.\<close>

lemma notified_unlinked:
  assumes x: "users s u = Some x" and cl: "client_store s c = Some cl" and t: "notified u bs (unlink u c k s) t"
  shows "cout t d = cout_told (hears s u) bs s d"
proof -
  let ?r = "unlink u c k s"
  have "cout t d = cout_told (hears ?r u) bs ?r d"
    using t hears_live unfolding notified_def by (rule told_cout)
  moreover have "(\<exists>v y. hears ?r u v \<and> users ?r v = Some y \<and> u_client y = Some d)
      \<longleftrightarrow> (\<exists>v y. hears s u v \<and> users s v = Some y \<and> u_client y = Some d)"
    unfolding unlink_hears [OF x cl] unlink_simps(1) [OF x cl] by (auto simp: hears_def)
  moreover have "cout ?r d = cout s d" using cl by (simp add: cout_def unlink_simps [OF x cl])
  ultimately show ?thesis by (simp only: cout_told_def)
qed

section \<open>Logging out\<close>

definition logout_notice :: "pb_lib \<Rightarrow> user_t \<Rightarrow> bytes" where
  "logout_notice pb x = encodeIMResponseToBytes pb (encodeTextResponseToIMResponseAndFree pb
     \<lparr>txt_msg = u_username x @ '' has logged out''\<rparr> True)"

text \<open>\<open>logoutUser\<close> of a linked pair, with the connection's mutex held (\<open>k\<close>) or not.\<close>

lemma logoutUser_spec:
  assumes inv: "heap_inv L s" and x: "users s u = Some x" "u_client x = Some c"
    and cl: "client_store s c = Some cl" and srv: "is_server s"
  shows "returns (logoutUser pb (put_client c (cl\<lparr>c_locked := k\<rparr>) s) (Some u))
    (\<lambda>t. heap_inv (if k then insert c L else L) t \<and> notified u (logout_notice pb x) (unlink u c k s) t)"
proof -
  let ?t = "unlink u c k s"
  have t: "put_user u (x\<lparr>u_client := None\<rparr>) (put_client c (cl\<lparr>c_locked := k, c_user := None\<rparr>)
      (put_client c (cl\<lparr>c_locked := k\<rparr>) s)) = ?t"
    using x(1) cl by (simp add: unlink_def put_client_def put_user_def)
  have xt: "users ?t u = Some (x\<lparr>u_client := None\<rparr>)" using x cl by (simp add: unlink_simps)
  have srv': "is_server ?t" using same_globalsD(3) [OF unlink_simps(4) [OF x(1) cl, of k]] srv by simp
  have "logoutUser pb (put_client c (cl\<lparr>c_locked := k\<rparr>) s) (Some u) =
      notify_others pb u (encodeTextResponseToIMResponseAndFree pb
        \<lparr>txt_msg = u_username x @ '' has logged out''\<rparr> True) ?t"
    using x cl srv srv' by (simp add: logoutUser_def heap_simps Let_def t)
  with notify_others_spec [OF unlink_inv [OF inv x] xt] show ?thesis
    by (simp add: logout_notice_def)
qed

section \<open>Closing a connection of the server\<close>

text \<open>Server connections have neither hook (\<open>im_connection_accept\<close> sets both to NULL and only the
  client program stores any).\<close>

definition no_hooks :: "'a proc_scheme \<Rightarrow> bool" where
  "no_hooks s \<longleftrightarrow> is_server s \<and> (\<forall>c cl. client_store s c = Some cl \<longrightarrow>
     c_close_prehook cl = None \<and> c_close_callback cl = None)"

lemma no_hooks_buffers_only:
  assumes b: "buffers_only s t" and n: "no_hooks s"
  shows "no_hooks t"
proof -
  have "c_close_prehook cl = None \<and> c_close_callback cl = None"
    if "client_store t c = Some cl" for c cl
  proof -
    from b that obtain k ob where "client_store s c = Some k" "cl = k\<lparr>c_outbuffer := ob\<rparr>"
      by (rule buffers_only_client_back)
    with n show ?thesis by (auto simp: no_hooks_def)
  qed
  moreover have "is_server t" using n buffers_only_fields(3) [OF b] by (simp add: no_hooks_def)
  ultimately show ?thesis by (simp add: no_hooks_def)
qed

text \<open>What a send, a log-out or a close leave alone: the process globals but the interest set and the
  open descriptors, and everything of a user or a connection but the buffers and the links, of which
  none is made.\<close>

definition frame_user :: "user_t \<Rightarrow> user_t \<Rightarrow> bool" where
  "frame_user x y \<longleftrightarrow> (u_client y = None \<or> u_client y = u_client x)
     \<and> y\<lparr>u_buffer := u_buffer x, u_client := u_client x\<rparr> = x"

definition frame_client :: "im_client \<Rightarrow> im_client \<Rightarrow> bool" where
  "frame_client k l \<longleftrightarrow> (c_user l = None \<or> c_user l = c_user k)
     \<and> l\<lparr>c_outbuffer := c_outbuffer k, c_user := c_user k, c_locked := c_locked k\<rparr> = k"

definition net_frame :: "'a proc_scheme \<Rightarrow> 'a proc_scheme \<Rightarrow> bool" where
  "net_frame s t \<longleftrightarrow> rel_fun (=) (rel_option frame_user) (users s) (users t)
     \<and> rel_fun (=) (rel_option frame_client) (client_store s) (client_store t)
     \<and> udb t = udb s \<and> now t = now s \<and> is_server t = is_server s
     \<and> clients t = clients s \<and> next_user t = next_user s \<and> next_client t = next_client s
     \<and> stdout t = stdout s \<and> fatal t = fatal s \<and> proc.more t = proc.more s"

lemma frame_refl [simp]: "frame_user x x" "frame_client k k"
  by (simp_all add: frame_user_def frame_client_def)

lemma frame_trans:
  "frame_user x y \<Longrightarrow> frame_user y z \<Longrightarrow> frame_user x z"
  "frame_client k l \<Longrightarrow> frame_client l m \<Longrightarrow> frame_client k m"
  by (cases x; cases y; cases z; auto simp: frame_user_def)
     (cases k; cases l; cases m; auto simp: frame_client_def)

lemma frame_of_buffers:
  "frame_user x (x\<lparr>u_buffer := b\<rparr>)" "frame_user x (x\<lparr>u_client := None\<rparr>)"
  "frame_client k (k\<lparr>c_outbuffer := b\<rparr>)" "frame_client k (k\<lparr>c_locked := l, c_user := None\<rparr>)"
  "frame_client k (k\<lparr>c_locked := l\<rparr>)"
  by (simp_all add: frame_user_def frame_client_def)

lemma net_frame_refl [simp]: "net_frame s s"
  by (simp add: net_frame_def rel_fun_def option.rel_refl)

lemma rel_option_trans:
  assumes "\<And>x y z. P x y \<Longrightarrow> P y z \<Longrightarrow> P x z" and "rel_option P a b" and "rel_option P b c"
  shows "rel_option P a c"
  using assms(2,3) by (auto simp: option_rel_Some1 option_rel_Some2 elim!: option.rel_cases intro: assms(1))

lemma net_frame_trans: "net_frame r s \<Longrightarrow> net_frame s t \<Longrightarrow> net_frame r t"
  by (auto simp: net_frame_def rel_fun_def intro: rel_option_trans frame_trans)

lemma net_frame_user:
  assumes "net_frame s t" and "users s u = Some x"
  obtains y where "users t u = Some y" and "frame_user x y"
  using assms by (auto simp: net_frame_def rel_fun_def option_rel_Some1 dest!: spec [of _ u])

lemma net_frame_client:
  assumes "net_frame s t" and "client_store s c = Some k"
  obtains l where "client_store t c = Some l" and "frame_client k l"
  using assms by (auto simp: net_frame_def rel_fun_def option_rel_Some1 dest!: spec [of _ c])

lemma net_frame_client_back:
  assumes "net_frame s t" and "client_store t c = Some l"
  obtains k where "client_store s c = Some k" and "frame_client k l"
  using assms by (auto simp: net_frame_def rel_fun_def option_rel_Some2 dest!: spec [of _ c])

lemma net_frame_dom:
  assumes "net_frame s t"
  shows "dom (users t) = dom (users s)" "dom (client_store t) = dom (client_store s)"
proof -
  have "users t u = None \<longleftrightarrow> users s u = None" for u
    using assms by (auto simp: net_frame_def rel_fun_def dest!: spec [of _ u])
  moreover have "client_store t c = None \<longleftrightarrow> client_store s c = None" for c
    using assms by (auto simp: net_frame_def rel_fun_def dest!: spec [of _ c])
  ultimately show "dom (users t) = dom (users s)" "dom (client_store t) = dom (client_store s)"
    by (auto simp: dom_def)
qed

lemma net_frame_buffers:
  assumes "buffers_only s t"
  shows "net_frame s t"
proof -
  have "rel_option frame_user (users s u) (users t u)" for u
  proof (cases "users s u")
    case None
    with buffers_only_dom(1) [OF assms] have "users t u = None" by auto
    with None show ?thesis by simp
  next
    case (Some x)
    with assms obtain b where "users t u = Some (x\<lparr>u_buffer := b\<rparr>)" by (rule buffers_only_user)
    with Some show ?thesis by (simp add: frame_of_buffers)
  qed
  moreover have "rel_option frame_client (client_store s c) (client_store t c)" for c
  proof (cases "client_store s c")
    case None
    with buffers_only_dom(2) [OF assms] have "client_store t c = None" by auto
    with None show ?thesis by simp
  next
    case (Some k)
    with assms obtain b where "client_store t c = Some (k\<lparr>c_outbuffer := b\<rparr>)" by (rule buffers_only_client)
    with Some show ?thesis by (simp add: frame_of_buffers)
  qed
  ultimately show ?thesis by (simp add: net_frame_def rel_fun_def buffers_only_fields [OF assms])
qed

lemma net_frame_unlink:
  assumes "users s u = Some x" and "client_store s c = Some cl"
  shows "net_frame s (unlink u c k s)"
  using same_globalsD [OF unlink_simps(4) [OF assms, of k]]
  by (simp add: net_frame_def rel_fun_def unlink_simps [OF assms] assms frame_of_buffers option.rel_refl)

lemma net_frame_put_client:
  assumes "client_store s c = Some k" and "frame_client k l"
  shows "net_frame s ((put_client c l s)\<lparr>epoll := e, open_fds := f\<rparr>)"
  using assms by (auto simp: net_frame_def rel_fun_def heap_simps put_client_def option.rel_refl)

text \<open>What is left of the connection itself: unlinked, unlocked, its descriptor closed and out of the
  interest set, its buffers and chunks as they were.\<close>

definition closed_from :: "cref \<Rightarrow> 'a proc_scheme \<Rightarrow> 'a proc_scheme \<Rightarrow> bool" where
  "closed_from c s t \<longleftrightarrow> (\<forall>cl. client_store s c = Some cl \<longrightarrow>
     client_store t c = Some (cl\<lparr>c_user := None\<rparr>)
     \<and> epoll t (c_fd cl) = None \<and> c_fd cl \<notin> open_fds t
     \<and> dom (epoll t) = dom (epoll s) - {c_fd cl} \<and> open_fds t = open_fds s - {c_fd cl})"

lemma close_finish:
  assumes inv: "heap_inv (insert c {}) t" and b: "buffers_only r t"
    and r: "client_store r c = Some k" "client_store t c = Some k"
  shows "heap_inv {} ((put_client c (k\<lparr>c_locked := False\<rparr>) t)\<lparr>epoll := e, open_fds := f\<rparr>)"
proof -
  let ?t = "(put_client c (k\<lparr>c_locked := False\<rparr>) t)\<lparr>epoll := e, open_fds := f\<rparr>"
  have "c_user k = None" using heap_inv_client(5) [OF inv r(2)] by (cases "c_user k") auto
  have "db_ok ?t"
    using heap_invD(1) [OF inv] by (subst db_ok_cong [of _ t]) (simp_all add: heap_simps)
  moreover have "user_ok ?t v z" if "users ?t v = Some z" for v z
    using heap_invD(2) [OF inv, of v z] that r(2) by (auto simp: user_ok_def heap_simps)
  moreover have "client_ok {} ?t d j" if "client_store ?t d = Some j" for d j
    using heap_invD(3) [OF inv, of d] that r(2) \<open>c_user k = None\<close>
    by (auto simp: client_ok_def heap_simps split: if_splits)
  ultimately show ?thesis by (simp add: heap_inv_def)
qed

lemma close_socket_spec:
  assumes inv: "heap_inv {} s" and hooks: "no_hooks s" and cl: "client_store s c = Some cl"
  shows "returns (close_socket pb s (Some c)) (\<lambda>t. heap_inv {} t \<and> no_hooks t \<and> closed_from c s t \<and> net_frame s t
    \<and> (case c_user cl of None \<Rightarrow> users t = users s \<and> (\<forall>d. d \<noteq> c \<longrightarrow> client_store t d = client_store s d)
       | Some u \<Rightarrow> (\<exists>x. users s u = Some x \<and> users t = (users s)(u \<mapsto> x\<lparr>u_client := None\<rparr>)
           \<and> (\<forall>d. cout t d = cout_told (hears s u) (logout_notice pb x) s d)
           \<and> (\<forall>v. outbox t v = (if v = u then pending (u_buffer x)
                 else if hears s u v then outbox s v @ logout_notice pb x else outbox s v)))))"
proof -
  have nl: "\<not> c_locked cl" using heap_inv_client(3) [OF inv cl] by simp
  have nh: "c_close_prehook cl = None" "c_close_callback cl = None" "is_server s"
    using hooks cl by (auto simp: no_hooks_def)
  show ?thesis
  proof (cases "c_user cl")
    case None
    let ?t = "(put_client c (cl\<lparr>c_locked := False\<rparr>) s)
        \<lparr>epoll := (epoll s)(c_fd cl := None), open_fds := open_fds s - {c_fd cl}\<rparr>"
    have self: "cl\<lparr>c_locked := False\<rparr> = cl" using nl by (cases cl) simp
    have "close_socket pb s (Some c) = Some ?t"
      using cl nl nh None
      by (simp add: close_socket_def heap_simps Let_def logoutUser_def put_client_def)
    moreover have "heap_inv {} ?t"
      using inv by (rule heap_inv_cong [THEN iffD2, rotated -1]) (use cl in \<open>auto simp: heap_simps self\<close>)
    moreover have "no_hooks ?t" using hooks cl by (auto simp: no_hooks_def heap_simps)
    moreover have "closed_from c s ?t" using cl None
      by (auto simp: closed_from_def heap_simps self)
    moreover have "net_frame s ?t" using cl by (rule net_frame_put_client) (simp add: frame_of_buffers)
    ultimately show ?thesis using None by (simp add: heap_simps)
  next
    case (Some u)
    from heap_inv_client(5) [OF inv cl Some] obtain x where
      x: "users s u = Some x" "u_client x = Some c" by blast
    let ?r = "unlink u c True s"
    let ?k = "cl\<lparr>c_locked := True, c_user := None\<rparr>"
    have r: "client_store ?r c = Some ?k" using unlink_simps(2) [OF x(1) cl] by simp
    from logoutUser_spec [OF inv x cl nh(3), of pb True] obtain t where
      t: "logoutUser pb (put_client c (cl\<lparr>c_locked := True\<rparr>) s) (Some u) = Some t"
        "heap_inv (insert c {}) t" "notified u (logout_notice pb x) ?r t"
      by (auto elim!: returnsE)
    have b: "buffers_only ?r t" using t(3) by (simp add: notified_simps)
    have "u_client y \<noteq> Some c" if "hears ?r u v" "users ?r v = Some y" for v y
      using that heap_inv_inj [OF inv x(1) _ x(2)] unlink_simps(1) [OF x(1) cl]
      by (auto simp: hears_def)
    with t(3) r have tc: "client_store t c = Some ?k" by (auto simp: notified_simps)
    let ?t = "(put_client c (?k\<lparr>c_locked := False\<rparr>) t)
        \<lparr>epoll := (epoll t)(c_fd cl := None), open_fds := open_fds t - {c_fd cl}\<rparr>"
    have run: "close_socket pb s (Some c) = Some ?t"
      using cl nl nh Some t(1) tc by (simp add: close_socket_def heap_simps Let_def)
    have inv': "heap_inv {} ?t" using t(2) b r tc by (rule close_finish)
    have "no_hooks ?r"
      using hooks cl unlink_simps(2) [OF x(1) cl, of True] same_globalsD(3) [OF unlink_simps(4) [OF x(1) cl, of True]]
      by (auto simp: no_hooks_def split: if_splits)
    then have "no_hooks t" using b by (rule no_hooks_buffers_only [rotated])
    then have "no_hooks ?t" using tc nh by (auto simp: no_hooks_def heap_simps)
    moreover have "closed_from c s ?t"
    proof -
      have "open_fds t = open_fds s" "dom (epoll t) = dom (epoll s)"
        using buffers_only_fields(7) [OF b] same_globalsD(7) [OF unlink_simps(4) [OF x(1) cl, of True]]
          b unlink_simps(3) [OF x(1) cl, of True] by (simp_all add: buffers_only_def)
      moreover have "cl\<lparr>c_user := None, c_locked := False\<rparr> = cl\<lparr>c_user := None\<rparr>"
        using nl by (cases cl) simp
      ultimately show ?thesis using cl by (auto simp: closed_from_def heap_simps)
    qed
    moreover have "outbox ?t v = (if v = u then pending (u_buffer x)
        else if hears s u v then outbox s v @ logout_notice pb x else outbox s v)" for v
    proof -
      have "outbox ?t v = outbox t v"
        using tc by (auto simp: outbox_def cout_def session_live_def heap_simps split: option.splits)
      also have "\<dots> = (if hears ?r u v then outbox ?r v @ logout_notice pb x else outbox ?r v)"
        using t(3) by (simp add: notified_simps)
      finally show ?thesis
        using unlink_hears [OF x(1) cl] unlink_outbox [OF x(1) cl]
        by (auto simp: hears_def)
    qed
    moreover have "users ?t = (users s)(u \<mapsto> x\<lparr>u_client := None\<rparr>)"
      using t(3) unlink_simps(1) [OF x(1) cl] by (simp add: notified_simps heap_simps)
    moreover have "cout ?t d = cout_told (hears s u) (logout_notice pb x) s d" for d
    proof -
      have "cout ?t d = cout t d" using tc by (simp add: cout_def heap_simps)
      also have "\<dots> = cout_told (hears s u) (logout_notice pb x) s d"
        using t(3) by (rule notified_unlinked [OF x(1) cl])
      finally show ?thesis .
    qed
    moreover have "net_frame s ?t"
    proof -
      have "net_frame s ?r" using x(1) cl by (rule net_frame_unlink)
      moreover have "net_frame ?r t" using b by (rule net_frame_buffers)
      moreover have "net_frame t ?t" using tc by (rule net_frame_put_client) (simp add: frame_client_def)
      ultimately show ?thesis by (blast intro: net_frame_trans)
    qed
    ultimately show ?thesis using Some x run inv' by auto
  qed
qed

section \<open>Logging in\<close>

definition login_notice :: "pb_lib \<Rightarrow> bytes \<Rightarrow> bytes" where
  "login_notice pb name = encodeIMResponseToBytes pb (encodeTextResponseToIMResponseAndFree pb
     \<lparr>txt_msg = cstr name @ '' has logged in''\<rparr> True)"

text \<open>The user record after a wrong password, and after a successful login.\<close>

definition after_wrong :: "'a proc_scheme \<Rightarrow> user_t \<Rightarrow> user_t" where
  "after_wrong s x =
     (if int32 (u_attempts x + 1) = 3
      then x\<lparr>u_last_blocked := int32 (now s + block_duration (udb s)), u_attempts := 0\<rparr>
      else x\<lparr>u_attempts := int32 (u_attempts x + 1)\<rparr>)"

definition after_login :: "'a proc_scheme \<Rightarrow> user_t \<Rightarrow> user_t" where
  "after_login s x = x\<lparr>u_attempts := 0, u_last_logged_in := now s, u_last_active := now s\<rparr>"

lemma after_fields [simp]:
  "u_username (after_wrong s x) = u_username x" "u_client (after_wrong s x) = u_client x"
  "u_username (after_login s x) = u_username x" "u_client (after_login s x) = u_client x"
  "u_password (after_wrong s x) = u_password x" "u_password (after_login s x) = u_password x"
  by (simp_all add: after_wrong_def after_login_def)

lemma after_ok:
  assumes "heap_inv L s" and "users s u = Some x"
  shows "user_ok s u (after_wrong s x)" "user_ok s u (after_login s x)"
  using heap_invD(2) [OF assms] by (auto simp: user_ok_def after_wrong_def after_login_def)

lemma put_after_inv:
  assumes "heap_inv L s" and "users s u = Some x"
  shows "heap_inv L (put_user u (after_wrong s x) s)" "heap_inv L (put_user u (after_login s x) s)"
  using assms after_ok [OF assms] by (auto intro: put_user_inv)

lemma login_eq:
  assumes u: "findUser s name = Some u" and x: "users s u = Some x"
  shows "now s < u_last_blocked x \<Longrightarrow> login pb s name pw = Some (2, Some u, s)"
    "\<not> now s < u_last_blocked x \<Longrightarrow> u_password x \<noteq> cstr pw \<Longrightarrow> login pb s name pw =
       Some (if int32 (u_attempts x + 1) = 3 then 2 else 3, Some u, put_user u (after_wrong s x) s)"
    "\<not> now s < u_last_blocked x \<Longrightarrow> u_password x = cstr pw \<Longrightarrow> session_live s x \<Longrightarrow>
       login pb s name pw = Some (4, Some u, s)"
    "\<not> now s < u_last_blocked x \<Longrightarrow> u_password x = cstr pw \<Longrightarrow> \<not> session_live s x \<Longrightarrow>
       login pb s name pw = map_option (\<lambda>t. (0, Some u, t))
         (notify_others pb u (encodeTextResponseToIMResponseAndFree pb
            \<lparr>txt_msg = cstr name @ '' has logged in''\<rparr> True) (put_user u (after_login s x) s))"
  using u x
  by (auto simp: login_def heap_simps Let_def after_wrong_def after_login_def map_option_case
      split: option.split)

lemma login_spec:
  assumes inv: "heap_inv L s"
  shows "returns (login pb s name pw) (\<lambda>(code, user, t). heap_inv L t \<and> user = findUser s name \<and>
    (case findUser s name of
       None \<Rightarrow> code = 1 \<and> t = s
     | Some u \<Rightarrow> (\<exists>x. users s u = Some x \<and>
         (if now s < u_last_blocked x then code = 2 \<and> t = s
          else if u_password x \<noteq> cstr pw then
            code = (if int32 (u_attempts x + 1) = 3 then 2 else 3)
            \<and> t = put_user u (after_wrong s x) s
          else if session_live s x then code = 4 \<and> t = s
          else code = 0 \<and> notified u (login_notice pb name) (put_user u (after_login s x) s) t))))"
proof (cases "findUser s name")
  case None
  with inv show ?thesis by (simp add: login_def)
next
  case (Some u)
  from findUser_SomeD [OF heap_invD(1) [OF inv] this] obtain x where x: "users s u = Some x" by blast
  have "users (put_user u (after_login s x) s) u = Some (after_login s x)" by (simp add: heap_simps)
  from notify_others_spec [OF put_after_inv(2) [OF inv x] this,
      of pb "encodeTextResponseToIMResponseAndFree pb \<lparr>txt_msg = cstr name @ '' has logged in''\<rparr> True"]
  obtain t where t: "notify_others pb u (encodeTextResponseToIMResponseAndFree pb
        \<lparr>txt_msg = cstr name @ '' has logged in''\<rparr> True) (put_user u (after_login s x) s) = Some t"
      "heap_inv L t" "notified u (login_notice pb name) (put_user u (after_login s x) s) t"
    by (auto simp: login_notice_def elim!: returnsE)
  show ?thesis
  proof (cases "now s < u_last_blocked x")
    case True
    with login_eq(1) [OF Some x] Some x inv show ?thesis by simp
  next
    case nb: False
    show ?thesis
    proof (cases "u_password x = cstr pw")
      case False
      with login_eq(2) [OF Some x nb] nb Some x put_after_inv(1) [OF inv x] show ?thesis by simp
    next
      case pw: True
      with login_eq(3,4) [OF Some x nb pw] nb Some x t inv show ?thesis
        by (cases "session_live s x") simp_all
    qed
  qed
qed

end
