(* ===== verification/File.thy ===== *)
theory File
  imports Index State
begin

text \<open>
  \<open>lib/file.c\<close>: the trie of registered files, the chunk numbers handed out to them, and the chunks a
  connection has registered.  Every file owns the chunk numbers from its \<open>chunk_sid\<close> on; the facts
  say that the ranges of different files are disjoint as long as the 32-bit counter does not wrap.
\<close>

section \<open>The file trie\<close>

datatype trie_file =
  Trie_File (f_child: "char \<Rightarrow> trie_file option") (f_chunks: u32) (f_chunk_sid: u32)

text \<open>\<open>malloc\<close> leaves \<open>chunk_sid\<close> unset; it is only read on nodes whose \<open>chunks\<close> is positive, which
  \<open>addFile\<close> sets together with it.\<close>

definition newTrieFileNode :: trie_file where
  "newTrieFileNode = Trie_File (\<lambda>_. None) 0 0"

fun file_find :: "trie_file \<Rightarrow> bytes \<Rightarrow> trie_file option" where
  "file_find t [] = (if f_chunks t > 0 then Some t else None)"
| "file_find t (c # cs) = (case f_child t c of None \<Rightarrow> None | Some t' \<Rightarrow> file_find t' cs)"

definition findFile :: "trie_file \<Rightarrow> bytes \<Rightarrow> trie_file option" where
  "findFile root name = file_find root (cstr name)"

fun file_add :: "trie_file \<Rightarrow> bytes \<Rightarrow> u32 \<Rightarrow> u32 \<Rightarrow> trie_file \<times> trie_file option" where
  "file_add t [] sid n =
     (if f_chunks t > 0 then (t, None)
      else (let f = Trie_File (f_child t) n sid in (f, Some f)))"
| "file_add t (c # cs) sid n =
     (let (t', r) = file_add (case f_child t c of None \<Rightarrow> newTrieFileNode | Some t' \<Rightarrow> t') cs sid n
      in (Trie_File ((f_child t)(c \<mapsto> t')) (f_chunks t) (f_chunk_sid t), r))"

text \<open>\<open>addFile\<close> returns the new root, the new \<open>global_chunk_id\<close>, and the node (NULL: the name is taken).\<close>

definition addFile :: "trie_file \<Rightarrow> u32 \<Rightarrow> bytes \<Rightarrow> u32 \<Rightarrow> trie_file \<times> u32 \<times> trie_file option" where
  "addFile root gid name n =
     (let (root', r) = file_add root (cstr name) gid n
      in (root', (case r of None \<Rightarrow> gid | Some _ \<Rightarrow> gid + n), r))"

section \<open>The chunks of a connection\<close>

text \<open>The loop of \<open>clientHasFileChunks\<close> over the chunk numbers of the connection; the result and
  \<open>haschunkmask\<close>.\<close>

fun chunk_scan :: "u32 \<Rightarrow> u32 \<Rightarrow> bool list \<Rightarrow> u32 list \<Rightarrow> bool list \<Rightarrow> nat \<Rightarrow> nat \<times> bool list" where
  "chunk_scan sid eid wanted [] has ret = (ret, has)"
| "chunk_scan sid eid wanted (k # ks) has ret =
     (if sid \<le> k \<and> k < eid then
        (let i = unat (k - sid);
             ret1 = (if ret = 0 then 1 else ret);
             ret2 = (if wanted ! i then 2 else ret1)
         in chunk_scan sid eid wanted ks (has[i := True]) ret2)
      else chunk_scan sid eid wanted ks has ret)"

definition clientHasFileChunks ::
    "im_client \<Rightarrow> trie_file \<Rightarrow> bool list \<Rightarrow> bool list \<Rightarrow> nat \<times> bool list" where
  "clientHasFileChunks cl f wanted has =
     (let sid = f_chunk_sid f; eid = sid + f_chunks f
      in chunk_scan sid eid wanted (take (unat (c_nchunks cl)) (c_chunkids cl)) has 0)"

text \<open>The two registrations index the array with an \<open>int\<close> and size it with a 32-bit sum: past
  \<open>2 ^ 31\<close> entries they write outside it.\<close>

definition regAllFileChunk :: "im_client \<Rightarrow> trie_file \<Rightarrow> im_client option" where
  "regAllFileChunk cl f =
     (if unat (c_nchunks cl) + unat (f_chunks f) < 2 ^ 31 then
        Some (cl\<lparr>c_chunkids := take (unat (c_nchunks cl)) (c_chunkids cl)
                   @ map (\<lambda>j. f_chunk_sid f + word_of_nat j) [0..<unat (f_chunks f)],
                 c_nchunks := c_nchunks cl + f_chunks f\<rparr>)
      else None)"

definition regFileChunk :: "im_client \<Rightarrow> trie_file \<Rightarrow> u32 list \<Rightarrow> im_client option" where
  "regFileChunk cl f chunks =
     (let count = length chunks in
      if unat (c_nchunks cl) + count < 2 ^ 31 then
        Some (cl\<lparr>c_chunkids := take (unat (c_nchunks cl)) (c_chunkids cl)
                   @ map (\<lambda>x. f_chunk_sid f + x) chunks,
                 c_nchunks := c_nchunks cl + word_of_nat count\<rparr>)
      else None)"

section \<open>Facts: the trie is a registry\<close>

lemma file_find_new [simp]: "file_find newTrieFileNode k = None"
  by (cases k) (auto simp: newTrieFileNode_def)

text \<open>What a lookup shows of a file.\<close>

definition file_range :: "trie_file \<Rightarrow> u32 \<times> u32" where
  "file_range f = (f_chunk_sid f, f_chunks f)"

definition find_range :: "trie_file \<Rightarrow> bytes \<Rightarrow> (u32 \<times> u32) option" where
  "find_range t k = map_option file_range (file_find t k)"

definition put_range :: "trie_file \<Rightarrow> bytes \<Rightarrow> u32 \<times> u32 \<Rightarrow> trie_file" where
  "put_range t k r = fst (file_add t k (fst r) (snd r))"

lemma file_add_other: "k' \<noteq> k \<Longrightarrow>
  find_range (fst (file_add t k sid n)) k' = find_range t k'"
proof (induction t k sid n arbitrary: k' rule: file_add.induct)
  case (1 t sid n)
  then show ?case by (cases k') (auto simp: find_range_def Let_def)
next
  case (2 t c cs sid n)
  show ?case
  proof (cases k')
    case Nil
    then show ?thesis
      by (auto simp: find_range_def file_range_def split: prod.splits)
  next
    case (Cons d ds)
    let ?t = "case f_child t c of None \<Rightarrow> newTrieFileNode | Some t' \<Rightarrow> t'"
    have "d = c \<Longrightarrow> find_range (fst (file_add ?t cs sid n)) ds = find_range ?t ds"
      using 2 Cons by auto
    then show ?thesis using Cons
      by (auto simp: find_range_def split: prod.splits option.splits)
  qed
qed

lemma file_add_same:
  "file_add t k sid n = (t', r) \<Longrightarrow>
   (case file_find t k of Some f \<Rightarrow> r = None \<and> find_range t' k = Some (file_range f)
    | None \<Rightarrow> (\<exists>f. r = Some f \<and> file_range f = (sid, n)
        \<and> find_range t' k = (if n > 0 then Some (sid, n) else None)))"
proof (induction t k sid n arbitrary: t' r rule: file_add.induct)
  case (1 t sid n)
  then show ?case by (auto simp: find_range_def file_range_def Let_def split: if_splits)
next
  case (2 t c cs sid n)
  let ?t = "case f_child t c of None \<Rightarrow> newTrieFileNode | Some t' \<Rightarrow> t'"
  obtain t1 r1 where 1: "file_add ?t cs sid n = (t1, r1)" by (cases "file_add ?t cs sid n")
  with 2 have "t' = Trie_File ((f_child t)(c \<mapsto> t1)) (f_chunks t) (f_chunk_sid t)" "r = r1" by auto
  with 2(1) [OF 1] show ?case
    by (auto simp: find_range_def split: option.splits)
qed

interpretation ftrie: name_registry newTrieFileNode find_range put_range "\<lambda>r. snd r > 0"
proof unfold_locales
  fix k show "find_range newTrieFileNode k = None" by (simp add: find_range_def)
next
  fix k' k :: bytes and t v assume "k' \<noteq> k"
  then show "find_range (put_range t k v) k' = find_range t k'"
    by (simp add: put_range_def file_add_other)
next
  fix t k and v :: "u32 \<times> u32" assume "find_range t k = None" "0 < snd v"
  then show "find_range (put_range t k v) k = Some v"
    using file_add_same [of t k "fst v" "snd v"]
    by (cases "file_add t k (fst v) (snd v)") (auto simp: put_range_def find_range_def)
next
  fix t k v w assume "find_range t k = Some w"
  then show "find_range (put_range t k v) k = Some w"
    using file_add_same [of t k "fst v" "snd v"]
    by (cases "file_add t k (fst v) (snd v)") (auto simp: put_range_def find_range_def)
qed

section \<open>Facts: chunk numbers belong to one file\<close>

definition range_nums :: "u32 \<times> u32 \<Rightarrow> nat set" where
  "range_nums r = {unat (fst r) ..< unat (fst r) + unat (snd r)}"

definition files_ok :: "trie_file \<Rightarrow> u32 \<Rightarrow> bool" where
  "files_ok root gid \<longleftrightarrow>
     (\<forall>k r. find_range root k = Some r \<longrightarrow> 0 < snd r \<and> unat (fst r) + unat (snd r) \<le> unat gid)
     \<and> (\<forall>k k' r r'. k \<noteq> k' \<longrightarrow> find_range root k = Some r \<longrightarrow> find_range root k' = Some r'
          \<longrightarrow> range_nums r \<inter> range_nums r' = {})"

lemma files_okD:
  assumes "files_ok root gid" and "find_range root k = Some r"
  shows "0 < snd r" "unat (fst r) + unat (snd r) \<le> unat gid"
    "k' \<noteq> k \<Longrightarrow> find_range root k' = Some r' \<Longrightarrow> range_nums r \<inter> range_nums r' = {}"
  using assms unfolding files_ok_def by blast+

lemma files_ok_new: "files_ok newTrieFileNode gid"
  by (simp add: files_ok_def find_range_def)

lemma u32_bound: "unat (w :: u32) < 4294967296"
  using unsigned_less [of w] by simp

lemma unat_add_u32: "unat a + unat b < 4294967296 \<Longrightarrow> unat (a + b :: u32) = unat a + unat b"
  by (simp add: unat_word_ariths)

lemma addFile_cases:
  assumes "addFile root gid name n = (root', gid', r)"
  shows "(\<exists>w. find_range root (cstr name) = Some w \<and> r = None \<and> gid' = gid
        \<and> (\<forall>k. find_range root' k = find_range root k))
    \<or> (\<exists>f. find_range root (cstr name) = None \<and> r = Some f \<and> file_range f = (gid, n) \<and> gid' = gid + n
        \<and> (\<forall>k. find_range root' k =
              (if k = cstr name then (if n > 0 then Some (gid, n) else None) else find_range root k)))"
proof -
  obtain t' r' where t': "file_add root (cstr name) gid n = (t', r')" by (cases "file_add root (cstr name) gid n")
  with assms have eq: "root' = t'" "r = r'" "gid' = (case r' of None \<Rightarrow> gid | Some _ \<Rightarrow> gid + n)"
    by (auto simp: addFile_def)
  have other: "find_range root' k = find_range root k" if "k \<noteq> cstr name" for k
    using file_add_other [OF that, of root gid n] t' eq by simp
  show ?thesis
  proof (cases "file_find root (cstr name)")
    case None
    with file_add_same [OF t'] eq other show ?thesis by (auto simp: find_range_def)
  next
    case (Some w)
    with file_add_same [OF t'] eq have w: "r = None" "gid' = gid"
      "find_range root' (cstr name) = find_range root (cstr name)" by (auto simp: find_range_def)
    have "find_range root' k = find_range root k" for k
      using w(3) other by (cases "k = cstr name") simp_all
    with w Some show ?thesis by (auto simp: find_range_def)
  qed
qed

text \<open>A registration that fits the counter keeps the ranges disjoint.\<close>

lemma addFile_files_ok:
  assumes ok: "files_ok root gid" and add: "addFile root gid name n = (root', gid', r)"
    and fits: "unat gid + unat n < 2 ^ 32"
  shows "files_ok root' gid'"
  using addFile_cases [OF add]
proof (elim disjE exE conjE)
  fix w assume "gid' = gid" and "\<forall>k. find_range root' k = find_range root k"
  with ok show ?thesis by (simp add: files_ok_def)
next
  fix f
  assume f: "gid' = gid + n" and look: "\<forall>k. find_range root' k =
      (if k = cstr name then (if n > 0 then Some (gid, n) else None) else find_range root k)"
  have g: "unat gid' = unat gid + unat n" using fits f by (simp add: unat_add_u32)
  have old: "range_nums q \<inter> range_nums (gid, n) = {}" if "find_range root k = Some q" for k q
    using files_okD(2) [OF ok that] by (auto simp: range_nums_def)
  have "0 < snd q \<and> unat (fst q) + unat (snd q) \<le> unat gid'" if "find_range root' k = Some q" for k q
    using that look files_okD(1,2) [OF ok, of k q] g by (force split: if_splits)
  moreover have new: "q = (gid, n)" if "find_range root' (cstr name) = Some q" for q
    using that look by (auto split: if_splits)
  moreover have kept: "find_range root k = Some q"
    if "k \<noteq> cstr name" "find_range root' k = Some q" for k q
    using that look by simp
  moreover have "range_nums q \<inter> range_nums q' = {}"
    if "k \<noteq> k'" "find_range root' k = Some q" "find_range root' k' = Some q'" for k k' q q'
  proof (cases "k = cstr name")
    case True
    have "q = (gid, n)" using new [of q] that(2) True by simp
    moreover have "find_range root k' = Some q'" using kept [of k' q'] that True by simp
    ultimately show ?thesis using old [of k' q'] by (simp add: Int_commute)
  next
    case False
    have k: "find_range root k = Some q" using kept [of k q] that(2) False by simp
    show ?thesis
    proof (cases "k' = cstr name")
      case True
      have "q' = (gid, n)" using new [of q'] that(3) True by simp
      with old [OF k] show ?thesis by simp
    next
      case False
      have "find_range root k' = Some q'" using kept [of k' q'] that(3) False by simp
      with files_okD(3) [OF ok k, of k' q'] that(1) show ?thesis by simp
    qed
  qed
  ultimately show ?thesis unfolding files_ok_def by blast
qed

section \<open>Facts: scanning and registering\<close>

definition in_range :: "trie_file \<Rightarrow> u32 \<Rightarrow> bool" where
  "in_range f k \<longleftrightarrow> f_chunk_sid f \<le> k \<and> k < f_chunk_sid f + f_chunks f"

definition range_fits :: "trie_file \<Rightarrow> bool" where
  "range_fits f \<longleftrightarrow> unat (f_chunk_sid f) + unat (f_chunks f) < 2 ^ 32"

lemma in_range_iff:
  "range_fits f \<Longrightarrow> in_range f k \<longleftrightarrow> unat k \<in> range_nums (file_range f)"
  by (auto simp: in_range_def range_fits_def range_nums_def file_range_def word_le_nat_alt
      word_less_nat_alt unat_add_u32)

text \<open>Both masks are only touched inside their \<open>chunks\<close> entries, whatever the counters hold.\<close>

lemma in_range_index: "in_range f k \<Longrightarrow> unat (k - f_chunk_sid f) < unat (f_chunks f)"
proof -
  assume k: "in_range f k"
  then have "unat (k - f_chunk_sid f) = unat k - unat (f_chunk_sid f)"
    by (simp add: in_range_def unat_sub)
  moreover have "unat (f_chunk_sid f) \<le> unat k" "unat k < unat (f_chunk_sid f + f_chunks f)"
    using k by (simp_all add: in_range_def word_le_nat_alt word_less_nat_alt)
  moreover have "unat (f_chunk_sid f + f_chunks f) \<le> unat (f_chunk_sid f) + unat (f_chunks f)"
    by (simp add: unat_word_ariths)
  ultimately show ?thesis by linarith
qed

lemma chunk_scan_result:
  "ret \<le> 2 \<Longrightarrow>
   fst (chunk_scan (f_chunk_sid f) (f_chunk_sid f + f_chunks f) wanted ks has ret) =
     max ret (if \<exists>k \<in> set ks. in_range f k \<and> wanted ! unat (k - f_chunk_sid f) then 2
              else if \<exists>k \<in> set ks. in_range f k then 1 else 0)"
  by (induction ks arbitrary: has ret) (auto simp: in_range_def Let_def max_def)

lemma nth_update: "i < length xs \<Longrightarrow> xs[j := v] ! i = (if j = i then v else xs ! i)"
  by simp

lemma chunk_scan_mask:
  "length (snd (chunk_scan sid eid wanted ks has ret)) = length has \<and>
   (i < length has \<longrightarrow> snd (chunk_scan sid eid wanted ks has ret) ! i =
     (has ! i \<or> (\<exists>k \<in> set ks. sid \<le> k \<and> k < eid \<and> unat (k - sid) = i)))"
  by (induction ks arbitrary: has ret) (auto simp: Let_def nth_update)

lemma chunk_scan_append:
  "chunk_scan sid eid wanted (ks @ ls) has ret =
     (let (r, h) = chunk_scan sid eid wanted ks has ret in chunk_scan sid eid wanted ls h r)"
  by (induction ks arbitrary: has ret) (auto simp: Let_def)

lemma chunk_scan_none:
  "\<forall>k \<in> set ks. \<not> (sid \<le> k \<and> k < eid) \<Longrightarrow> chunk_scan sid eid wanted ks has ret = (ret, has)"
  by (induction ks) auto

definition client_chunks :: "im_client \<Rightarrow> u32 list" where
  "client_chunks cl = take (unat (c_nchunks cl)) (c_chunkids cl)"

definition chunks_ok :: "im_client \<Rightarrow> bool" where
  "chunks_ok cl \<longleftrightarrow> length (c_chunkids cl) = unat (c_nchunks cl)"

lemma regAllFileChunk_spec:
  assumes "regAllFileChunk cl f = Some cl'" and "chunks_ok cl"
  shows "client_chunks cl' = client_chunks cl
      @ map (\<lambda>j. f_chunk_sid f + word_of_nat j) [0..<unat (f_chunks f)]" "chunks_ok cl'"
  using assms
  by (auto simp: regAllFileChunk_def client_chunks_def chunks_ok_def unat_add_u32 split: if_splits)

lemma regFileChunk_spec:
  assumes "regFileChunk cl f cs = Some cl'" and "chunks_ok cl"
  shows "client_chunks cl' = client_chunks cl @ map (\<lambda>x. f_chunk_sid f + x) cs" "chunks_ok cl'"
proof -
  have "length cs < 2 ^ 31" and n: "unat (c_nchunks cl) + length cs < 2 ^ 31"
    using assms(1) by (auto simp: regFileChunk_def Let_def split: if_splits)
  then have "unat (word_of_nat (length cs) :: u32) = length cs"
    by (simp add: unat_of_nat)
  with n have "unat (c_nchunks cl + word_of_nat (length cs)) = unat (c_nchunks cl) + length cs"
    by (simp add: unat_add_u32)
  with assms show "client_chunks cl' = client_chunks cl @ map (\<lambda>x. f_chunk_sid f + x) cs" "chunks_ok cl'"
    by (auto simp: regFileChunk_def client_chunks_def chunks_ok_def Let_def split: if_splits)
qed

section \<open>Properties\<close>

text \<open>A sequence of registrations, as the server's handler makes them.\<close>

fun register_all :: "(bytes \<times> u32) list \<Rightarrow> trie_file \<times> u32 \<Rightarrow> trie_file \<times> u32" where
  "register_all [] s = s"
| "register_all ((name, n) # rs) (root, gid) =
     (let (root', gid', _) = addFile root gid name n in register_all rs (root', gid'))"

text \<open>C21. However many files are registered, in whatever order, repeated or empty: two files never share
  a chunk number, as long as the 32-bit counter of all chunks has not been used up.\<close>

theorem chunk_ranges_disjoint:
  assumes "register_all rs (newTrieFileNode, 0) = (root, gid)"
    and "sum_list (map (\<lambda>r. unat (snd r)) rs) < 2 ^ 32"
    and "findFile root name = Some f" and "findFile root name' = Some g" and "cstr name \<noteq> cstr name'"
  shows "range_nums (file_range f) \<inter> range_nums (file_range g) = {}"
proof -
  have "files_ok root gid" if "register_all rs (r, g) = (root, gid)" "files_ok r g"
      "unat g + sum_list (map (\<lambda>r. unat (snd r)) rs) < 2 ^ 32" for r g
    using that
  proof (induction rs arbitrary: r g)
    case (Cons e rs)
    obtain name n where e: "e = (name, n)" by (cases e)
    obtain r' g' res where add: "addFile r g name n = (r', g', res)" by (metis prod_cases3)
    have fits: "unat g + unat n < 2 ^ 32" using Cons.prems(3) e by simp
    have ok: "files_ok r' g'" using Cons.prems(2) add fits by (rule addFile_files_ok)
    have "unat g' \<le> unat g + unat n"
      using addFile_cases [OF add] unat_add_u32 [of g n] fits by auto
    with Cons.prems(3) e have "unat g' + sum_list (map (\<lambda>r. unat (snd r)) rs) < 2 ^ 32" by (simp add: comp_def)
    with Cons.prems(1) ok show ?case by (intro Cons.IH) (simp_all add: e add)
  qed simp
  from this [OF assms(1) files_ok_new] assms(2) have ok: "files_ok root gid" by simp
  have "find_range root (cstr name) = Some (file_range f)" "find_range root (cstr name') = Some (file_range g)"
    using assms(3,4) by (simp_all add: findFile_def find_range_def)
  with files_okD(3) [OF ok] assms(5) show ?thesis by metis
qed

lemma chunk_ranges_disjoint_witness:
  "\<exists>root gid f g. register_all [(''a'', 3), (''b'', 2), (''a'', 9)] (newTrieFileNode, 0) = (root, gid)
    \<and> findFile root ''a'' = Some f \<and> findFile root ''b'' = Some g
    \<and> file_range f = (0, 3) \<and> file_range g = (3, 2) \<and> range_nums (file_range f) \<inter> range_nums (file_range g) = {}"
proof -
  obtain root gid where r: "register_all [(''a'', 3), (''b'', 2), (''a'', 9)] (newTrieFileNode, 0) = (root, gid)"
    by (meson prod.exhaust)
  have "\<exists>f. findFile root ''a'' = Some f \<and> file_range f = (0, 3)"
    "\<exists>g. findFile root ''b'' = Some g \<and> file_range g = (3, 2)"
    using r by (auto simp: findFile_def addFile_def newTrieFileNode_def cstr_def file_range_def Let_def)
  then obtain f g where fg: "findFile root ''a'' = Some f" "file_range f = (0, 3)"
    "findFile root ''b'' = Some g" "file_range g = (3, 2)" by blast
  have "cstr ''a'' \<noteq> cstr ''b''" by (simp add: cstr_def)
  from chunk_ranges_disjoint [OF r _ fg(1,3) this] r fg show ?thesis by auto
qed

text \<open>First come, first served: a file is found with the number of chunks of the first registration
  of its name that has any, whatever was registered before and after.\<close>

theorem first_registration_wins:
  assumes "register_all rs (newTrieFileNode, gid0) = (root, gid)"
  shows "map_option f_chunks (findFile root name) =
    map_of (filter (\<lambda>(k, n). 0 < n) (map (\<lambda>(k, n). (cstr k, n)) rs)) (cstr name)"
proof -
  have "map_option snd (find_range root (cstr name)) =
      (case find_range r (cstr name) of Some w \<Rightarrow> Some (snd w)
       | None \<Rightarrow> map_of (filter (\<lambda>(k, n). 0 < n) (map (\<lambda>(k, n). (cstr k, n)) rs)) (cstr name))"
    if "register_all rs (r, g) = (root, gid)" for r g
    using that
  proof (induction rs arbitrary: r g)
    case Nil
    then show ?case by (auto split: option.splits)
  next
    case (Cons e rs)
    obtain k n where e: "e = (k, n)" by (cases e)
    obtain r' g' res where add: "addFile r g k n = (r', g', res)" by (metis prod_cases3)
    have "register_all rs (r', g') = (root, gid)" using Cons.prems by (simp add: e add)
    from Cons.IH [OF this] addFile_cases [OF add] show ?case
      by (auto simp: e split: option.splits)
  qed
  from this [OF assms] show ?thesis
    by (cases "file_find root (cstr name)") (auto simp: find_range_def findFile_def file_range_def)
qed

lemma first_registration_wins_witness:
  "\<exists>root gid. register_all [(''a'', 0), (''a'', 3), (''a'', 9)] (newTrieFileNode, 5) = (root, gid)
    \<and> map_option f_chunks (findFile root ''a'') = Some 3"
proof -
  obtain root gid where r: "register_all [(''a'', 0), (''a'', 3), (''a'', 9)] (newTrieFileNode, 5) = (root, gid)"
    by (meson prod.exhaust)
  from first_registration_wins [OF r, of "''a''"] r show ?thesis by auto
qed

text \<open>A file registered with no chunks is reported as registered and yet is not there: it is not
  found, and the name stays free for somebody else.\<close>

theorem empty_file_vanishes:
  assumes "findFile root name = None" and "addFile root gid name 0 = (root', gid', r)"
  shows "(\<exists>f. r = Some f) \<and> findFile root' name = None \<and> gid' = gid"
  using addFile_cases [OF assms(2)] assms(1)
  by (auto simp: find_range_def findFile_def dest!: spec [of _ "cstr name"])

lemma empty_file_vanishes_witness:
  "\<exists>root' gid' f. addFile newTrieFileNode 7 ''a'' 0 = (root', gid', Some f) \<and> findFile root' ''a'' = None"
proof -
  obtain root' gid' r where add: "addFile newTrieFileNode 7 ''a'' 0 = (root', gid', r)" by (metis prod_cases3)
  have "findFile newTrieFileNode ''a'' = None" by (simp add: findFile_def)
  from empty_file_vanishes [OF this add] add show ?thesis by auto
qed

end
