(* ===== verification/Packed.thy ===== *)
theory Packed
  imports Auth
begin

text \<open>
  The packed chunk lists of \<open>lib/socket.c\<close>: \<open>parse_packed_uint32\<close> on the server and
  \<open>pack_repeated_uint32_from_str\<close> on the client, with the libc \<open>strtol\<close> it scans the user's input
  with.  Integers are in the byte order of the (little-endian) host, as the casts of the code make
  them.
\<close>

section \<open>Parsing\<close>

definition parse_packed_uint32 :: "bytes \<Rightarrow> u32 list" where
  "parse_packed_uint32 b =
     map (\<lambda>i. word_of_nat (of_le (take 4 (drop (4 * i) b)))) [0..<length b div 4]"

section \<open>strtol and packing\<close>

text \<open>\<open>%u\<close> and \<open>%d\<close> of a number that is not negative.\<close>

fun dec :: "nat \<Rightarrow> bytes" where
  "dec n = (if n < 10 then [char_of (48 + n)] else dec (n div 10) @ [char_of (48 + n mod 10)])"

declare dec.simps [simp del]

definition dec_int :: "int \<Rightarrow> bytes" where
  "dec_int i = (if i < 0 then CHR ''-'' # dec (nat (- i)) else dec (nat i))"

text \<open>\<open>%s\<close> of a NULL pointer, as glibc prints it.\<close>

definition fmt_s :: "bytes option \<Rightarrow> bytes" where
  "fmt_s p = (case p of None \<Rightarrow> ''(null)'' | Some b \<Rightarrow> cstr b)"

definition is_digit :: "char \<Rightarrow> bool" where
  "is_digit c \<longleftrightarrow> (48 :: nat) \<le> of_char c \<and> of_char c \<le> (57 :: nat)"

definition digits_value :: "bytes \<Rightarrow> int" where
  "digits_value ds = fold (\<lambda>c n. 10 * n + (of_char c - 48)) ds 0"

definition clamp_long :: "int \<Rightarrow> int" where
  "clamp_long x = (if x < - (2 ^ 63) then - (2 ^ 63) else if x > 2 ^ 63 - 1 then 2 ^ 63 - 1 else x)"

text \<open>\<open>strtol(s, &e, 10)\<close>: the value and what \<open>e\<close> points at, \<open>s\<close> itself when there is no number.
  White space and a sign may come before the digits.\<close>

definition number_start :: "bytes \<Rightarrow> bytes" where
  "number_start s = (let r = dropWhile isspace s in
     if r \<noteq> [] \<and> (hd r = CHR ''-'' \<or> hd r = CHR ''+'') then tl r else r)"

definition is_negative :: "bytes \<Rightarrow> bool" where
  "is_negative s = (let r = dropWhile isspace s in r \<noteq> [] \<and> hd r = CHR ''-'')"

definition strtol10 :: "bytes \<Rightarrow> int \<times> bytes" where
  "strtol10 s =
     (let r = number_start s; ds = takeWhile is_digit r
      in if ds = [] then (0, s)
         else (clamp_long (if is_negative s then - digits_value ds else digits_value ds),
               dropWhile is_digit r))"

lemma number_start_suffix: "\<exists>p. s = p @ number_start s"
proof -
  have 1: "s = takeWhile isspace s @ dropWhile isspace s" by simp
  show ?thesis
  proof (cases "dropWhile isspace s")
    case Nil
    then have "number_start s = []" by (simp add: number_start_def Let_def)
    then show ?thesis by simp
  next
    case (Cons c cs)
    then have "number_start s = cs \<or> number_start s = c # cs"
      by (simp add: number_start_def Let_def)
    moreover have "s = takeWhile isspace s @ c # cs" "s = (takeWhile isspace s @ [c]) @ cs"
      using 1 Cons by simp_all
    ultimately show ?thesis by metis
  qed
qed

lemma strtol10_rest:
  assumes "snd (strtol10 s) \<noteq> s"
  shows "snd (strtol10 s) = dropWhile is_digit (number_start s)"
    "takeWhile is_digit (number_start s) \<noteq> []"
    "length (snd (strtol10 s)) < length (number_start s)"
proof -
  show 1: "snd (strtol10 s) = dropWhile is_digit (number_start s)"
    and 2: "takeWhile is_digit (number_start s) \<noteq> []"
    using assms by (auto simp: strtol10_def Let_def split: if_splits)
  have "length (takeWhile is_digit (number_start s)) + length (dropWhile is_digit (number_start s))
      = length (number_start s)"
    by (metis length_append takeWhile_dropWhile_id)
  with 1 2 show "length (snd (strtol10 s)) < length (number_start s)"
    by (cases "takeWhile is_digit (number_start s)") auto
qed

lemma strtol10_length:
  assumes "snd (strtol10 s) \<noteq> s"
  shows "length (snd (strtol10 s)) < length s"
proof -
  obtain p where "s = p @ number_start s" using number_start_suffix by blast
  then have "length (number_start s) \<le> length s" by (metis length_append le_add2)
  with strtol10_rest(3) [OF assms] show ?thesis by simp
qed

text \<open>The loop: \<open>None\<close> is a write behind the end of \<open>vals\<close>, \<open>Some None\<close> an invalid sequence.\<close>

function pack_loop :: "nat \<Rightarrow> bytes \<Rightarrow> u32 list \<Rightarrow> u32 list option option" where
  "pack_loop cap s vals =
     (if length vals \<ge> cap then None
      else (let v = word_of_int (fst (strtol10 s)); e = snd (strtol10 s)
            in if e = s then Some None
               else if e = [] then Some (Some (vals @ [v]))
               else pack_loop cap e (vals @ [v])))"
  by pat_completeness auto
termination
  by (relation "measure (\<lambda>(cap, s, vals). length s)") (auto simp: strtol10_length)

declare pack_loop.simps [simp del]

text \<open>The returned count and \<open>bytes\<close>; the array \<open>vals\<close> has \<open>1 + strlen(str) / 2\<close> entries.\<close>

definition pack_repeated_uint32_from_str :: "bytes \<Rightarrow> (nat \<times> bytes) option" where
  "pack_repeated_uint32_from_str str =
     (let s = cstr str in
      case pack_loop (1 + length s div 2) s [] of
        None \<Rightarrow> None
      | Some None \<Rightarrow> Some (0, [])
      | Some (Some vals) \<Rightarrow>
          Some (length vals, concat (map (\<lambda>w. le_bytes 4 (unat w)) vals)))"

section \<open>Facts\<close>

lemma parse_packed_Nil [simp]: "parse_packed_uint32 [] = []"
  by (simp add: parse_packed_uint32_def)

lemma parse_packed_step:
  "parse_packed_uint32 (le_bytes 4 (unat w) @ b) = w # parse_packed_uint32 b"
proof -
  have n: "length (le_bytes 4 (unat w) @ b) div 4 = Suc (length b div 4)" by simp
  have up: "[0..<Suc k] = 0 # map Suc [0..<k]" for k
    by (simp add: map_Suc_upt upt_conv_Cons)
  have d: "drop (4 * Suc i) (le_bytes 4 (unat w) @ b) = drop (4 * i) b" for i by simp
  have w: "word_of_nat (of_le (take 4 (drop (4 * 0) (le_bytes 4 (unat w) @ b)))) = w"
    using read_u32_le_bytes [of 4 w b] by (simp add: read_u32_def)
  show ?thesis
    unfolding parse_packed_uint32_def n up
    by (simp only: list.map map_map comp_def w d)
qed

lemma parse_packed_pack: "parse_packed_uint32 (concat (map (\<lambda>w. le_bytes 4 (unat w)) ws)) = ws"
  by (induction ws) (simp_all add: parse_packed_step)

lemma length_parse_packed [simp]: "length (parse_packed_uint32 b) = length b div 4"
  by (simp add: parse_packed_uint32_def)

text \<open>A number behind another one takes at least two characters, so the array is never overrun.\<close>

lemma strtol10_no_digit_first:
  assumes "s \<noteq> []" and "\<not> is_digit (hd s)" and ne: "snd (strtol10 s) \<noteq> s"
  shows "length (snd (strtol10 s)) + 2 \<le> length s"
proof -
  obtain p where p: "s = p @ number_start s" using number_start_suffix by blast
  have "takeWhile is_digit s = []" using assms(1,2) by (cases s) auto
  with strtol10_rest(2) [OF ne] have "number_start s \<noteq> s" by metis
  with p have "p \<noteq> []" by auto
  with p have "length (number_start s) < length s"
    by (metis length_append length_greater_0_conv less_add_same_cancel2)
  with strtol10_rest(3) [OF ne] show ?thesis by simp
qed

lemma strtol10_stops:
  assumes "snd (strtol10 s) \<noteq> s" and "snd (strtol10 s) \<noteq> []"
  shows "\<not> is_digit (hd (snd (strtol10 s)))"
  using assms(2) strtol10_rest(1) [OF assms(1)] by (metis hd_dropWhile)

lemma pack_loop_fits:
  assumes "vals = [] \<longrightarrow> length s < 2 * cap"
    and "vals \<noteq> [] \<longrightarrow> s \<noteq> [] \<and> \<not> is_digit (hd s) \<and> 2 * length vals + length s \<le> 2 * cap"
  shows "pack_loop cap s vals \<noteq> None"
  using assms
proof (induction cap s vals rule: pack_loop.induct)
  case (1 cap s vals)
  let ?e = "snd (strtol10 s)"
  have room: "length vals < cap"
  proof (cases "vals = []")
    case False
    with 1(3) have "0 < length s" "2 * length vals + length s \<le> 2 * cap" by simp_all
    then show ?thesis by linarith
  qed (use 1(2) in simp)
  show ?case
  proof (cases "?e = s \<or> ?e = []")
    case True
    with room show ?thesis by (auto simp: pack_loop.simps [of cap s] Let_def)
  next
    case False
    then have shorter: "length ?e < length s" using strtol10_length by blast
    have "2 * length (vals @ [word_of_int (fst (strtol10 s))]) + length ?e \<le> 2 * cap"
    proof (cases "vals = []")
      case True
      with 1(2) shorter show ?thesis by simp
    next
      case ne: False
      with 1(3) False have "length ?e + 2 \<le> length s" using strtol10_no_digit_first by blast
      with 1(3) ne show ?thesis by simp
    qed
    with 1(1) room False strtol10_stops [of s] show ?thesis
      by (simp add: pack_loop.simps [of cap s] Let_def)
  qed
qed

lemma pack_loop_values:
  "pack_loop cap s vals = Some (Some ws) \<Longrightarrow> ws \<noteq> []"
  by (induction cap s vals rule: pack_loop.induct)
     (subst (asm) (2) pack_loop.simps, auto simp: Let_def split: if_splits)

section \<open>Properties\<close>

lemma digits_value_snoc: "digits_value (ds @ [c]) = 10 * digits_value ds + (of_char c - 48)"
  by (simp add: digits_value_def)

lemma dec_digits: "list_all is_digit (dec n) \<and> digits_value (dec n) = int n \<and> dec n \<noteq> []"
proof (induction n rule: dec.induct)
  case (1 n)
  have d: "is_digit (char_of (48 + m))" "of_char (char_of (48 + m) :: char) = (48 + int m)" if "m < 10" for m :: nat
  proof -
    have c: "of_char (char_of (48 + m) :: char) = 48 + m" using that by (simp add: of_char_of)
    with that show "is_digit (char_of (48 + m))" by (simp add: is_digit_def)
    show "of_char (char_of (48 + m) :: char) = (48 + int m)"
    proof -
      have "of_char (char_of (48 + m) :: char) = int (of_char (char_of (48 + m) :: char))"
        by (simp only: of_nat_of_char)
      then show ?thesis by (simp only: c of_nat_add of_nat_numeral)
    qed
  qed
  show ?case
  proof (cases "n < 10")
    case True
    with d [of n] show ?thesis by (simp add: dec.simps [of n] digits_value_def)
  next
    case False
    have "10 * int (n div 10) + int (n mod 10) = int n"
      using mult_div_mod_eq [of 10 "int n"] by (simp only: zdiv_int zmod_int of_nat_numeral)
    with False 1 d [of "n mod 10"] show ?thesis
      by (simp add: dec.simps [of n] digits_value_snoc)
  qed
qed

lemma digit_not_space: "is_digit c \<Longrightarrow> \<not> isspace c \<and> c \<noteq> CHR ''-'' \<and> c \<noteq> CHR ''+'' \<and> c \<noteq> NUL"
  by (auto simp: is_digit_def isspace_def)

lemma number_start_dec: "number_start (dec n @ r) = dec n @ r" "number_start (CHR '' '' # dec n @ r) = dec n @ r"
    "\<not> is_negative (dec n @ r)" "\<not> is_negative (CHR '' '' # dec n @ r)"
proof -
  obtain c cs where c: "dec n = c # cs" "is_digit c" using dec_digits [of n] by (cases "dec n") auto
  then show "number_start (dec n @ r) = dec n @ r" "number_start (CHR '' '' # dec n @ r) = dec n @ r"
    "\<not> is_negative (dec n @ r)" "\<not> is_negative (CHR '' '' # dec n @ r)"
    using digit_not_space [OF c(2)] by (auto simp: number_start_def is_negative_def Let_def isspace_def)
qed

text \<open>\<open>strtol\<close> reads back what \<open>%u\<close> printed.\<close>

lemma strtol10_dec:
  assumes "r = [] \<or> \<not> is_digit (hd r)" and "n < 2 ^ 32" and "s = dec n @ r \<or> s = CHR '' '' # dec n @ r"
  shows "strtol10 s = (int n, r)"
proof -
  have "takeWhile is_digit (dec n @ r) = dec n" "dropWhile is_digit (dec n @ r) = r"
    using dec_digits [of n] assms(1)
    by (cases r; auto simp: list_all_iff takeWhile_append2 dropWhile_append2)+
  moreover have "clamp_long (int n) = int n" using assms(2) by (simp add: clamp_long_def)
  ultimately show ?thesis
    using assms(3) number_start_dec [of n r] dec_digits [of n] by (auto simp: strtol10_def Let_def)
qed

definition print_chunks :: "u32 list \<Rightarrow> bytes" where
  "print_chunks ws = concat (map (\<lambda>w. CHR '' '' # dec (unat w)) ws)"

lemma print_chunks_Cons: "print_chunks (w # ws) = CHR '' '' # dec (unat w) @ print_chunks ws"
  by (simp add: print_chunks_def)

lemma length_print_chunks: "2 * length ws \<le> length (print_chunks ws)"
proof (induction ws)
  case (Cons w ws)
  have "1 \<le> length (dec (unat w))" using dec_digits [of "unat w"] by (cases "dec (unat w)") auto
  with Cons have "2 + 2 * length ws \<le> 1 + length (dec (unat w)) + length (print_chunks ws)" by linarith
  then show ?case by (simp add: print_chunks_Cons)
qed simp

lemma print_chunks_stop: "print_chunks ws = [] \<or> \<not> is_digit (hd (print_chunks ws))"
  by (cases ws) (auto simp: print_chunks_def is_digit_def)

lemma unat_u32_less: "unat (w :: u32) < 2 ^ 32"
  using unsigned_less [of w] by simp

text \<open>With or without the blank in front of the first number.\<close>

lemma pack_loop_print:
  assumes "length vals + length ws \<le> cap" and "ws \<noteq> []" and "s = print_chunks ws \<or> s = tl (print_chunks ws)"
  shows "pack_loop cap s vals = Some (Some (vals @ ws))"
  using assms
proof (induction ws arbitrary: vals s)
  case (Cons w ws)
  have s: "strtol10 s = (int (unat w), print_chunks ws)"
    using Cons.prems(3) print_chunks_stop unat_u32_less by (intro strtol10_dec) (auto simp: print_chunks_Cons)
  have "dec (unat w) \<noteq> []" using dec_digits [of "unat w"] by auto
  then have "length (print_chunks ws) < length s"
    using Cons.prems(3) by (auto simp: print_chunks_Cons)
  then have ne: "print_chunks ws \<noteq> s" by auto
  have w: "word_of_int (int (unat w)) = w" by simp
  show ?case
  proof (cases ws)
    case Nil
    then show ?thesis using Cons.prems s ne w
      by (subst pack_loop.simps) (simp add: Let_def print_chunks_def)
  next
    case (Cons v vs)
    then have "print_chunks ws \<noteq> []" by (simp add: print_chunks_def)
    with Cons.IH [of "vals @ [w]" "print_chunks ws"] Cons.prems Cons s ne w show ?thesis
      by (subst pack_loop.simps) (simp add: Let_def)
  qed
qed simp

lemma pack_print:
  assumes "ws \<noteq> []" and "s = print_chunks ws \<or> s = tl (print_chunks ws)"
  shows "pack_repeated_uint32_from_str s = Some (length ws, concat (map (\<lambda>w. le_bytes 4 (unat w)) ws))"
proof -
  have "NUL \<notin> set (dec n)" for n
    using dec_digits [of n] digit_not_space by (auto simp: list_all_iff)
  then have "NUL \<notin> set (print_chunks ws)" by (auto simp: print_chunks_def)
  moreover have "set s \<subseteq> set (print_chunks ws)" using assms(2) by (cases "print_chunks ws") auto
  ultimately have "cstr s = s" by (intro cstr_id) blast
  moreover have "2 * length ws \<le> Suc (length s)" using assms(2) length_print_chunks [of ws] by auto
  then have "length ws \<le> 1 + length s div 2" by presburger
  ultimately show ?thesis
    using pack_loop_print [of "[]" ws _ s] assms by (simp add: pack_repeated_uint32_from_str_def Let_def)
qed

text \<open>C23. The chunk numbers a user types reach the server: printed in decimal with spaces between
  them, packed by the client and parsed by the server, they are the same list.\<close>

theorem packed_chunks_roundtrip:
  assumes "ws \<noteq> []"
  shows "\<exists>bs. pack_repeated_uint32_from_str (print_chunks ws) = Some (length ws, bs)
    \<and> length bs = 4 * length ws \<and> parse_packed_uint32 bs = ws"
proof -
  have "length (concat (map (\<lambda>w. le_bytes 4 (unat w)) ws)) = 4 * length ws"
    by (induction ws) auto
  with assms show ?thesis by (simp add: pack_print parse_packed_pack)
qed

lemma packed_chunks_roundtrip_witness:
  "\<exists>bs. pack_repeated_uint32_from_str (print_chunks [7, 4294967295]) = Some (2, bs)
    \<and> parse_packed_uint32 bs = [7, 4294967295]"
  using packed_chunks_roundtrip [of "[7, 4294967295]"] by auto

lemma pack_loop_returns: "pack_loop (1 + length s div 2) s [] \<noteq> None"
proof -
  have "length s < 2 * (1 + length s div 2)" by presburger
  then show ?thesis by (intro pack_loop_fits) blast+
qed

lemma pack_returns: "\<exists>n bs. pack_repeated_uint32_from_str str = Some (n, bs)"
  using pack_loop_returns [of "cstr str"]
  by (auto simp: pack_repeated_uint32_from_str_def Let_def split: option.split)

text \<open>A list of numbers: each has white space and a sign before its digits, or not.\<close>

definition is_number :: "bytes \<Rightarrow> bool" where
  "is_number t \<longleftrightarrow> (\<exists>ws sg ds. t = ws @ sg @ ds \<and> (\<forall>c \<in> set ws. isspace c) \<and> sg \<in> {[], ''-'', ''+''}
     \<and> ds \<noteq> [] \<and> (\<forall>c \<in> set ds. is_digit c))"

definition number_list :: "bytes \<Rightarrow> bool" where
  "number_list s \<longleftrightarrow> (\<exists>ts. ts \<noteq> [] \<and> s = concat ts \<and> (\<forall>t \<in> set ts. is_number t))"

lemma number_start_split: "\<exists>ws sg. s = ws @ sg @ number_start s \<and> (\<forall>c \<in> set ws. isspace c) \<and> sg \<in> {[], ''-'', ''+''}"
proof -
  let ?w = "takeWhile isspace s" and ?r = "dropWhile isspace s"
  have w: "s = ?w @ ?r" "\<forall>c \<in> set ?w. isspace c" by (auto dest: set_takeWhileD)
  show ?thesis
  proof (cases "?r \<noteq> [] \<and> (hd ?r = CHR ''-'' \<or> hd ?r = CHR ''+'')")
    case True
    then have "?r = [hd ?r] @ number_start s" "[hd ?r] \<in> {[], ''-'', ''+''}" by (auto simp: number_start_def Let_def)
    with w show ?thesis by metis
  next
    case False
    then have "number_start s = ?r" unfolding number_start_def Let_def by (rule if_not_P)
    then have "s = ?w @ [] @ number_start s" "[] \<in> {[], ''-'', ''+''}" using w(1) by simp_all
    with w(2) show ?thesis by blast
  qed
qed

lemma strtol10_number:
  assumes "snd (strtol10 s) \<noteq> s"
  shows "\<exists>t. s = t @ snd (strtol10 s) \<and> is_number t"
proof -
  obtain ws sg where s: "s = ws @ sg @ number_start s" "\<forall>c \<in> set ws. isspace c" "sg \<in> {[], ''-'', ''+''}"
    using number_start_split by blast
  let ?ds = "takeWhile is_digit (number_start s)"
  have "number_start s = ?ds @ snd (strtol10 s)" by (simp add: strtol10_rest(1) [OF assms])
  with s(1) have "s = (ws @ sg @ ?ds) @ snd (strtol10 s)" by (metis append_assoc)
  moreover have "is_number (ws @ sg @ ?ds)"
    using s(2,3) strtol10_rest(2) [OF assms] unfolding is_number_def by (metis set_takeWhileD)
  ultimately show ?thesis by blast
qed

lemma number_start_number:
  assumes "\<forall>c \<in> set ws. isspace c" and "sg \<in> {[], ''-'', ''+''}" and "is_digit d"
  shows "number_start (ws @ sg @ d # r) = d # r"
proof -
  have "\<not> isspace (CHR ''-'')" "\<not> isspace (CHR ''+'')" by (simp_all add: isspace_def)
  then have "dropWhile isspace (ws @ sg @ d # r) = sg @ d # r"
    using assms digit_not_space [OF assms(3)] by (auto simp: dropWhile_append2)
  with assms(2) digit_not_space [OF assms(3)] show ?thesis by (auto simp: number_start_def Let_def)
qed

lemma strtol10_is_number:
  assumes "is_number t"
  shows "snd (strtol10 (t @ r)) = dropWhile is_digit r" "snd (strtol10 (t @ r)) \<noteq> t @ r"
proof -
  obtain ws sg ds where t: "t = ws @ sg @ ds" "\<forall>c \<in> set ws. isspace c" "sg \<in> {[], ''-'', ''+''}" "ds \<noteq> []" "\<forall>c \<in> set ds. is_digit c"
    using assms unfolding is_number_def by blast
  obtain d es where d: "ds = d # es" using t(4) by (cases ds) auto
  have "number_start (ws @ sg @ d # (es @ r)) = d # (es @ r)"
    using t(2,3,5) d by (intro number_start_number) simp_all
  then have "number_start (t @ r) = ds @ r" by (simp add: t(1) d)
  moreover have "takeWhile is_digit (ds @ r) = ds @ takeWhile is_digit r" "dropWhile is_digit (ds @ r) = dropWhile is_digit r"
    using t(5) by (simp_all add: takeWhile_append2 dropWhile_append2)
  ultimately show rest: "snd (strtol10 (t @ r)) = dropWhile is_digit r"
    using t(4) by (simp add: strtol10_def Let_def)
  have "length (dropWhile is_digit r) \<le> length r" by (rule length_dropWhile_le)
  moreover have "0 < length t" using t(1,4) by simp
  ultimately show "snd (strtol10 (t @ r)) \<noteq> t @ r" unfolding rest by (auto dest: arg_cong [where f = length])
qed

text \<open>Digits that are left behind a number belong to numbers that are used up with it.\<close>

lemma number_list_rest:
  assumes "\<forall>t \<in> set ts. is_number t" and "dropWhile is_digit (concat ts) \<noteq> []"
  shows "number_list (dropWhile is_digit (concat ts))"
  using assms
proof (induction ts)
  case (Cons t ts)
  then obtain ws sg ds where t: "t = ws @ sg @ ds" "\<forall>c \<in> set ws. isspace c" "sg \<in> {[], ''-'', ''+''}" "ds \<noteq> []" "\<forall>c \<in> set ds. is_digit c"
    unfolding is_number_def by auto
  show ?case
  proof (cases "ws = [] \<and> sg = []")
    case True
    with t have "dropWhile is_digit (concat (t # ts)) = dropWhile is_digit (concat ts)" by (simp add: dropWhile_append2)
    moreover have "\<forall>t \<in> set ts. is_number t" using Cons.prems(1) by simp
    ultimately show ?thesis using Cons.IH Cons.prems(2) by metis
  next
    case False
    then obtain c cs where c: "ws @ sg = c # cs" by (cases "ws @ sg") auto
    have "\<not> is_digit (CHR ''-'')" "\<not> is_digit (CHR ''+'')" by (simp_all add: is_digit_def)
    then have "\<not> is_digit c" using c t(2,3) digit_not_space by (cases ws) auto
    then have "dropWhile is_digit (concat (t # ts)) = concat (t # ts)" using c by (simp add: t(1) flip: append_assoc)
    with Cons.prems(1) show ?thesis unfolding number_list_def by blast
  qed
qed simp

text \<open>The loop takes one number off a list of numbers.\<close>

lemma number_list_step:
  "number_list s \<longleftrightarrow> snd (strtol10 s) \<noteq> s \<and> (snd (strtol10 s) = [] \<or> number_list (snd (strtol10 s)))"
proof
  assume "number_list s"
  then obtain t ts where t: "s = t @ concat ts" "is_number t" "\<forall>t \<in> set ts. is_number t"
    unfolding number_list_def by (metis list.exhaust concat.simps(2) list.set_intros)
  from strtol10_is_number [OF t(2), of "concat ts"] number_list_rest [OF t(3)] t(1)
  show "snd (strtol10 s) \<noteq> s \<and> (snd (strtol10 s) = [] \<or> number_list (snd (strtol10 s)))" by auto
next
  assume r: "snd (strtol10 s) \<noteq> s \<and> (snd (strtol10 s) = [] \<or> number_list (snd (strtol10 s)))"
  then obtain t where t: "s = t @ snd (strtol10 s)" "is_number t" using strtol10_number by blast
  obtain ts where ts: "snd (strtol10 s) = concat ts" "\<forall>t \<in> set ts. is_number t"
    using r unfolding number_list_def by (metis concat.simps(1) list.set(1) empty_iff)
  have "s = concat (t # ts)" using t(1) by (simp flip: ts(1))
  with t(2) ts(2) show "number_list s" unfolding number_list_def by (metis list.distinct(1) set_ConsD)
qed

lemma pack_loop_number_list: "pack_loop cap s vals = Some r \<Longrightarrow> r = None \<longleftrightarrow> \<not> number_list s"
proof (induction cap s vals arbitrary: r rule: pack_loop.induct)
  case (1 cap s vals)
  note step = "1.IH"
  from "1.prems" have room: "length vals < cap" by (subst (asm) pack_loop.simps) (auto split: if_splits)
  consider "snd (strtol10 s) = s" | "snd (strtol10 s) \<noteq> s" "snd (strtol10 s) = []"
    | "snd (strtol10 s) \<noteq> s" "snd (strtol10 s) \<noteq> []" by blast
  then show ?case
  proof cases
    case 1
    with \<open>pack_loop cap s vals = Some r\<close> room show ?thesis
      by (subst number_list_step) (subst (asm) pack_loop.simps, simp)
  next
    case 2
    then have "number_list s" by (subst number_list_step) simp
    with \<open>pack_loop cap s vals = Some r\<close> room 2 show ?thesis by (subst (asm) pack_loop.simps) (auto simp: Let_def)
  next
    case 3
    with \<open>pack_loop cap s vals = Some r\<close> room have "pack_loop cap (snd (strtol10 s)) (vals @ [word_of_int (fst (strtol10 s))]) = Some r"
      by (subst (asm) pack_loop.simps) (simp add: Let_def)
    with step room 3 have "r = None \<longleftrightarrow> \<not> number_list (snd (strtol10 s))" by simp
    with 3 show ?thesis by (subst number_list_step) simp
  qed
qed

text \<open>C24. Whatever the user types instead of a chunk list, packing it ends and stays inside its array of
  \<open>1 + strlen / 2\<close> entries, with four bytes for each number; it gives the length 0 exactly when what was
  typed (up to a NUL) is not a list of numbers, and so at least one number when it is.\<close>

theorem packing_stays_in_bounds:
  "returns (pack_repeated_uint32_from_str str) (\<lambda>(n, bs). length bs = 4 * n \<and> n \<le> 1 + length (cstr str) div 2
    \<and> (n = 0 \<longleftrightarrow> \<not> number_list (cstr str)))"
proof -
  have "pack_loop (1 + length (cstr str) div 2) (cstr str) [] \<noteq> None" by (rule pack_loop_returns)
  moreover have "length ws \<le> cap" if "pack_loop cap s vals = Some (Some ws)" for cap s vals ws
    using that
    by (induction cap s vals rule: pack_loop.induct)
      (subst (asm) (2) pack_loop.simps, auto simp: Let_def split: if_splits)
  moreover have "length (concat (map (\<lambda>w. le_bytes 4 (unat w)) ws)) = 4 * length ws" for ws :: "u32 list"
    by (induction ws) auto
  ultimately show ?thesis
    by (auto simp: pack_repeated_uint32_from_str_def Let_def pack_loop_number_list pack_loop_values split: option.splits
      dest: pack_loop_number_list pack_loop_values)
qed

end
