(* ===== verification/Commands.thy ===== *)
theory Commands
  imports Session File Packed
begin

text \<open>
  \<open>serverlib/commands/\<close>: the ten request handlers of the server, and its table of commands.  A handler
  returns its response (NULL: none) and the new state; every early return of the code is a branch
  here.  The server's state adds the file trie, the chunk counter and the listening descriptor to
  the shared globals.
\<close>

unbundle bit_operations_syntax

record server = proc +
  file_root :: trie_file
  global_chunk_id :: u32
  masterfd :: int

type_synonym reply = "(IMResponse option \<times> server) option"

section \<open>Pieces of the replies\<close>

definition htons :: "u16 \<Rightarrow> u16" where
  "htons w = push_bit 8 w OR drop_bit 8 w"

text \<open>The 16 bytes of a \<open>struct sockaddr_in\<close>.\<close>

definition sockaddr_bytes :: "sockaddr_in \<Rightarrow> bytes" where
  "sockaddr_bytes a = le_bytes 2 (unat (sin_family a)) @ le_bytes 2 (unat (sin_port a))
     @ le_bytes 4 (unat (sin_addr a)) @ replicate 8 NUL"

definition text_reply :: "pb_lib \<Rightarrow> bytes \<Rightarrow> bool \<Rightarrow> server \<Rightarrow> reply" where
  "text_reply pb txt success s =
     Some (Some (encodeTextResponseToIMResponseAndFree pb \<lparr>txt_msg = txt\<rparr> success), s)"

text \<open>\<open>if (!isUserLoggedIn(db, client->user)) ... "You are not logged in"\<close>, the first thing every
  handler but login does.\<close>

definition require_login :: "pb_lib \<Rightarrow> server \<Rightarrow> cref \<Rightarrow> (uref \<Rightarrow> reply) \<Rightarrow> reply" where
  "require_login pb s c k = do {
     cl \<leftarrow> client_store s c;
     live \<leftarrow> isUserLoggedIn s (c_user cl);
     if \<not> live then text_reply pb ''You are not logged in'' False s
     else (case c_user cl of None \<Rightarrow> None | Some me \<Rightarrow> k me) }"

section \<open>Sessions\<close>

definition cmd_login_impl :: "pb_lib \<Rightarrow> server \<Rightarrow> cref \<Rightarrow> LoginRequest \<Rightarrow> reply" where
  "cmd_login_impl pb s c req = do {
     (res, user, s1) \<leftarrow> login pb s (lr_username req) (lr_password req);
     if res = 0 then (case user of None \<Rightarrow> None | Some u \<Rightarrow> do {
       cl \<leftarrow> client_store s1 c;
       us \<leftarrow> users s1 u;
       let s2 = put_client c (cl\<lparr>c_user := Some u,
                  c_addr := (c_addr cl)\<lparr>sin_port := htons (ucast (lr_port req))\<rparr>\<rparr>)
                  (put_user u (us\<lparr>u_client := Some c\<rparr>) s1);
       text_reply pb (''Welcome '' @ u_username us @ ''!'') True s2 })
     else if res = 1 then
       Some (Some (encodeExitTextToIMResponse pb ''user does not exist'' False), s1)
     else if res = 3 then
       Some (Some (encodeTextToIMResponse pb ''password is wrong'' False), s1)
     else if res = 2 then
       Some (Some (encodeExitTextToIMResponse pb ''you are blocked! try again later'' False), s1)
     else if res = 4 then
       Some (Some (encodeExitTextToIMResponse pb ''another session is in place'' False), s1)
     else Some (None, s1) }"

definition cmd_logout_impl :: "pb_lib \<Rightarrow> server \<Rightarrow> cref \<Rightarrow> LogOutRequest \<Rightarrow> reply" where
  "cmd_logout_impl pb s c req = require_login pb s c (\<lambda>me. do {
     s' \<leftarrow> close_socket pb s (Some c);
     Some (None, s') })"

section \<open>Messages\<close>

definition sendMessage :: "pb_lib \<Rightarrow> server \<Rightarrow> uref \<Rightarrow> uref \<Rightarrow> bytes \<Rightarrow> (bool \<times> server) option" where
  "sendMessage pb s to_u from_u msg = do {
     h \<leftarrow> hasBlockedUser s to_u from_u;
     if h then Some (False, s)
     else do {
       fr \<leftarrow> users s from_u;
       s' \<leftarrow> send_response_to_user pb s to_u (encodeTextResponseToIMResponseAndFree pb
               \<lparr>txt_msg = u_username fr @ '': '' @ cstr msg\<rparr> True);
       Some (True, s') } }"

definition broadcast_one ::
    "pb_lib \<Rightarrow> uref \<Rightarrow> bytes \<Rightarrow> uref \<Rightarrow> bool \<times> server \<Rightarrow> (bool \<times> server) option" where
  "broadcast_one pb me msg v acc =
     (let (ok, t) = acc in
      if v = me then Some (ok, t)
      else do {
        live \<leftarrow> isUserLoggedIn t (Some v);
        if live then do {
          (b, t') \<leftarrow> sendMessage pb t v me msg;
          Some (ok \<and> b, t') }
        else Some (ok, t) })"

definition cmd_message_impl :: "pb_lib \<Rightarrow> server \<Rightarrow> cref \<Rightarrow> MessageRequest \<Rightarrow> reply" where
  "cmd_message_impl pb s c req = require_login pb s c (\<lambda>me.
     if mr_broadcast req then do {
       (ok, s') \<leftarrow> foldM (broadcast_one pb me (mr_msg req)) (db_first (udb s)) (True, s);
       if \<not> ok then text_reply pb ''Your message could not be delivered to some of the recipients.'' False s'
       else Some (None, s') }
     else (case findUser s (mr_username req) of
        None \<Rightarrow> text_reply pb ''Recipient user does not exist on server.'' False s
      | Some u \<Rightarrow> do {
          (ok, s') \<leftarrow> sendMessage pb s u me (mr_msg req);
          if \<not> ok then text_reply pb
            ''Your message couldn't be delivered because the recipient has blocked you'' False s'
          else Some (None, s') }))"

section \<open>Blocking\<close>

definition cmd_block_impl :: "pb_lib \<Rightarrow> server \<Rightarrow> cref \<Rightarrow> BlockRequest \<Rightarrow> reply" where
  "cmd_block_impl pb s c req = require_login pb s c (\<lambda>me. let name = cstr (br_username req) in
     case findUser s (br_username req) of
       None \<Rightarrow> text_reply pb (name @ '' is not present on server'') False s
     | Some u \<Rightarrow>
         if u = me then text_reply pb ''cannot block yourself'' False s
         else do {
           h \<leftarrow> hasBlockedUser s me u;
           if h then text_reply pb (name @ '' is already blocked'') False s
           else do {
             s' \<leftarrow> blockUser s me u;
             text_reply pb (name @ '' is blocked'') True s' } })"

definition cmd_unblock_impl :: "pb_lib \<Rightarrow> server \<Rightarrow> cref \<Rightarrow> UnBlockRequest \<Rightarrow> reply" where
  "cmd_unblock_impl pb s c req = require_login pb s c (\<lambda>me. let name = cstr (ubr_username req) in
     case findUser s (ubr_username req) of
       None \<Rightarrow> text_reply pb (name @ '' is not present on server'') False s
     | Some u \<Rightarrow>
         if u = me then text_reply pb ''cannot unblock yourself'' False s
         else do {
           h \<leftarrow> hasBlockedUser s me u;
           if \<not> h then text_reply pb (name @ '' is not blocked'') False s
           else do {
             s' \<leftarrow> unblockUser s me u;
             text_reply pb (name @ '' is unblocked'') True s' } })"

section \<open>Presence\<close>

text \<open>\<open>pastSeconds\<close> is a \<open>uint32_t\<close> that is passed as an \<open>int\<close>.\<close>

definition cmd_whoelse_impl :: "pb_lib \<Rightarrow> server \<Rightarrow> cref \<Rightarrow> WhoElseRequest \<Rightarrow> reply" where
  "cmd_whoelse_impl pb s c req = require_login pb s c (\<lambda>me. do {
     l \<leftarrow> (if wr_limitTime req
          then loggedInUsersInPastSeconds s (sint (wr_pastSeconds req)) (wr_currentlyOnline req) me
          else loggedInUsers s (wr_currentlyOnline req) me);
     if l = [] then text_reply pb ''No other users other than you'' False s
     else do {
       (_, str) \<leftarrow> userLinkedListToString s l [CHR 0x0A];
       txt \<leftarrow> str;
       text_reply pb (cstr txt) True s } })"

definition cmd_getip_impl :: "pb_lib \<Rightarrow> server \<Rightarrow> cref \<Rightarrow> GetIPRequest \<Rightarrow> reply" where
  "cmd_getip_impl pb s c req = require_login pb s c (\<lambda>me.
     case findUser s (giq_username req) of
       None \<Rightarrow> text_reply pb ''User is not present on server'' False s
     | Some u \<Rightarrow>
         if u = me then text_reply pb ''Cannot startprivate with yourself'' False s
         else do {
           h \<leftarrow> hasBlockedUser s u me;
           if h then text_reply pb ''Target has blocked you'' False s
           else do {
             live \<leftarrow> isUserLoggedIn s (Some u);
             if \<not> live then text_reply pb ''Target is not online'' False s
             else do {
               us \<leftarrow> users s u;
               tc \<leftarrow> u_client us;
               cl \<leftarrow> client_store s tc;
               Some (Some \<lparr>rsp_type = 3, rsp_success = True,
                           rsp_value = encodeGetIPResponseToBytes pb
                             \<lparr>gip_username = cstr (giq_username req),
                              gip_addr = sockaddr_bytes (c_addr cl)\<rparr>\<rparr>, s) } } })"

section \<open>Files\<close>

definition cmd_regfile_impl :: "pb_lib \<Rightarrow> server \<Rightarrow> cref \<Rightarrow> RegisterFileRequest \<Rightarrow> reply" where
  "cmd_regfile_impl pb s c req = require_login pb s c (\<lambda>me. let name = cstr (rfr_filename req) in
     (case addFile (file_root s) (global_chunk_id s) (rfr_filename req) (rfr_chunks req) of
        (root', gid', None) \<Rightarrow>
          text_reply pb (name @ '' already exists'') False (s\<lparr>file_root := root', global_chunk_id := gid'\<rparr>)
      | (root', gid', Some f) \<Rightarrow> do {
          cl \<leftarrow> client_store s c;
          cl' \<leftarrow> regAllFileChunk cl f;
          text_reply pb (name @ '' successfully registered'') True
            (put_client c cl' (s\<lparr>file_root := root', global_chunk_id := gid'\<rparr>)) }))"

definition cmd_regchunk_impl :: "pb_lib \<Rightarrow> server \<Rightarrow> cref \<Rightarrow> RegisterChunkRequest \<Rightarrow> reply" where
  "cmd_regchunk_impl pb s c req = require_login pb s c (\<lambda>me. let name = cstr (rcr_filename req) in
     (case findFile (file_root s) (rcr_filename req) of
        None \<Rightarrow> text_reply pb (name @ '' does not exist on server. Register it first'') False s
      | Some f \<Rightarrow> do {
          let chunks = parse_packed_uint32 (rcr_chunks req);
          cl \<leftarrow> client_store s c;
          cl' \<leftarrow> regFileChunk cl f chunks;
          text_reply pb (''Successfully registered '' @ dec (length chunks) @ '' chunks for '' @ name) True
            (put_client c cl' s) }))"

text \<open>\<open>usersWithChunks\<close>: the list and the mask of the chunks somebody online has.\<close>

fun with_chunks :: "server \<Rightarrow> trie_file \<Rightarrow> bool list \<Rightarrow> nat \<Rightarrow> uref list \<Rightarrow> bool list
    \<Rightarrow> (uref list \<times> bool list) option" where
  "with_chunks s f wanted target [] has = Some ([], has)"
| "with_chunks s f wanted target (v # vs) has = do {
     us \<leftarrow> users s v;
     live \<leftarrow> isUserLoggedIn s (Some v);
     if live then do {
       c \<leftarrow> u_client us;
       cl \<leftarrow> client_store s c;
       let rh = clientHasFileChunks cl f wanted has;
       (l, h) \<leftarrow> with_chunks s f wanted target vs (snd rh);
       Some (if fst rh = target then v # l else l, h) }
     else with_chunks s f wanted target vs has }"

definition usersWithChunks :: "server \<Rightarrow> trie_file \<Rightarrow> bool list \<Rightarrow> bool list \<Rightarrow> nat
    \<Rightarrow> (uref list \<times> bool list) option" where
  "usersWithChunks s f wanted has target = with_chunks s f wanted target (db_first (udb s)) has"

definition wanted_mask :: "u32 \<Rightarrow> u32 list \<Rightarrow> bool list" where
  "wanted_mask n chunks =
     fold (\<lambda>x m. if x < n then m[unat x := True] else m) chunks (replicate (unat n) False)"

definition cmd_searchfile_impl :: "pb_lib \<Rightarrow> server \<Rightarrow> cref \<Rightarrow> SearchFileRequest \<Rightarrow> reply" where
  "cmd_searchfile_impl pb s c req = require_login pb s c (\<lambda>me. let name = cstr (sfr_filename req) in
     (case findFile (file_root s) (sfr_filename req) of
        None \<Rightarrow> text_reply pb (name @ '' is not available on server (not yet registered).'') False s
      | Some f \<Rightarrow> do {
          let chunks = parse_packed_uint32 (sfr_chunks req);
          let target = (if chunks = [] then 1 else 2);
          let descr = (if chunks = [] then ''any'' else ''your requested'');
          (l, has) \<leftarrow> usersWithChunks s f (wanted_mask (f_chunks f) chunks)
                        (replicate (unat (f_chunks f)) False) target;
          (_, str) \<leftarrow> userLinkedListToString s l [CHR 0x0A];
          let haschunks = word_of_nat (length (filter id has));
          text_reply pb
            (if haschunks = f_chunks f then
               name @ '' is registered on server with '' @ dec (unat (f_chunks f)) @
               '' chunks. All chunks are currently available. Below are users with '' @ descr @
               '' chunks:'' @ [CHR 0x0A] @ fmt_s str @ [CHR 0x0A] @
               ''After downloading all chunks, cd into your clientdata directory and run `cat '' @
               name @ ''/{0..'' @ dec (unat (f_chunks f - 1)) @ ''} > '' @ name @ ''.merged`''
             else
               name @ '' is registered on server with '' @ dec (unat (f_chunks f)) @
               '' chunks. Only '' @ dec (unat haschunks) @
               '' chunks are available (registered by currently online clients). Below are users with '' @
               descr @ '' chunks:'' @ [CHR 0x0A] @ fmt_s str)
            True s }))"

section \<open>The table\<close>

record im_command =
  cmd_type :: u32
  cmd_run :: "pb_lib \<Rightarrow> server \<Rightarrow> cref \<Rightarrow> bytes \<Rightarrow> reply"

text \<open>\<open>run\<close> behind its \<open>parser\<close>: what \<open>parse_command\<close> calls for an entry.\<close>

definition entry :: "u32 \<Rightarrow> (pb_lib \<Rightarrow> bytes \<Rightarrow> ('r \<times> nat) option)
    \<Rightarrow> (pb_lib \<Rightarrow> server \<Rightarrow> cref \<Rightarrow> 'r \<Rightarrow> reply) \<Rightarrow> im_command" where
  "entry t parse run = \<lparr>cmd_type = t, cmd_run = (\<lambda>pb s c bs. do {
     (req, _) \<leftarrow> parse pb bs; run pb s c req })\<rparr>"

definition enabled_commands :: "im_command list" where
  "enabled_commands =
     [entry 1 parseLoginRequestFromBytes cmd_login_impl,
      entry 2 parseMessageRequestFromBytes cmd_message_impl,
      entry 4 parseBlockRequestFromBytes cmd_block_impl,
      entry 5 parseUnBlockRequestFromBytes cmd_unblock_impl,
      entry 6 parseLogOutRequestFromBytes cmd_logout_impl,
      entry 3 parseWhoElseRequestFromBytes cmd_whoelse_impl,
      entry 7 parseGetIPRequestFromBytes cmd_getip_impl,
      entry 8 parseRegisterFileRequestFromBytes cmd_regfile_impl,
      entry 9 parseRegisterChunkRequestFromBytes cmd_regchunk_impl,
      entry 10 parseSearchFileRequestFromBytes cmd_searchfile_impl]"

end
