(* ===== verification/Network.thy ===== *)
theory Network
  imports Session
begin

text \<open>
  The receiving and connection half of \<open>lib/socket.c\<close>, shared by both programs: accepting a
  connection, the receive loop over a handler that consumes one message at a time, flushing a
  buffer, and finding a connection by its descriptor.  What the kernel does (how many bytes
  \<open>recv\<close> delivers or \<open>send\<close> takes, which descriptor \<open>accept\<close> returns) is an argument.
\<close>

section \<open>Connections\<close>

definition MAX_CLIENTS :: nat where
  "MAX_CLIENTS = 256"

definition new_client :: "int \<Rightarrow> sockaddr_in \<Rightarrow> im_client" where
  "new_client fd addr = \<lparr>c_fd = fd, c_user = None,
     c_outbuffer = init_buffer OUT_BUFFER_DEFAULT_SIZE, c_inbuffer = init_buffer MSG_LIMIT,
     c_locked = False, c_close_callback = None, c_close_prehook = None, c_addr = addr,
     c_nchunks = 0, c_chunkids = []\<rparr>"

text \<open>\<open>accept\<close> has opened the descriptor; registering one that is still registered fails.\<close>

definition im_connection_accept ::
    "'a proc_scheme \<Rightarrow> int \<Rightarrow> sockaddr_in \<Rightarrow> cref \<times> 'a proc_scheme" where
  "im_connection_accept s fd addr =
     (let c = next_client s in
      (c, s\<lparr>client_store := (client_store s)(c \<mapsto> new_client fd addr), next_client := Suc c,
            epoll := (if epoll s fd = None then (epoll s)(fd \<mapsto> (True, False)) else epoll s),
            open_fds := insert fd (open_fds s)\<rparr>))"

text \<open>The search loop of \<open>pick_client\<close>: outer \<open>None\<close> is a read through a dangling entry.\<close>

fun find_fd :: "'a proc_scheme \<Rightarrow> cref list \<Rightarrow> int \<Rightarrow> nat option option" where
  "find_fd s [] fd = Some None"
| "find_fd s (c # cs) fd = do {
     cl \<leftarrow> client_store s c;
     if c_fd cl = fd then Some (Some 0)
     else do { r \<leftarrow> find_fd s cs fd; Some (map_option Suc r) } }"

definition free_client :: "'a proc_scheme \<Rightarrow> cref \<Rightarrow> 'a proc_scheme" where
  "free_client s c = s\<lparr>client_store := (client_store s)(c := None)\<rparr>"

text \<open>\<open>pick_client(..., false)\<close>.\<close>

definition lookup_client :: "'a proc_scheme \<Rightarrow> int \<Rightarrow> nat option option" where
  "lookup_client s fd = find_fd s (clients s) fd"

text \<open>\<open>clients[pick_client(clients, fd, &nclients, true)] = im_connection_accept(...)\<close>: the entry of
  a descriptor that is used again is freed and replaced, another one is appended, and behind the
  last of the \<open>MAX_CLIENTS\<close> entries the write is out of bounds.\<close>

definition add_client :: "'a proc_scheme \<Rightarrow> int \<Rightarrow> sockaddr_in \<Rightarrow> (cref \<times> 'a proc_scheme) option" where
  "add_client s fd addr = do {
     r \<leftarrow> lookup_client s fd;
     (case r of
        Some i \<Rightarrow>
          (let (c, s2) = im_connection_accept (free_client s (clients s ! i)) fd addr
           in Some (c, s2\<lparr>clients := (clients s2)[i := c]\<rparr>))
      | None \<Rightarrow>
          if length (clients s) < MAX_CLIENTS
          then (let (c, s2) = im_connection_accept s fd addr
                in Some (c, s2\<lparr>clients := clients s2 @ [c]\<rparr>))
          else None) }"

section \<open>Receiving\<close>

datatype recv_result = Recv_Error | Recv bytes

type_synonym 'a handler =
  "'a proc_scheme \<Rightarrow> cref \<Rightarrow> bytes \<Rightarrow> ('a proc_scheme \<times> nat \<times> IMResponse option) option"

definition respond :: "pb_lib \<Rightarrow> cref \<Rightarrow> IMResponse option \<Rightarrow> 'a proc_scheme \<Rightarrow> 'a proc_scheme option" where
  "respond pb c rsp s = (case rsp of None \<Rightarrow> Some s | Some r \<Rightarrow> send_response_to_client pb s c r)"

text \<open>The \<open>while\<close> loop of \<open>im_receive_command\<close>.  Offsets outside the memory are a read out of
  bounds.\<close>

partial_function (option) recv_loop ::
    "pb_lib \<Rightarrow> 'a handler \<Rightarrow> cref \<Rightarrow> 'a proc_scheme \<Rightarrow> 'a proc_scheme option" where
  "recv_loop pb handler c s =
     Option.bind (client_store s c) (\<lambda>cl.
       let b = c_inbuffer cl in
       if buffer_start b = buffer_end b then Some s
       else if buffer_end b < buffer_start b \<or> buffer_capacity b < buffer_end b then None
       else Option.bind (handler s c (pending b)) (\<lambda>r.
         Option.bind (respond pb c (snd (snd r)) (fst r)) (\<lambda>s2.
           if fst (snd r) = 0 then Some s2
           else Option.bind (client_store s2 c) (\<lambda>cl2.
             recv_loop pb handler c
               (put_client c (cl2\<lparr>c_inbuffer := advance_start (fst (snd r)) (c_inbuffer cl2)\<rparr>) s2)))))"

definition im_receive_command ::
    "pb_lib \<Rightarrow> 'a handler \<Rightarrow> 'a proc_scheme \<Rightarrow> cref \<Rightarrow> recv_result \<Rightarrow> 'a proc_scheme option" where
  "im_receive_command pb handler s c rx = do {
     cl \<leftarrow> client_store s c;
     let b = recv_prepare (c_inbuffer cl);
     (case rx of
        Recv_Error \<Rightarrow> recv_loop pb handler c (put_client c (cl\<lparr>c_inbuffer := recv_failed b\<rparr>) s)
      | Recv data \<Rightarrow>
          if data = [] then close_socket pb (put_client c (cl\<lparr>c_inbuffer := b\<rparr>) s) (Some c)
          else recv_loop pb handler c (put_client c (cl\<lparr>c_inbuffer := recv_store b data\<rparr>) s)) }"

section \<open>Flushing\<close>

datatype send_result = Send_Error | Sent nat

text \<open>\<open>im_send_buffer\<close>: what went out, the buffer, and the interest set, in which \<open>EPOLLOUT\<close> is
  dropped once this buffer is empty.\<close>

definition im_send_buffer :: "int \<Rightarrow> im_buffer \<Rightarrow> send_result \<Rightarrow> (int \<Rightarrow> (bool \<times> bool) option)
    \<Rightarrow> bytes \<times> im_buffer \<times> (int \<Rightarrow> (bool \<times> bool) option)" where
  "im_send_buffer fd b res ep =
     (let len = length (pending b) in
      if len > 0 then
        (case res of
           Send_Error \<Rightarrow> ([], b, ep)
         | Sent n \<Rightarrow> (fst (send_take n b), snd (send_take n b),
                      if len - n = 0 then epoll_mod fd (True, False) ep else ep))
      else ([], send_compact b, epoll_mod fd (True, False) ep))"

section \<open>Events\<close>

text \<open>One \<open>epoll_event\<close>, with the results of the system calls its handling makes.\<close>

record net_event =
  ev_fd :: int
  ev_err :: bool
  ev_in :: bool
  ev_out :: bool
  ev_accept :: "(int \<times> sockaddr_in) option"
  ev_recv :: recv_result
  ev_sent :: send_result
  ev_sent_user :: send_result

end
