(* ===== verification/Server.thy ===== *)
theory Server
  imports Commands Network
begin

text \<open>
  \<open>serverlib/command.c\<close> and \<open>server.c\<close>: dispatching a request, the body of the network thread's event
  loop, the sweep of the time thread, and the start-up.
\<close>

section \<open>Dispatch\<close>

definition touch :: "uref \<Rightarrow> server \<Rightarrow> server option" where
  "touch u s = do { us \<leftarrow> users s u; Some (put_user u (us\<lparr>u_last_active := now s\<rparr>) s) }"

definition parse_command :: "pb_lib \<Rightarrow> server \<Rightarrow> cref \<Rightarrow> bytes \<Rightarrow> (server \<times> nat \<times> IMResponse option) option" where
  "parse_command pb s c cmdstr =
     (case ac_decode_protobuf_msg_with_n_fields pb cmdstr 2 of
        None \<Rightarrow> Some (s, 0, None)
      | Some (msg, ret) \<Rightarrow> do {
          imreq \<leftarrow> parseIMRequestFromProtobufMsg pb msg;
          (case List.find (\<lambda>cmd. cmd_type cmd = imq_type imreq) enabled_commands of
             None \<Rightarrow> Some (s, ret, None)
           | Some cmd \<Rightarrow> do {
               (rsp, s1) \<leftarrow> cmd_run cmd pb s c (imq_value imreq);
               cl \<leftarrow> client_store s1 c;
               live \<leftarrow> isUserLoggedIn s1 (c_user cl);
               s2 \<leftarrow> (case (live, c_user cl) of (True, Some u) \<Rightarrow> touch u s1 | _ \<Rightarrow> Some s1);
               Some (s2, ret, rsp) }) })"

section \<open>The network thread\<close>

text \<open>The \<open>EPOLLOUT\<close> branch, with the connection's mutex taken and released around it: the output
  buffer first, then what was kept for the user.\<close>

definition flush_client :: "server \<Rightarrow> cref \<Rightarrow> send_result \<Rightarrow> send_result \<Rightarrow> (bytes \<times> server) option" where
  "flush_client s c r1 r2 = do {
     cl \<leftarrow> client_store s c;
     if c_locked cl then None
     else do {
       let t = im_send_buffer (c_fd cl) (c_outbuffer cl) r1 (epoll s);
       let s1 = (put_client c (cl\<lparr>c_outbuffer := fst (snd t)\<rparr>) s)\<lparr>epoll := snd (snd t)\<rparr>;
       (case c_user cl of
          None \<Rightarrow> Some (fst t, s1)
        | Some u \<Rightarrow> do {
            us \<leftarrow> users s1 u;
            if int32 (u_last_active us + login_timeout (udb s1)) > now s1 then
              (let t2 = im_send_buffer (c_fd cl) (u_buffer us) r2 (epoll s1)
               in Some (fst t @ fst t2,
                    (put_user u (us\<lparr>u_buffer := fst (snd t2)\<rparr>) s1)\<lparr>epoll := snd (snd t2)\<rparr>))
            else Some (fst t, s1) }) } }"

text \<open>The body of the \<open>for\<close> loop over the returned events: whether it falls through to the next
  event (\<open>break\<close> leaves the loop), what was written to which descriptor, and the state.\<close>

definition handle_event :: "pb_lib \<Rightarrow> server \<Rightarrow> net_event \<Rightarrow> (bool \<times> (int \<times> bytes) list \<times> server) option" where
  "handle_event pb s ev =
     (if ev_err ev then do {
        j \<leftarrow> lookup_client s (ev_fd ev);
        (case j of None \<Rightarrow> Some (False, [], s)
         | Some i \<Rightarrow> do { s' \<leftarrow> close_socket pb s (Some (clients s ! i)); Some (True, [], s') }) }
      else if ev_fd ev = masterfd s then
        (case ev_accept ev of None \<Rightarrow> Some (True, [], s)
         | Some (fd, addr) \<Rightarrow> do { (c, s') \<leftarrow> add_client s fd addr; Some (True, [], s') })
      else if ev_in ev then do {
        j \<leftarrow> lookup_client s (ev_fd ev);
        (case j of None \<Rightarrow> Some (False, [], s)
         | Some i \<Rightarrow> do {
             s' \<leftarrow> im_receive_command pb (parse_command pb) s (clients s ! i) (ev_recv ev);
             Some (False, [], s') }) }
      else if ev_out ev then do {
        j \<leftarrow> lookup_client s (ev_fd ev);
        (case j of None \<Rightarrow> Some (False, [], s)
         | Some i \<Rightarrow> do {
             (out, s') \<leftarrow> flush_client s (clients s ! i) (ev_sent ev) (ev_sent_user ev);
             Some (False, [(ev_fd ev, out)], s') }) }
      else Some (True, [], s))"

fun handle_events :: "pb_lib \<Rightarrow> net_event list \<Rightarrow> server \<Rightarrow> ((int \<times> bytes) list \<times> server) option" where
  "handle_events pb [] s = Some ([], s)"
| "handle_events pb (ev # evs) s = do {
     (go, out, s1) \<leftarrow> handle_event pb s ev;
     if go then do { (out', s2) \<leftarrow> handle_events pb evs s1; Some (out @ out', s2) }
     else Some (out, s1) }"

section \<open>The time thread\<close>

definition idle_response :: "pb_lib \<Rightarrow> IMResponse" where
  "idle_response pb = encodeExitTextToIMResponse pb
     ''You haven't issued any command for a while. You are automatically logged off.'' False"

definition time_check :: "pb_lib \<Rightarrow> cref \<Rightarrow> server \<Rightarrow> server option" where
  "time_check pb c s = do {
     cl \<leftarrow> client_store s c;
     (case c_user cl of
        None \<Rightarrow> Some s
      | Some u \<Rightarrow> do {
          live \<leftarrow> isUserLoggedIn s (Some u);
          if live then Some s
          else do {
            s1 \<leftarrow> logoutUser pb s (Some u);
            send_response_to_client pb s1 c (idle_response pb) } }) }"

definition time_thread_round :: "pb_lib \<Rightarrow> server \<Rightarrow> server option" where
  "time_thread_round pb s = foldM (time_check pb) (clients s) s"

section \<open>Start-up\<close>

definition blank_server :: "int \<Rightarrow> int \<Rightarrow> server" where
  "blank_server mfd t = \<lparr>is_server = True, users = (\<lambda>_. None), next_user = 0,
     client_store = (\<lambda>_. None), next_client = 0, udb = newUserDb 0 0, clients = [],
     epoll = (\<lambda>_. None), open_fds = {}, now = t, stdout = [], fatal = False,
     file_root = newTrieFileNode, global_chunk_id = 0, masterfd = mfd\<rparr>"

text \<open>\<open>main\<close> up to the start of the threads: the user database from \<open>credentials.txt\<close>, an empty file
  trie, and the listening socket registered.\<close>

definition server_start :: "bytes \<Rightarrow> int \<Rightarrow> int \<Rightarrow> int \<Rightarrow> int \<Rightarrow> server option" where
  "server_start credentials bd lt mfd t = do {
     s \<leftarrow> buildUserDb credentials bd lt (blank_server mfd t);
     Some (s\<lparr>file_root := newTrieFileNode, epoll := (epoll s)(mfd \<mapsto> (True, False)),
             open_fds := insert mfd (open_fds s)\<rparr>) }"

end
