(* ===== verification/Handlers.thy ===== *)
theory Handlers
  imports Commands
begin

text \<open>
  What the handlers of \<open>serverlib/commands/\<close> do.  The invariant \<open>srv_inv\<close> of the server's state joins
  the heap invariant with what the connection table promises; every handler keeps it and returns,
  and each has its behaviour stated branch by branch.  \<open>cmd_login_impl\<close> keeps it when the connection
  is not logged in yet and the user is not linked to another one, which the code does not check.
\<close>

section \<open>The invariant of the server\<close>

definition conns_ok :: "'a proc_scheme \<Rightarrow> bool" where
  "conns_ok s \<longleftrightarrow> set (clients s) = dom (client_store s) \<and> distinct (clients s)
     \<and> (\<forall>c \<in> dom (client_store s). c < next_client s)
     \<and> (\<forall>c d k l. client_store s c = Some k \<longrightarrow> client_store s d = Some l \<longrightarrow> c_fd k = c_fd l \<longrightarrow> c = d)
     \<and> (\<forall>c k. client_store s c = Some k \<longrightarrow> c_user k \<noteq> None \<longrightarrow> c_fd k \<in> open_fds s)"

lemma conns_okD:
  assumes "conns_ok s"
  shows "set (clients s) = dom (client_store s)" "distinct (clients s)"
    "c \<in> dom (client_store s) \<Longrightarrow> c < next_client s"
    "client_store s c = Some k \<Longrightarrow> client_store s d = Some l \<Longrightarrow> c_fd k = c_fd l \<Longrightarrow> c = d"
    "client_store s c = Some k \<Longrightarrow> c_user k = Some u \<Longrightarrow> c_fd k \<in> open_fds s"
  using assms unfolding conns_ok_def by auto

definition srv_inv :: "'a proc_scheme \<Rightarrow> bool" where
  "srv_inv s \<longleftrightarrow> heap_inv {} s \<and> no_hooks s \<and> conns_ok s"

lemma srv_invD:
  assumes "srv_inv s"
  shows "heap_inv {} s" "no_hooks s" "conns_ok s" "is_server s" "db_ok s"
  using assms by (auto simp: srv_inv_def no_hooks_def heap_inv_def)

lemma frame_client_fields:
  "frame_client k l \<Longrightarrow> c_fd l = c_fd k \<and> c_close_prehook l = c_close_prehook k
     \<and> c_close_callback l = c_close_callback k \<and> c_addr l = c_addr k
     \<and> c_nchunks l = c_nchunks k \<and> c_chunkids l = c_chunkids k \<and> c_inbuffer l = c_inbuffer k"
  by (cases k; cases l) (auto simp: frame_client_def)

lemma frame_user_fields:
  "frame_user x y \<Longrightarrow> u_username y = u_username x \<and> u_password y = u_password x
     \<and> u_last_active y = u_last_active x \<and> u_blocked y = u_blocked x \<and> u_attempts y = u_attempts x
     \<and> u_last_blocked y = u_last_blocked x \<and> u_last_logged_in y = u_last_logged_in x"
  by (cases x; cases y) (auto simp: frame_user_def)

lemma conns_ok_frame:
  assumes f: "net_frame s t" and s: "conns_ok s"
    and o: "\<And>c k u. client_store t c = Some k \<Longrightarrow> c_user k = Some u \<Longrightarrow> c_fd k \<in> open_fds t"
  shows "conns_ok t"
proof -
  have "clients t = clients s" "next_client t = next_client s"
    using f by (simp_all add: net_frame_def)
  moreover have "c = d" if kl: "client_store t c = Some k" "client_store t d = Some l" "c_fd k = c_fd l" for c d k l
  proof -
    obtain k' where k': "client_store s c = Some k'" "frame_client k' k"
      using f kl(1) by (rule net_frame_client_back)
    obtain l' where l': "client_store s d = Some l'" "frame_client l' l"
      using f kl(2) by (rule net_frame_client_back)
    from k'(2) l'(2) kl(3) have "c_fd k' = c_fd l'" by (simp add: frame_client_fields)
    with conns_okD(4) [OF s k'(1) l'(1)] show ?thesis by simp
  qed
  ultimately show ?thesis
    using conns_okD(1-3) [OF s] net_frame_dom(2) [OF f] o by (auto simp: conns_ok_def)
qed

lemma srv_inv_buffers:
  assumes "srv_inv s" and "buffers_only s t" and "heap_inv {} t"
  shows "srv_inv t"
proof -
  have "c_fd k \<in> open_fds t" if k: "client_store t c = Some k" "c_user k = Some u" for c k u
  proof -
    from assms(2) k(1) obtain l b where l: "client_store s c = Some l" "k = l\<lparr>c_outbuffer := b\<rparr>"
      by (rule buffers_only_client_back)
    with k(2) conns_okD(5) [OF srv_invD(3) [OF assms(1)] l(1)] show ?thesis
      using buffers_only_fields(7) [OF assms(2)] by simp
  qed
  with conns_ok_frame [OF net_frame_buffers [OF assms(2)] srv_invD(3) [OF assms(1)]]
    no_hooks_buffers_only [OF assms(2) srv_invD(2) [OF assms(1)]] assms(3)
  show ?thesis by (auto simp: srv_inv_def)
qed

lemma conns_ok_put_user [simp]: "conns_ok (put_user u y s) = conns_ok s"
  by (simp add: conns_ok_def heap_simps)

lemma no_hooks_put_user [simp]: "no_hooks (put_user u y s) = no_hooks s"
  by (simp add: no_hooks_def heap_simps)

lemma srv_inv_put_user:
  assumes "srv_inv s" and "users s u = Some x" and "user_ok s u y"
    and "u_username y = u_username x" and "u_client y = u_client x"
  shows "srv_inv (put_user u y s)"
  using assms put_user_inv [OF srv_invD(1) [OF assms(1)] assms(2-5)] by (simp add: srv_inv_def)

lemma conns_ok_put_client:
  assumes s: "conns_ok s" and c: "client_store s c = Some cl" and fd: "c_fd k = c_fd cl"
    and u: "c_user k \<noteq> None \<longrightarrow> c_fd cl \<in> open_fds s"
  shows "conns_ok (put_client c k s)"
proof -
  have "dom (client_store (put_client c k s)) = dom (client_store s)"
    using c by (auto simp: heap_simps)
  then show ?thesis
    using conns_okD [OF s] c fd u unfolding conns_ok_def
    by (simp add: heap_simps split: if_splits) (metis fd c)
qed

lemma no_hooks_put_client:
  assumes "no_hooks s" and "client_store s c = Some cl"
    and "c_close_prehook k = c_close_prehook cl" and "c_close_callback k = c_close_callback cl"
  shows "no_hooks (put_client c k s)"
  using assms by (auto simp: no_hooks_def heap_simps)

lemma srv_inv_put_client:
  assumes "srv_inv s" and "client_store s c = Some cl" and "client_ok {} s c k"
    and "c_user k = c_user cl" and "c_fd k = c_fd cl"
    and "c_close_prehook k = c_close_prehook cl" and "c_close_callback k = c_close_callback cl"
  shows "srv_inv (put_client c k s)"
  unfolding srv_inv_def
proof (intro conjI)
  show "heap_inv {} (put_client c k s)"
    using srv_invD(1) [OF assms(1)] assms(2-4) by (rule put_client_inv)
  show "no_hooks (put_client c k s)"
    using srv_invD(2) [OF assms(1)] assms(2,6,7) by (rule no_hooks_put_client)
  show "conns_ok (put_client c k s)"
    using srv_invD(3) [OF assms(1)] assms(2,5)
    by (rule conns_ok_put_client) (use assms conns_okD(5) [OF srv_invD(3) [OF assms(1)] assms(2)] in auto)
qed

lemma srv_inv_files [simp]:
  "srv_inv ((s :: server)\<lparr>file_root := r, global_chunk_id := g\<rparr>) = srv_inv s"
  by (simp add: srv_inv_def no_hooks_def conns_ok_def
      heap_inv_cong [of "s\<lparr>file_root := r, global_chunk_id := g\<rparr>" s])

lemma srv_inv_root [simp]: "srv_inv ((s :: server)\<lparr>file_root := r\<rparr>) = srv_inv s"
  using srv_inv_files [where s = s and r = r and g = "global_chunk_id s"] by (simp del: srv_inv_files)

section \<open>Closing\<close>

lemma close_socket_inv:
  assumes inv: "srv_inv s" and cl: "client_store s c = Some cl"
  shows "returns (close_socket pb s (Some c)) (\<lambda>t. srv_inv t \<and> closed_from c s t \<and> net_frame s t)"
  using close_socket_spec [OF srv_invD(1,2) [OF inv] cl, of pb]
proof (rule returns_mono)
  fix t assume "heap_inv {} t \<and> no_hooks t \<and> closed_from c s t \<and> net_frame s t
    \<and> (case c_user cl of None \<Rightarrow> users t = users s \<and> (\<forall>d. d \<noteq> c \<longrightarrow> client_store t d = client_store s d)
       | Some u \<Rightarrow> (\<exists>x. users s u = Some x \<and> users t = (users s)(u \<mapsto> x\<lparr>u_client := None\<rparr>)
           \<and> (\<forall>d. cout t d = cout_told (hears s u) (logout_notice pb x) s d)
           \<and> (\<forall>v. outbox t v = (if v = u then pending (u_buffer x)
                 else if hears s u v then outbox s v @ logout_notice pb x else outbox s v))))"
  then have t: "heap_inv {} t" "no_hooks t" "closed_from c s t" "net_frame s t" by auto
  have "c_fd k \<in> open_fds t" if k: "client_store t d = Some k" "c_user k = Some u" for d k u
  proof -
    obtain l where l: "client_store s d = Some l" "frame_client l k"
      using t(4) k(1) by (rule net_frame_client_back)
    have "d \<noteq> c" using t(3) cl k by (auto simp: closed_from_def)
    moreover have "c_user l = Some u" using l(2) k(2) by (auto simp: frame_client_def)
    ultimately show ?thesis
      using l t(3) cl conns_okD(4) [OF srv_invD(3) [OF inv] l(1) cl]
        conns_okD(5) [OF srv_invD(3) [OF inv] l(1)] frame_client_fields [OF l(2)]
      by (auto simp: closed_from_def)
  qed
  with t show "srv_inv t \<and> closed_from c s t \<and> net_frame s t"
    using conns_ok_frame [OF t(4) srv_invD(3) [OF inv]] by (auto simp: srv_inv_def)
qed

section \<open>Who may ask\<close>

text \<open>Connection \<open>c\<close> carries the live session of user \<open>me\<close>.\<close>

definition logged :: "'a proc_scheme \<Rightarrow> cref \<Rightarrow> uref \<Rightarrow> user_t \<Rightarrow> bool" where
  "logged s c me x \<longleftrightarrow> (\<exists>cl. client_store s c = Some cl \<and> c_user cl = Some me)
     \<and> users s me = Some x \<and> session_live s x"

lemma require_login_ok: "logged s c me x \<Longrightarrow> require_login pb s c k = k me"
  by (auto simp: require_login_def logged_def heap_simps)

lemma require_login_no:
  assumes "srv_inv s" and "client_store s c = Some cl" and "\<nexists>me x. logged s c me x"
  shows "require_login pb s c k = text_reply pb ''You are not logged in'' False s"
proof (cases "c_user cl")
  case None
  with assms show ?thesis by (simp add: require_login_def heap_simps)
next
  case (Some u)
  with heap_inv_client(5) [OF srv_invD(1) [OF assms(1)] assms(2), of u] obtain x where
    x: "users s u = Some x" by auto
  with Some assms(2,3) have "\<not> session_live s x" by (auto simp: logged_def)
  with x Some assms(2) show ?thesis by (simp add: require_login_def heap_simps)
qed

lemma require_login_returns:
  assumes "srv_inv s" and "client_store s c = Some cl"
    and "Q (Some (encodeTextResponseToIMResponseAndFree pb \<lparr>txt_msg = ''You are not logged in''\<rparr> False), s)"
    and "\<And>me x. logged s c me x \<Longrightarrow> returns (k me) Q"
  shows "returns (require_login pb s c k) Q"
proof (cases "\<exists>me x. logged s c me x")
  case True
  then obtain me x where "logged s c me x" by blast
  with assms(4) show ?thesis by (simp add: require_login_ok)
next
  case False
  with assms(3) require_login_no [OF assms(1,2) False, of pb k] show ?thesis
    by (simp add: text_reply_def)
qed

section \<open>Messages\<close>

definition message_bytes :: "pb_lib \<Rightarrow> user_t \<Rightarrow> bytes \<Rightarrow> bytes" where
  "message_bytes pb x msg = encodeIMResponseToBytes pb (encodeTextResponseToIMResponseAndFree pb
     \<lparr>txt_msg = u_username x @ '': '' @ cstr msg\<rparr> True)"

lemma logged_user:
  assumes "srv_inv s" and "logged s c me x"
  shows "users s me = Some x" "session_live s x" "u_client x = Some c"
proof -
  show u: "users s me = Some x" "session_live s x" using assms(2) by (auto simp: logged_def)
  obtain cl where "client_store s c = Some cl" "c_user cl = Some me"
    using assms(2) by (auto simp: logged_def)
  with heap_inv_client(5) [OF srv_invD(1) [OF assms(1)]] u show "u_client x = Some c" by fastforce
qed

text \<open>A message to one user: refused when that user has blocked the sender, appended to the outbox
  otherwise, and nothing else changes.\<close>

lemma sendMessage_spec:
  assumes inv: "heap_inv L s" and x: "users s me = Some x" and y: "users s u = Some y"
  shows "me \<in> set (u_blocked y) \<Longrightarrow> sendMessage pb s u me msg = Some (False, s)"
    "me \<notin> set (u_blocked y) \<Longrightarrow> returns (sendMessage pb s u me msg)
       (\<lambda>(ok, t). ok \<and> heap_inv L t \<and> sent_user u (message_bytes pb x msg) s t)"
  using send_response_to_user_spec [OF inv y, of pb "encodeTextResponseToIMResponseAndFree pb
     \<lparr>txt_msg = u_username x @ '': '' @ cstr msg\<rparr> True"] x y
  by (auto simp: sendMessage_def heap_simps message_bytes_def elim!: returns_mono)

lemma cmd_message_direct:
  assumes inv: "srv_inv s" and me: "logged s c me x" and b: "\<not> mr_broadcast req"
  shows "findUser s (mr_username req) = None \<Longrightarrow> cmd_message_impl pb s c req =
      text_reply pb ''Recipient user does not exist on server.'' False s"
    "findUser s (mr_username req) = Some u \<Longrightarrow> users s u = Some y \<Longrightarrow> me \<in> set (u_blocked y) \<Longrightarrow>
      cmd_message_impl pb s c req = text_reply pb
        ''Your message couldn't be delivered because the recipient has blocked you'' False s"
    "findUser s (mr_username req) = Some u \<Longrightarrow> users s u = Some y \<Longrightarrow> me \<notin> set (u_blocked y) \<Longrightarrow>
      returns (cmd_message_impl pb s c req)
        (\<lambda>(rsp, t). rsp = None \<and> srv_inv t \<and> sent_user u (message_bytes pb x (mr_msg req)) s t)"
proof -
  note run = cmd_message_impl_def require_login_ok [OF me]
  note x = logged_user(1) [OF inv me]
  show "findUser s (mr_username req) = None \<Longrightarrow> cmd_message_impl pb s c req =
      text_reply pb ''Recipient user does not exist on server.'' False s"
    using b by (simp add: run)
  assume u: "findUser s (mr_username req) = Some u" "users s u = Some y"
  note send = sendMessage_spec [OF srv_invD(1) [OF inv] x u(2), of pb "mr_msg req"]
  show "me \<in> set (u_blocked y) \<Longrightarrow>
      cmd_message_impl pb s c req = text_reply pb
        ''Your message couldn't be delivered because the recipient has blocked you'' False s"
    using b u send(1) by (simp add: run)
  assume "me \<notin> set (u_blocked y)"
  from send(2) [OF this] obtain t where
    t: "sendMessage pb s u me (mr_msg req) = Some (True, t)" "heap_inv {} t"
      "sent_user u (message_bytes pb x (mr_msg req)) s t" by (auto elim!: returnsE)
  moreover have "srv_inv t" using inv _ t(2) by (rule srv_inv_buffers) (use t(3) in \<open>simp add: sent_user_def\<close>)
  ultimately show "returns (cmd_message_impl pb s c req)
        (\<lambda>(rsp, t). rsp = None \<and> srv_inv t \<and> sent_user u (message_bytes pb x (mr_msg req)) s t)"
    using b u by (simp add: run)
qed

text \<open>Who gets a broadcast of \<open>me\<close>: everybody else online who has not blocked \<open>me\<close>; and who is
  passed over.\<close>

definition gets_broadcast :: "'a proc_scheme \<Rightarrow> uref \<Rightarrow> uref \<Rightarrow> bool" where
  "gets_broadcast s me v \<longleftrightarrow> v \<noteq> me \<and> (\<exists>y. users s v = Some y \<and> session_live s y \<and> me \<notin> set (u_blocked y))"

definition refuses_broadcast :: "'a proc_scheme \<Rightarrow> uref \<Rightarrow> uref \<Rightarrow> bool" where
  "refuses_broadcast s me v \<longleftrightarrow> v \<noteq> me \<and> (\<exists>y. users s v = Some y \<and> session_live s y \<and> me \<in> set (u_blocked y))"

lemma broadcast_one_spec:
  assumes inv: "heap_inv L t" and f: "buffers_only s t" and x: "users s me = Some x"
    and y: "users s v = Some y"
  shows "returns (broadcast_one pb me msg v (ok, t)) (\<lambda>(ok', t'). heap_inv L t' \<and>
    ok' = (ok \<and> \<not> refuses_broadcast s me v) \<and>
    (if gets_broadcast s me v then sent_user v (message_bytes pb x msg) t t' else t' = t))"
proof -
  obtain b where xt: "users t me = Some (x\<lparr>u_buffer := b\<rparr>)" using f x by (rule buffers_only_user)
  obtain b' where yt: "users t v = Some (y\<lparr>u_buffer := b'\<rparr>)" using f y by (rule buffers_only_user)
  have live: "session_live t (y\<lparr>u_buffer := b'\<rparr>) = session_live s y" using f by (simp add: buffers_only_live)
  have mb: "message_bytes pb (x\<lparr>u_buffer := b\<rparr>) msg = message_bytes pb x msg"
    by (simp add: message_bytes_def)
  note send = sendMessage_spec [OF inv xt yt, of pb msg, unfolded mb, simplified]
  have def: "broadcast_one pb me msg v (ok, t) = (if v = me \<or> \<not> session_live s y then Some (ok, t)
      else sendMessage pb t v me msg \<bind> (\<lambda>(b, t'). Some (ok \<and> b, t')))"
    using yt live by (simp add: broadcast_one_def heap_simps)
  show ?thesis
  proof (cases "v = me \<or> \<not> session_live s y")
    case True
    with y inv show ?thesis by (auto simp: def gets_broadcast_def refuses_broadcast_def)
  next
    case False
    with send inv y show ?thesis
      by (cases "me \<in> set (u_blocked y)")
        (auto simp: def gets_broadcast_def refuses_broadcast_def elim!: returns_mono)
  qed
qed

lemma broadcast_spec:
  assumes inv: "heap_inv L s" and x: "users s me = Some x"
  shows "returns (foldM (broadcast_one pb me msg) (db_first (udb s)) (True, s))
    (\<lambda>(ok, t). heap_inv L t \<and> ok = (\<nexists>v. refuses_broadcast s me v)
      \<and> told (gets_broadcast s me) (message_bytes pb x msg) s t)"
proof -
  let ?bs = "message_bytes pb x msg"
  let ?P = "\<lambda>ys (ok, t). heap_inv L t \<and> ok = (\<forall>v \<in> set ys. \<not> refuses_broadcast s me v)
     \<and> told (\<lambda>v. v \<in> set ys \<and> gets_broadcast s me v) ?bs s t"
  note db = db_okD [OF heap_invD(1) [OF inv]]
  have "returns (foldM (broadcast_one pb me msg) (db_first (udb s)) (True, s)) (?P (db_first (udb s)))"
  proof (rule foldM_prefix)
    show "?P [] (True, s)" using inv by (simp add: told_none)
  next
    fix ys v acc
    assume ys: "\<exists>zs. db_first (udb s) = ys @ v # zs" and P: "?P ys acc"
    obtain ok t where acc: "acc = (ok, t)" by (cases acc)
    from ys have v: "v \<notin> set ys" "v \<in> dom (users s)" using db(1,2) by auto
    then obtain y where y: "users s v = Some y" by blast
    have t: "heap_inv L t" "buffers_only s t" using P acc by (auto simp: told_def)
    show "returns (broadcast_one pb me msg v acc) (?P (ys @ [v]))"
      using broadcast_one_spec [OF t x y, of pb msg ok] unfolding acc
    proof (rule returns_mono)
      fix r assume r: "case r of (ok', t') \<Rightarrow> heap_inv L t' \<and> ok' = (ok \<and> \<not> refuses_broadcast s me v) \<and>
        (if gets_broadcast s me v then sent_user v ?bs t t' else t' = t)"
      show "?P (ys @ [v]) r"
      proof (cases "gets_broadcast s me v")
        case False
        then have "(\<lambda>w. w \<in> set (ys @ [v]) \<and> gets_broadcast s me w) = (\<lambda>w. w \<in> set ys \<and> gets_broadcast s me w)"
          by auto
        with False r P acc show ?thesis by (cases r) auto
      next
        case True
        then have "sent_user v ?bs t (snd r)" "session_live s y" using r y by (cases r; auto simp: gets_broadcast_def)+
        with told_step [of "\<lambda>v. v \<in> set ys \<and> gets_broadcast s me v" ?bs s t v "snd r" y] P v(1) y acc
        have "told (\<lambda>w. w \<in> set ys \<and> gets_broadcast s me w \<or> w = v) ?bs s (snd r)" by simp
        moreover have "(\<lambda>w. w \<in> set ys \<and> gets_broadcast s me w \<or> w = v)
            = (\<lambda>w. w \<in> set (ys @ [v]) \<and> gets_broadcast s me w)" using True by auto
        ultimately show ?thesis using r P acc by (cases r) auto
      qed
    qed
  qed
  moreover have "v \<in> set (db_first (udb s))" if "gets_broadcast s me v \<or> refuses_broadcast s me v" for v
    using that db(1) by (auto simp: gets_broadcast_def refuses_broadcast_def)
  then have "(\<lambda>v. v \<in> set (db_first (udb s)) \<and> gets_broadcast s me v) = gets_broadcast s me"
    "(\<forall>v \<in> set (db_first (udb s)). \<not> refuses_broadcast s me v) = (\<nexists>v. refuses_broadcast s me v)" by auto
  ultimately show ?thesis by simp
qed

lemma cmd_message_broadcast:
  assumes inv: "srv_inv s" and me: "logged s c me x" and b: "mr_broadcast req"
  shows "returns (cmd_message_impl pb s c req) (\<lambda>(rsp, t). srv_inv t
    \<and> told (gets_broadcast s me) (message_bytes pb x (mr_msg req)) s t
    \<and> rsp = (if \<exists>v. refuses_broadcast s me v then
         Some (encodeTextResponseToIMResponseAndFree pb
           \<lparr>txt_msg = ''Your message could not be delivered to some of the recipients.''\<rparr> False) else None))"
  using broadcast_spec [OF srv_invD(1) [OF inv] logged_user(1) [OF inv me], of pb "mr_msg req"] b
  by (auto simp: cmd_message_impl_def require_login_ok [OF me] text_reply_def
      intro: srv_inv_buffers [OF inv] elim!: returnsE split: prod.splits) (auto simp: told_def intro: srv_inv_buffers [OF inv])

section \<open>Blocking\<close>

lemma user_ok_blocked:
  assumes "heap_inv L s" and "users s u = Some x" and "distinct bl" and "u \<notin> set bl"
    and "set bl \<subseteq> dom (users s)"
  shows "user_ok s u (x\<lparr>u_blocked := bl\<rparr>)"
  using heap_invD(2) [OF assms(1,2)] assms(3-5) by (simp add: user_ok_def)

lemma blockUser_spec:
  assumes inv: "srv_inv s" and x: "users s me = Some x" and v: "v \<in> dom (users s)" "v \<noteq> me"
    and nb: "v \<notin> set (u_blocked x)"
  shows "blockUser s me v = Some (put_user me (x\<lparr>u_blocked := v # u_blocked x\<rparr>) s)"
    "srv_inv (put_user me (x\<lparr>u_blocked := v # u_blocked x\<rparr>) s)"
proof -
  show "blockUser s me v = Some (put_user me (x\<lparr>u_blocked := v # u_blocked x\<rparr>) s)"
    using x v nb by (simp add: blockUser_def heap_simps)
  have "user_ok s me (x\<lparr>u_blocked := v # u_blocked x\<rparr>)"
    using heap_inv_user [OF srv_invD(1) [OF inv] x] v nb
    by (intro user_ok_blocked [OF srv_invD(1) [OF inv] x]) auto
  with inv x show "srv_inv (put_user me (x\<lparr>u_blocked := v # u_blocked x\<rparr>) s)"
    by (rule srv_inv_put_user) simp_all
qed

lemma unblockUser_spec:
  assumes inv: "srv_inv s" and x: "users s me = Some x"
  shows "unblockUser s me v = Some (put_user me (x\<lparr>u_blocked := remove1 v (u_blocked x)\<rparr>) s)"
    "srv_inv (put_user me (x\<lparr>u_blocked := remove1 v (u_blocked x)\<rparr>) s)"
proof -
  note ok = heap_inv_user [OF srv_invD(1) [OF inv] x]
  show "unblockUser s me v = Some (put_user me (x\<lparr>u_blocked := remove1 v (u_blocked x)\<rparr>) s)"
    using x ok(2) by (simp add: unblockUser_def unblock_walk_distinct)
  have "user_ok s me (x\<lparr>u_blocked := remove1 v (u_blocked x)\<rparr>)"
    using ok(2-4) set_remove1_subset [of v "u_blocked x"]
    by (intro user_ok_blocked [OF srv_invD(1) [OF inv] x]) auto
  with inv x show "srv_inv (put_user me (x\<lparr>u_blocked := remove1 v (u_blocked x)\<rparr>) s)"
    by (rule srv_inv_put_user) simp_all
qed

text \<open>What the two handlers answer, and the blocked list they leave.\<close>

definition block_answer :: "bytes \<Rightarrow> uref option \<Rightarrow> uref \<Rightarrow> uref list \<Rightarrow> bytes \<times> bool \<times> uref list" where
  "block_answer name target me bl = (case target of
     None \<Rightarrow> (name @ '' is not present on server'', False, bl)
   | Some v \<Rightarrow> (if v = me then (''cannot block yourself'', False, bl)
       else if v \<in> set bl then (name @ '' is already blocked'', False, bl)
       else (name @ '' is blocked'', True, v # bl)))"

definition unblock_answer :: "bytes \<Rightarrow> uref option \<Rightarrow> uref \<Rightarrow> uref list \<Rightarrow> bytes \<times> bool \<times> uref list" where
  "unblock_answer name target me bl = (case target of
     None \<Rightarrow> (name @ '' is not present on server'', False, bl)
   | Some v \<Rightarrow> (if v = me then (''cannot unblock yourself'', False, bl)
       else if v \<notin> set bl then (name @ '' is not blocked'', False, bl)
       else (name @ '' is unblocked'', True, remove1 v bl)))"

lemma put_user_self: "users s u = Some x \<Longrightarrow> put_user u x s = s"
  by (simp add: put_user_def fun_upd_idem)

lemma cmd_block_spec:
  assumes inv: "srv_inv s" and me: "logged s c me x"
  shows "(case block_answer (cstr (br_username req)) (findUser s (br_username req)) me (u_blocked x) of
     (txt, ok, bl) \<Rightarrow> cmd_block_impl pb s c req = text_reply pb txt ok (put_user me (x\<lparr>u_blocked := bl\<rparr>) s)
       \<and> srv_inv (put_user me (x\<lparr>u_blocked := bl\<rparr>) s))"
proof -
  note x = logged_user(1) [OF inv me]
  have self: "put_user me (x\<lparr>u_blocked := u_blocked x\<rparr>) s = s" using x by (simp add: put_user_self)
  show ?thesis
  proof (cases "findUser s (br_username req)")
    case None
    with self inv show ?thesis
      by (simp add: cmd_block_impl_def require_login_ok [OF me] block_answer_def Let_def)
  next
    case (Some v)
    from findUser_SomeD [OF srv_invD(5) [OF inv] this] have "v \<in> dom (users s)" by auto
    with Some self inv x blockUser_spec [OF inv x this] show ?thesis
      by (auto simp: cmd_block_impl_def require_login_ok [OF me] block_answer_def Let_def heap_simps)
  qed
qed

lemma cmd_unblock_spec:
  assumes inv: "srv_inv s" and me: "logged s c me x"
  shows "(case unblock_answer (cstr (ubr_username req)) (findUser s (ubr_username req)) me (u_blocked x) of
     (txt, ok, bl) \<Rightarrow> cmd_unblock_impl pb s c req = text_reply pb txt ok (put_user me (x\<lparr>u_blocked := bl\<rparr>) s)
       \<and> srv_inv (put_user me (x\<lparr>u_blocked := bl\<rparr>) s))"
proof -
  note x = logged_user(1) [OF inv me]
  have self: "put_user me (x\<lparr>u_blocked := u_blocked x\<rparr>) s = s" using x by (simp add: put_user_self)
  show ?thesis
    using self inv x unblockUser_spec [OF inv x]
    by (auto simp: cmd_unblock_impl_def require_login_ok [OF me] unblock_answer_def Let_def heap_simps
        split: option.splits)
qed

section \<open>Presence\<close>

text \<open>The users a presence list shows, in the order of the database.\<close>

definition shown :: "'a proc_scheme \<Rightarrow> int \<Rightarrow> bool \<Rightarrow> uref \<Rightarrow> uref \<Rightarrow> bool" where
  "shown s threshold online me v \<longleftrightarrow> v \<noteq> me \<and> (\<exists>y. users s v = Some y \<and> threshold \<le> u_last_active y
     \<and> (online \<longrightarrow> session_live s y))"

definition name_of :: "'a proc_scheme \<Rightarrow> uref \<Rightarrow> bytes" where
  "name_of s u = u_username (the (users s u))"

lemma loggedInUsersAfterTime_eq:
  assumes "db_ok s"
  shows "loggedInUsersAfterTime s th online me = Some (filter (shown s th online me) (db_first (udb s)))"
  unfolding loggedInUsersAfterTime_def
proof (rule filterM_eq)
  fix u assume "u \<in> set (db_first (udb s))"
  then obtain y where "users s u = Some y" using db_okD(1) [OF assms] by auto
  then show "(if u \<noteq> me then do {
       us \<leftarrow> users s u;
       if u_last_active us \<ge> th then (if \<not> online then Some True else isUserLoggedIn s (Some u))
       else Some False } else Some False) = Some (shown s th online me u)"
    by (auto simp: shown_def heap_simps)
qed

definition since :: "'a proc_scheme \<Rightarrow> WhoElseRequest \<Rightarrow> int" where
  "since s req = (if wr_limitTime req then int32 (now s - sint (wr_pastSeconds req)) else 0)"

lemma cmd_whoelse_spec:
  assumes inv: "srv_inv s" and me: "logged s c me x"
  shows "cmd_whoelse_impl pb s c req =
    (let l = filter (shown s (since s req) (wr_currentlyOnline req) me) (db_first (udb s)) in
     if l = [] then text_reply pb ''No other users other than you'' False s
     else text_reply pb (cstr (join_names [CHR 0x0A] [] (map (name_of s) l))) True s)"
proof -
  let ?l = "filter (shown s (since s req) (wr_currentlyOnline req) me) (db_first (udb s))"
  have "set ?l \<subseteq> dom (users s)" using db_okD(1) [OF srv_invD(5) [OF inv]] by auto
  note str = userLinkedListToString_returns [OF this, of "[CHR 0x0A]"]
  note l = loggedInUsersAfterTime_eq [OF srv_invD(5) [OF inv]]
  have "cmd_whoelse_impl pb s c req = (if ?l = [] then text_reply pb ''No other users other than you'' False s
      else userLinkedListToString s ?l [CHR 0x0A] \<bind> (\<lambda>(_, str). str \<bind> (\<lambda>txt. text_reply pb (cstr txt) True s)))"
    by (simp add: cmd_whoelse_impl_def require_login_ok [OF me] loggedInUsers_def
        loggedInUsersInPastSeconds_def l since_def)
  then show ?thesis using str by (simp add: Let_def name_of_def [abs_def] comp_def)
qed

definition getip_reply :: "pb_lib \<Rightarrow> bytes \<Rightarrow> im_client \<Rightarrow> IMResponse" where
  "getip_reply pb name cl = \<lparr>rsp_type = 3, rsp_success = True, rsp_value = encodeGetIPResponseToBytes pb
     \<lparr>gip_username = cstr name, gip_addr = sockaddr_bytes (c_addr cl)\<rparr>\<rparr>"

lemma cmd_getip_spec:
  assumes inv: "srv_inv s" and me: "logged s c me x"
  shows "cmd_getip_impl pb s c req = (case findUser s (giq_username req) of
      None \<Rightarrow> text_reply pb ''User is not present on server'' False s
    | Some u \<Rightarrow> (let y = the (users s u) in
        if u = me then text_reply pb ''Cannot startprivate with yourself'' False s
        else if me \<in> set (u_blocked y) then text_reply pb ''Target has blocked you'' False s
        else if \<not> session_live s y then text_reply pb ''Target is not online'' False s
        else Some (Some (getip_reply pb (giq_username req) (the (client_store s (the (u_client y))))), s)))"
proof (cases "findUser s (giq_username req)")
  case None
  then show ?thesis by (simp add: cmd_getip_impl_def require_login_ok [OF me])
next
  case (Some u)
  from findUser_SomeD [OF srv_invD(5) [OF inv] this] obtain y where y: "users s u = Some y" by blast
  have "\<exists>tc cl. u_client y = Some tc \<and> client_store s tc = Some cl" if "session_live s y"
    using that heap_inv_user(5) [OF srv_invD(1) [OF inv] y] by (auto simp: session_live_def)
  with Some y show ?thesis
    by (auto simp: cmd_getip_impl_def require_login_ok [OF me] Let_def heap_simps getip_reply_def)
qed

section \<open>Files\<close>

definition chunks_of :: "'a proc_scheme \<Rightarrow> cref \<Rightarrow> u32 list" where
  "chunks_of s c = (case client_store s c of None \<Rightarrow> [] | Some cl \<Rightarrow> client_chunks cl)"

text \<open>Nothing but the chunks of connection \<open>c\<close> changed in the stores.\<close>

definition chunks_added :: "cref \<Rightarrow> u32 list \<Rightarrow> 'a proc_scheme \<Rightarrow> 'a proc_scheme \<Rightarrow> bool" where
  "chunks_added c ks s t \<longleftrightarrow> users t = users s \<and> (\<forall>d. d \<noteq> c \<longrightarrow> client_store t d = client_store s d)
     \<and> (\<forall>v. outbox t v = outbox s v) \<and> chunks_of t c = chunks_of s c @ ks
     \<and> map_option c_inbuffer (client_store t c) = map_option c_inbuffer (client_store s c)
     \<and> map_option c_user (client_store t c) = map_option c_user (client_store s c)
     \<and> (\<forall>d. cout t d = cout s d) \<and> udb t = udb s \<and> now t = now s \<and> next_client t = next_client s"

lemma client_ok_chunks:
  assumes "client_ok L s c cl" and "chunks_ok (cl\<lparr>c_chunkids := ks, c_nchunks := n\<rparr>)"
  shows "client_ok L s c (cl\<lparr>c_chunkids := ks, c_nchunks := n\<rparr>)"
  using assms by (simp add: client_ok_def chunks_ok_def)

lemma put_chunks:
  assumes inv: "srv_inv s" and cl: "client_store s c = Some cl"
    and k: "k = cl\<lparr>c_chunkids := ids, c_nchunks := n\<rparr>" and ok: "chunks_ok k"
    and new: "client_chunks k = client_chunks cl @ ks"
  shows "srv_inv (put_client c k s)" "chunks_added c ks s (put_client c k s)"
proof -
  have "client_ok {} s c k"
    unfolding k using heap_invD(3) [OF srv_invD(1) [OF inv] cl] ok [unfolded k] by (rule client_ok_chunks)
  with inv cl show "srv_inv (put_client c k s)"
    by (rule srv_inv_put_client) (simp_all add: k)
  have "cout (put_client c k s) d = cout s d" for d
    using cl by (simp add: cout_def heap_simps k)
  moreover have "session_live (put_client c k s) x = session_live s x" for x
    by (simp add: session_live_def heap_simps)
  ultimately show "chunks_added c ks s (put_client c k s)"
    using cl new by (auto simp: chunks_added_def outbox_def heap_simps chunks_of_def k split: option.splits)
qed

lemma chunks_added_files [simp]:
  "chunks_added c ks ((s :: server)\<lparr>file_root := r, global_chunk_id := g\<rparr>) t = chunks_added c ks s t"
  by (simp add: chunks_added_def chunks_of_def outbox_def cout_def session_live_def
      cong: option.case_cong if_cong)

definition file_chunk_nums :: "u32 \<Rightarrow> u32 \<Rightarrow> u32 list" where
  "file_chunk_nums sid n = map (\<lambda>j. sid + word_of_nat j) [0..<unat n]"

lemma cmd_regfile_taken:
  assumes inv: "srv_inv s" and me: "logged s c me x"
    and w: "find_range (file_root s) (cstr (rfr_filename req)) = Some w"
  shows "returns (cmd_regfile_impl pb s c req) (\<lambda>(rsp, t).
    rsp = Some (encodeTextResponseToIMResponseAndFree pb
      \<lparr>txt_msg = cstr (rfr_filename req) @ '' already exists''\<rparr> False)
    \<and> srv_inv t \<and> global_chunk_id t = global_chunk_id s
    \<and> (\<forall>k. find_range (file_root t) k = find_range (file_root s) k)
    \<and> users t = users s \<and> client_store t = client_store s
    \<and> udb t = udb s \<and> now t = now s \<and> next_client t = next_client s)"
proof -
  obtain root' gid' r where add: "addFile (file_root s) (global_chunk_id s) (rfr_filename req) (rfr_chunks req)
      = (root', gid', r)" by (metis prod_cases3)
  from addFile_cases [OF this] w have "r = None" "gid' = global_chunk_id s"
    "\<forall>k. find_range root' k = find_range (file_root s) k" by auto
  with inv show ?thesis
    by (simp add: cmd_regfile_impl_def require_login_ok [OF me] add text_reply_def Let_def)
qed

lemma cmd_regfile_new:
  assumes inv: "srv_inv s" and me: "logged s c me x" and cl: "client_store s c = Some cl"
    and free: "find_range (file_root s) (cstr (rfr_filename req)) = None"
    and fits: "unat (c_nchunks cl) + unat (rfr_chunks req) < 2 ^ 31"
  shows "returns (cmd_regfile_impl pb s c req) (\<lambda>(rsp, t).
    rsp = Some (encodeTextResponseToIMResponseAndFree pb
      \<lparr>txt_msg = cstr (rfr_filename req) @ '' successfully registered''\<rparr> True)
    \<and> srv_inv t \<and> global_chunk_id t = global_chunk_id s + rfr_chunks req
    \<and> (\<forall>k. find_range (file_root t) k = (if k = cstr (rfr_filename req)
         then (if rfr_chunks req > 0 then Some (global_chunk_id s, rfr_chunks req) else None)
         else find_range (file_root s) k))
    \<and> chunks_added c (file_chunk_nums (global_chunk_id s) (rfr_chunks req)) s t)"
proof -
  let ?n = "rfr_chunks req" and ?g = "global_chunk_id s"
  obtain root' gid' r where add: "addFile (file_root s) ?g (rfr_filename req) ?n = (root', gid', r)"
    by (metis prod_cases3)
  from addFile_cases [OF this] free obtain f where
    f: "r = Some f" "file_range f = (?g, ?n)" "gid' = ?g + ?n"
      "\<forall>k. find_range root' k = (if k = cstr (rfr_filename req) then (if ?n > 0 then Some (?g, ?n) else None)
          else find_range (file_root s) k)" by auto
  let ?s = "s\<lparr>file_root := root', global_chunk_id := gid'\<rparr>"
  have sid: "f_chunk_sid f = ?g" "f_chunks f = ?n" using f(2) by (simp_all add: file_range_def)
  obtain k where k: "regAllFileChunk cl f = Some k" using fits sid by (simp add: regAllFileChunk_def)
  have ok: "chunks_ok cl" using heap_inv_client(4) [OF srv_invD(1) [OF inv] cl] by (simp add: chunks_ok_def)
  note spec = regAllFileChunk_spec [OF k ok]
  obtain ids n where k': "k = cl\<lparr>c_chunkids := ids, c_nchunks := n\<rparr>"
    using k by (auto simp: regAllFileChunk_def split: if_splits)
  have "client_chunks k = client_chunks cl @ file_chunk_nums ?g ?n"
    using spec(1) sid by (simp add: file_chunk_nums_def)
  with put_chunks [of ?s c cl, OF _ _ k' spec(2)] inv cl
  have "srv_inv (put_client c k ?s)" "chunks_added c (file_chunk_nums ?g ?n) s (put_client c k ?s)"
    by simp_all
  with cl k f show ?thesis
    by (simp add: cmd_regfile_impl_def require_login_ok [OF me] add text_reply_def Let_def put_client_def)
qed

lemma cmd_regchunk_spec:
  assumes inv: "srv_inv s" and me: "logged s c me x" and cl: "client_store s c = Some cl"
  shows "findFile (file_root s) (rcr_filename req) = None \<Longrightarrow> cmd_regchunk_impl pb s c req =
      text_reply pb (cstr (rcr_filename req) @ '' does not exist on server. Register it first'') False s"
    "findFile (file_root s) (rcr_filename req) = Some f \<Longrightarrow>
     unat (c_nchunks cl) + length (rcr_chunks req) div 4 < 2 ^ 31 \<Longrightarrow>
     returns (cmd_regchunk_impl pb s c req) (\<lambda>(rsp, t).
       rsp = Some (encodeTextResponseToIMResponseAndFree pb \<lparr>txt_msg = ''Successfully registered '' @
         dec (length (rcr_chunks req) div 4) @ '' chunks for '' @ cstr (rcr_filename req)\<rparr> True)
       \<and> srv_inv t \<and> file_root t = file_root s \<and> global_chunk_id t = global_chunk_id s
       \<and> chunks_added c (map (\<lambda>i. f_chunk_sid f + i) (parse_packed_uint32 (rcr_chunks req))) s t)"
proof -
  show "findFile (file_root s) (rcr_filename req) = None \<Longrightarrow> cmd_regchunk_impl pb s c req =
      text_reply pb (cstr (rcr_filename req) @ '' does not exist on server. Register it first'') False s"
    by (simp add: cmd_regchunk_impl_def require_login_ok [OF me] Let_def)
  assume f: "findFile (file_root s) (rcr_filename req) = Some f"
    and fits: "unat (c_nchunks cl) + length (rcr_chunks req) div 4 < 2 ^ 31"
  let ?cs = "parse_packed_uint32 (rcr_chunks req)"
  obtain k where k: "regFileChunk cl f ?cs = Some k" using fits by (simp add: regFileChunk_def)
  have ok: "chunks_ok cl" using heap_inv_client(4) [OF srv_invD(1) [OF inv] cl] by (simp add: chunks_ok_def)
  obtain ids n where k': "k = cl\<lparr>c_chunkids := ids, c_nchunks := n\<rparr>"
    using k by (auto simp: regFileChunk_def Let_def split: if_splits)
  note spec = regFileChunk_spec [OF k ok]
  from put_chunks [OF inv cl k' spec(2) spec(1)] f k cl
  show "returns (cmd_regchunk_impl pb s c req) (\<lambda>(rsp, t).
       rsp = Some (encodeTextResponseToIMResponseAndFree pb \<lparr>txt_msg = ''Successfully registered '' @
         dec (length (rcr_chunks req) div 4) @ '' chunks for '' @ cstr (rcr_filename req)\<rparr> True)
       \<and> srv_inv t \<and> file_root t = file_root s \<and> global_chunk_id t = global_chunk_id s
       \<and> chunks_added c (map (\<lambda>i. f_chunk_sid f + i) ?cs) s t)"
    by (simp add: cmd_regchunk_impl_def require_login_ok [OF me] text_reply_def Let_def put_client_def)
qed

section \<open>Searching\<close>

text \<open>User \<open>v\<close> is online and its connection has registered chunk \<open>j\<close> of the file.\<close>

definition offers :: "'a proc_scheme \<Rightarrow> trie_file \<Rightarrow> uref \<Rightarrow> nat \<Rightarrow> bool" where
  "offers s f v j \<longleftrightarrow> (\<exists>y c. users s v = Some y \<and> session_live s y \<and> u_client y = Some c
     \<and> (\<exists>k \<in> set (chunks_of s c). in_range f k \<and> unat (k - f_chunk_sid f) = j))"

definition listed :: "'a proc_scheme \<Rightarrow> trie_file \<Rightarrow> bool list \<Rightarrow> nat \<Rightarrow> uref \<Rightarrow> bool" where
  "listed s f wanted target v \<longleftrightarrow> (\<exists>y. users s v = Some y \<and> session_live s y)
     \<and> target = (if \<exists>j. offers s f v j \<and> wanted ! j then 2 else if \<exists>j. offers s f v j then 1 else 0)"

lemma client_scan:
  assumes y: "users s v = Some y" "session_live s y" "u_client y = Some c" and cl: "client_store s c = Some cl"
  shows "fst (clientHasFileChunks cl f wanted has) =
      (if \<exists>j. offers s f v j \<and> wanted ! j then 2 else if \<exists>j. offers s f v j then 1 else 0)"
    "length (snd (clientHasFileChunks cl f wanted has)) = length has"
    "i < length has \<Longrightarrow> snd (clientHasFileChunks cl f wanted has) ! i = (has ! i \<or> offers s f v i)"
proof -
  have o: "offers s f v j \<longleftrightarrow> (\<exists>k \<in> set (client_chunks cl). in_range f k \<and> unat (k - f_chunk_sid f) = j)" for j
    using y cl by (auto simp: offers_def chunks_of_def)
  have run: "clientHasFileChunks cl f wanted has =
      chunk_scan (f_chunk_sid f) (f_chunk_sid f + f_chunks f) wanted (client_chunks cl) has 0"
    by (simp add: clientHasFileChunks_def client_chunks_def Let_def)
  show "fst (clientHasFileChunks cl f wanted has) =
      (if \<exists>j. offers s f v j \<and> wanted ! j then 2 else if \<exists>j. offers s f v j then 1 else 0)"
    unfolding run chunk_scan_result [OF zero_le] o by auto
  show "length (snd (clientHasFileChunks cl f wanted has)) = length has"
    unfolding run by (simp add: chunk_scan_mask)
  show "i < length has \<Longrightarrow> snd (clientHasFileChunks cl f wanted has) ! i = (has ! i \<or> offers s f v i)"
    unfolding run o by (simp add: chunk_scan_mask in_range_def conj_assoc)
qed

lemma with_chunks_spec:
  assumes inv: "heap_inv L s" and "set vs \<subseteq> dom (users s)"
  shows "returns (with_chunks s f wanted target vs has) (\<lambda>(l, h). l = filter (listed s f wanted target) vs
    \<and> length h = length has \<and> (\<forall>i < length has. h ! i = (has ! i \<or> (\<exists>v \<in> set vs. offers s f v i))))"
  using assms(2)
proof (induction vs arbitrary: has)
  case (Cons v vs)
  then obtain y where y: "users s v = Some y" by auto
  have vs: "set vs \<subseteq> dom (users s)" using Cons.prems by simp
  show ?case
  proof (cases "session_live s y")
    case False
    then have "\<not> listed s f wanted target v" "\<not> offers s f v i" for i
      using y by (auto simp: listed_def offers_def)
    with Cons.IH [OF vs, of has] y False show ?thesis by (simp add: heap_simps)
  next
    case True
    then obtain c where c: "u_client y = Some c" by (auto simp: session_live_def)
    from heap_inv_user(5) [OF inv y c] obtain cl where cl: "client_store s c = Some cl" by blast
    note scan = client_scan [OF y True c cl]
    let ?r = "clientHasFileChunks cl f wanted has"
    have l: "listed s f wanted target v \<longleftrightarrow> fst ?r = target"
      using y True by (auto simp: listed_def scan(1))
    from Cons.IH [OF vs, of "snd ?r"] obtain l h where
      lh: "with_chunks s f wanted target vs (snd ?r) = Some (l, h)"
        "l = filter (listed s f wanted target) vs" "length h = length has"
        "\<forall>i < length has. h ! i = (snd ?r ! i \<or> (\<exists>v \<in> set vs. offers s f v i))"
      by (auto simp: scan(2) elim!: returnsE)
    have "with_chunks s f wanted target (v # vs) has = Some (if fst ?r = target then v # l else l, h)"
      using y True c cl lh(1) by (simp add: heap_simps Let_def)
    with lh l scan(3) show ?thesis by auto
  qed
qed simp

lemma length_filter_full: "length (filter id h) = length h \<longleftrightarrow> (\<forall>i < length h. h ! i)"
  by (metis (mono_tags) all_set_conv_all_nth filter_True filter_id_conv id_apply length_filter_less nat_neq_iff)

definition search_text :: "bytes \<Rightarrow> u32 \<Rightarrow> bool \<Rightarrow> nat \<Rightarrow> bytes \<Rightarrow> bytes option \<Rightarrow> bytes" where
  "search_text name n whole has descr names =
     (if whole then name @ '' is registered on server with '' @ dec (unat n) @
        '' chunks. All chunks are currently available. Below are users with '' @ descr @
        '' chunks:'' @ [CHR 0x0A] @ fmt_s names @ [CHR 0x0A] @
        ''After downloading all chunks, cd into your clientdata directory and run `cat '' @
        name @ ''/{0..'' @ dec (unat (n - 1)) @ ''} > '' @ name @ ''.merged`''
      else name @ '' is registered on server with '' @ dec (unat n) @ '' chunks. Only '' @ dec has @
        '' chunks are available (registered by currently online clients). Below are users with '' @
        descr @ '' chunks:'' @ [CHR 0x0A] @ fmt_s names)"

definition offered :: "'a proc_scheme \<Rightarrow> trie_file \<Rightarrow> nat \<Rightarrow> bool" where
  "offered s f i \<longleftrightarrow> (\<exists>v \<in> set (db_first (udb s)). offers s f v i)"

lemma cmd_searchfile_spec:
  assumes inv: "srv_inv s" and me: "logged s c me x"
    and f: "findFile (file_root s) (sfr_filename req) = Some f"
  defines "n \<equiv> f_chunks f" and "cs \<equiv> parse_packed_uint32 (sfr_chunks req)"
  defines "l \<equiv> filter (listed s f (wanted_mask n cs) (if cs = [] then 1 else 2)) (db_first (udb s))"
  shows "cmd_searchfile_impl pb s c req = text_reply pb
    (search_text (cstr (sfr_filename req)) n (\<forall>i < unat n. offered s f i)
       (card {i. i < unat n \<and> offered s f i}) (if cs = [] then ''any'' else ''your requested'')
       (if l = [] then None else Some (join_names [CHR 0x0A] [] (map (name_of s) l)))) True s"
proof -
  let ?tg = "if cs = [] then 1 else 2 :: nat" and ?h0 = "replicate (unat n) False"
  have us: "set (db_first (udb s)) \<subseteq> dom (users s)" using db_okD(1) [OF srv_invD(5) [OF inv]] by simp
  from with_chunks_spec [OF srv_invD(1) [OF inv] us, of f "wanted_mask n cs" ?tg ?h0]
  obtain h where
    wc: "usersWithChunks s f (wanted_mask n cs) ?h0 ?tg = Some (l, h)" and h: "length h = unat n"
      "\<forall>i < unat n. h ! i = offered s f i"
    by (auto simp: usersWithChunks_def l_def offered_def elim!: returnsE)
  have "set l \<subseteq> dom (users s)" using us by (auto simp: l_def)
  note str = userLinkedListToString_returns [OF this, of "[CHR 0x0A]"]
  have cnt: "length (filter id h) = card {i. i < unat n \<and> offered s f i}"
    using h by (simp add: length_filter_conv_card) (metis (full_types))
  have le: "length (filter id h) \<le> unat n" using h(1) length_filter_le [of id h] by simp
  then have u: "unat (word_of_nat (length (filter id h)) :: u32) = length (filter id h)"
    by (simp add: unat_of_nat u32_bound order.strict_trans1 [OF _ u32_bound])
  have "(word_of_nat (length (filter id h)) = n) = (length (filter id h) = length h)"
    using u h(1) by (simp add: word_unat_eq_iff)
  also have "\<dots> = (\<forall>i < unat n. offered s f i)" using h unfolding length_filter_full by simp
  finally have whole: "(word_of_nat (length (filter id h)) = n) = (\<forall>i < unat n. offered s f i)" .
  let ?names = "if l = [] then None else Some (join_names [CHR 0x0A] [] (map (name_of s) l))"
  obtain r where r: "userLinkedListToString s l [CHR 0x0A] = Some (r, ?names)"
    using str by (cases "l = []") (simp_all add: name_of_def [abs_def])
  have "cmd_searchfile_impl pb s c req = text_reply pb
      (search_text (cstr (sfr_filename req)) n (word_of_nat (length (filter id h)) = n)
        (unat (word_of_nat (length (filter id h)) :: u32)) (if cs = [] then ''any'' else ''your requested'')
        ?names) True s"
    unfolding cmd_searchfile_impl_def require_login_ok [OF me] Let_def search_text_def
    by (simp only: f option.simps n_def [symmetric] cs_def [symmetric] wc r bind.simps prod.case)
  then show ?thesis unfolding whole u unfolding cnt .
qed

section \<open>Sessions\<close>

text \<open>The link \<open>cmd_login_impl\<close> makes, between a user and a connection that are both free.\<close>

lemma link_inv:
  assumes inv: "heap_inv L s" and x: "users s u = Some x" "u_client x = None"
    and cl: "client_store s c = Some cl" "c_user cl = None" "c \<notin> L"
  shows "heap_inv L (put_client c (cl\<lparr>c_user := Some u, c_addr := a\<rparr>)
    (put_user u (x\<lparr>u_client := Some c\<rparr>) s))" (is "heap_inv L ?t")
proof -
  have "db_ok ?t"
    using heap_invD(1) [OF inv] x(1) _ by (rule db_ok_users_upd [of _ _ _ "x\<lparr>u_client := Some c\<rparr>"])
      (simp_all add: heap_simps)
  moreover have dom: "dom (users ?t) = dom (users s)" using x by (auto simp: heap_simps)
  moreover have "user_ok ?t v z" if z: "users ?t v = Some z" for v z
  proof (cases "v = u")
    case True
    with z heap_invD(2) [OF inv x(1)] dom show ?thesis by (auto simp: user_ok_def heap_simps)
  next
    case False
    with z have z': "users s v = Some z" by (simp add: heap_simps)
    have "u_client z \<noteq> Some c" using heap_inv_user(5) [OF inv z', of c] cl by auto
    with heap_invD(2) [OF inv z'] dom show ?thesis by (auto simp: user_ok_def heap_simps)
  qed
  moreover have "client_ok L ?t d j" if j: "client_store ?t d = Some j" for d j
  proof (cases "d = c")
    case True
    with j heap_invD(3) [OF inv cl(1)] cl show ?thesis by (auto simp: client_ok_def heap_simps)
  next
    case False
    with j have j': "client_store s d = Some j" by (simp add: heap_simps)
    have "c_user j \<noteq> Some u" using heap_inv_client(5) [OF inv j', of u] x by auto
    with heap_invD(3) [OF inv j'] show ?thesis by (auto simp: client_ok_def heap_simps)
  qed
  ultimately show ?thesis by (simp add: heap_inv_def)
qed

lemma srv_inv_after_wrong:
  assumes "srv_inv s" and "users s u = Some x"
  shows "srv_inv (put_user u (after_wrong s x) s)"
  using assms after_ok(1) [OF srv_invD(1) [OF assms(1)] assms(2)] by (auto intro: srv_inv_put_user)

definition exit_reply :: "pb_lib \<Rightarrow> bytes \<Rightarrow> server \<Rightarrow> reply" where
  "exit_reply pb txt s = Some (Some (encodeExitTextToIMResponse pb txt False), s)"

text \<open>The refusals of a login, and the record each leaves of the user.\<close>

lemma cmd_login_refused:
  assumes inv: "srv_inv s"
  shows "findUser s (lr_username req) = None \<Longrightarrow>
      cmd_login_impl pb s c req = exit_reply pb ''user does not exist'' s"
    "findUser s (lr_username req) = Some u \<Longrightarrow> users s u = Some x \<Longrightarrow> now s < u_last_blocked x \<Longrightarrow>
      cmd_login_impl pb s c req = exit_reply pb ''you are blocked! try again later'' s"
    "findUser s (lr_username req) = Some u \<Longrightarrow> users s u = Some x \<Longrightarrow> \<not> now s < u_last_blocked x \<Longrightarrow>
      u_password x \<noteq> cstr (lr_password req) \<Longrightarrow> cmd_login_impl pb s c req =
      (if int32 (u_attempts x + 1) = 3
       then exit_reply pb ''you are blocked! try again later'' (put_user u (after_wrong s x) s)
       else Some (Some (encodeTextToIMResponse pb ''password is wrong'' False), put_user u (after_wrong s x) s))"
    "findUser s (lr_username req) = Some u \<Longrightarrow> users s u = Some x \<Longrightarrow> \<not> now s < u_last_blocked x \<Longrightarrow>
      u_password x = cstr (lr_password req) \<Longrightarrow> session_live s x \<Longrightarrow>
      cmd_login_impl pb s c req = exit_reply pb ''another session is in place'' s"
  using login_eq(1-3) [where s = s and name = "lr_username req" and u = u and x = x and pb = pb]
  by (auto simp: cmd_login_impl_def exit_reply_def login_def)

definition welcome_reply :: "pb_lib \<Rightarrow> user_t \<Rightarrow> IMResponse" where
  "welcome_reply pb x = encodeTextResponseToIMResponseAndFree pb \<lparr>txt_msg = ''Welcome '' @ u_username x @ ''!''\<rparr> True"

lemma cmd_login_accepted:
  assumes inv: "srv_inv s" and u: "findUser s (lr_username req) = Some u" and x: "users s u = Some x"
    and nb: "\<not> now s < u_last_blocked x" and pw: "u_password x = cstr (lr_password req)"
    and free: "u_client x = None" and cl: "client_store s c = Some cl" "c_user cl = None" "c_fd cl \<in> open_fds s"
  shows "returns (cmd_login_impl pb s c req) (\<lambda>(rsp, t). rsp = Some (welcome_reply pb x) \<and> srv_inv t
    \<and> client_store t c = Some (cl\<lparr>c_user := Some u,
         c_addr := (c_addr cl)\<lparr>sin_port := htons (ucast (lr_port req))\<rparr>\<rparr>)
    \<and> users t = (users s)(u \<mapsto> (after_login s x)\<lparr>u_client := Some c\<rparr>)
    \<and> (\<forall>d. cout t d = cout_told (hears s u) (login_notice pb (lr_username req)) s d)
    \<and> udb t = udb s \<and> now t = now s \<and> next_client t = next_client s \<and> dom (client_store t) = dom (client_store s)
    \<and> (\<forall>v. v \<noteq> u \<longrightarrow> outbox t v =
         (if hears s u v then outbox s v @ login_notice pb (lr_username req) else outbox s v)))"
proof -
  let ?x = "after_login s x" and ?name = "lr_username req"
  let ?s1 = "put_user u ?x s"
  have nl: "\<not> session_live s x" using free by (simp add: session_live_def)
  have inv1: "srv_inv ?s1"
    using inv x after_ok(2) [OF srv_invD(1) [OF inv] x] by (auto intro: srv_inv_put_user)
  have x1: "users ?s1 u = Some ?x" by (simp add: heap_simps)
  from notify_others_spec [OF srv_invD(1) [OF inv1] x1, of pb
      "encodeTextResponseToIMResponseAndFree pb \<lparr>txt_msg = cstr ?name @ '' has logged in''\<rparr> True"]
  obtain t where t: "notify_others pb u (encodeTextResponseToIMResponseAndFree pb
        \<lparr>txt_msg = cstr ?name @ '' has logged in''\<rparr> True) ?s1 = Some t"
      "heap_inv {} t" "notified u (login_notice pb ?name) ?s1 t"
    by (auto simp: login_notice_def elim!: returnsE)
  have b: "buffers_only ?s1 t" using t(3) by (simp add: notified_simps)
  have h: "hears ?s1 u v = hears s u v" for v
    using x by (auto simp: hears_def heap_simps session_live_def after_login_def)
  have xt: "users t u = Some ?x" using t(3) x1 by (simp add: notified_simps)
  have "u_client y \<noteq> Some c" if "users ?s1 v = Some y" for v y
    using that heap_inv_user(5) [OF srv_invD(1) [OF inv1] that, of c] cl by (auto simp: heap_simps)
  then have ct: "client_store t c = Some cl"
    using t(3) cl(1) by (auto simp: notified_simps heap_simps)
  let ?a = "(c_addr cl)\<lparr>sin_port := htons (ucast (lr_port req))\<rparr>"
  let ?t = "put_client c (cl\<lparr>c_user := Some u, c_addr := ?a\<rparr>) (put_user u (?x\<lparr>u_client := Some c\<rparr>) t)"
  have run: "cmd_login_impl pb s c req = Some (Some (welcome_reply pb x), ?t)"
    using login_eq(4) [OF u x nb pw nl, of pb] t(1) xt ct
    by (simp add: cmd_login_impl_def text_reply_def welcome_reply_def heap_simps)
  have inv2: "srv_inv t" using inv1 b t(2) by (rule srv_inv_buffers)
  have ofd: "open_fds t = open_fds s" using buffers_only_fields(7) [OF b] by (simp add: heap_simps)
  have "srv_inv ?t"
    unfolding srv_inv_def
  proof (intro conjI)
    show "heap_inv {} ?t"
      using t(2) xt _ ct by (rule link_inv) (use free cl in simp_all)
    show "no_hooks ?t"
      using srv_invD(2) [OF inv2] ct by (intro no_hooks_put_client) (simp_all add: heap_simps)
    show "conns_ok ?t"
      using srv_invD(3) [OF inv2] ct cl(3) ofd by (intro conns_ok_put_client [where cl = cl]) (simp_all add: heap_simps)
  qed
  moreover have "outbox ?t v = (if hears s u v then outbox s v @ login_notice pb (lr_username req) else outbox s v)"
    if "v \<noteq> u" for v
  proof -
    have "outbox ?t v = outbox t v"
      using that ct by (intro outbox_cong) (simp_all add: cout_def heap_simps)
    also have "\<dots> = (if hears ?s1 u v then outbox ?s1 v @ login_notice pb ?name else outbox ?s1 v)"
      using t(3) by (simp add: notified_simps)
    also have "outbox ?s1 v = outbox s v"
      using that by (intro outbox_cong) (simp_all add: cout_def heap_simps)
    finally show ?thesis by (simp add: h)
  qed
  moreover have "udb ?t = udb s" "now ?t = now s" "next_client ?t = next_client s"
    using buffers_only_fields [OF b] by (simp_all add: heap_simps)
  moreover have "dom (client_store ?t) = dom (client_store s)"
    using buffers_only_dom(2) [OF b] cl(1) by (auto simp: heap_simps)
  moreover have "users ?t = (users s)(u \<mapsto> ?x\<lparr>u_client := Some c\<rparr>)"
    using t(3) by (simp add: notified_simps heap_simps)
  moreover have "cout ?t d = cout_told (hears s u) (login_notice pb ?name) s d" for d
  proof -
    have "cout ?t d = cout t d" using ct by (simp add: cout_def heap_simps)
    also have "\<dots> = cout_told (hears ?s1 u) (login_notice pb ?name) ?s1 d"
      using t(3) hears_live unfolding notified_def by (rule told_cout)
    also have "\<dots> = cout_told (hears s u) (login_notice pb ?name) s d"
    proof -
      have "(\<exists>v y. hears ?s1 u v \<and> users ?s1 v = Some y \<and> u_client y = Some d)
          \<longleftrightarrow> (\<exists>v y. hears s u v \<and> users s v = Some y \<and> u_client y = Some d)"
        unfolding h by (auto simp: hears_def heap_simps)
      moreover have "cout ?s1 d = cout s d" by (simp add: cout_def heap_simps)
      ultimately show ?thesis by (simp only: cout_told_def)
    qed
    finally show ?thesis .
  qed
  ultimately show ?thesis by (simp add: run heap_simps)
qed

text \<open>Logging out closes the connection.\<close>

lemma cmd_logout_spec:
  assumes inv: "srv_inv s" and me: "logged s c me x"
  shows "returns (cmd_logout_impl pb s c req) (\<lambda>(rsp, t). rsp = None \<and> srv_inv t \<and> closed_from c s t
    \<and> users t = (users s)(me \<mapsto> x\<lparr>u_client := None\<rparr>)
    \<and> (\<forall>d. cout t d = cout_told (hears s me) (logout_notice pb x) s d) \<and> net_frame s t
    \<and> (\<forall>v. v \<noteq> me \<longrightarrow> outbox t v = (if hears s me v then outbox s v @ logout_notice pb x else outbox s v)))"
proof -
  obtain cl where cl: "client_store s c = Some cl" "c_user cl = Some me" using me by (auto simp: logged_def)
  note x = logged_user [OF inv me]
  from close_socket_inv [OF inv cl(1), of pb] obtain t where
    t: "close_socket pb s (Some c) = Some t" "srv_inv t" "closed_from c s t" "net_frame s t"
    by (auto elim!: returnsE)
  from close_socket_spec [OF srv_invD(1,2) [OF inv] cl(1), of pb] t(1) cl x(1) have
    "users t = (users s)(me \<mapsto> x\<lparr>u_client := None\<rparr>)"
    "\<forall>d. cout t d = cout_told (hears s me) (logout_notice pb x) s d"
    "\<forall>v. v \<noteq> me \<longrightarrow> outbox t v = (if hears s me v then outbox s v @ logout_notice pb x else outbox s v)"
    by auto
  with t show ?thesis by (simp add: cmd_logout_impl_def require_login_ok [OF me])
qed

end
