(* ===== verification/Stream.thy ===== *)
theory Stream
  imports Network
begin

text \<open>
  The contract between the receive loop and the handler it is given, \<open>parse_command\<close> on the server and
  \<open>parse_response\<close> on the client: a handler takes whole messages off the front and leaves the
  beginning of one alone.  From it follows once, for both programs, that the loop serves a stream
  message by message, wherever the stream was cut.
\<close>

text \<open>One round of the loop for a whole message: what the handler does, its answer, the bytes consumed.\<close>

definition serve_message :: "pb_lib \<Rightarrow> ('m \<Rightarrow> bytes) \<Rightarrow> ('a proc_scheme \<Rightarrow> cref \<Rightarrow> 'm \<Rightarrow> ('a proc_scheme \<times> IMResponse option) option)
    \<Rightarrow> cref \<Rightarrow> 'm \<Rightarrow> 'a proc_scheme \<Rightarrow> 'a proc_scheme option" where
  "serve_message pb wire_of run c m s = do {
     (s1, rsp) \<leftarrow> run s c m;
     s2 \<leftarrow> respond pb c rsp s1;
     cl \<leftarrow> client_store s2 c;
     Some (put_client c (cl\<lparr>c_inbuffer := advance_start (length (wire_of m)) (c_inbuffer cl)\<rparr>) s2) }"

text \<open>Less than a message: nothing, or the beginning of one.\<close>

definition partial_message :: "('m \<Rightarrow> bytes) \<Rightarrow> ('m \<Rightarrow> bool) \<Rightarrow> bytes \<Rightarrow> bool" where
  "partial_message wire_of sized p \<longleftrightarrow> p = [] \<or> (\<exists>m q. sized m \<and> wire_of m = p @ q \<and> q \<noteq> [])"

locale message_stream =
  fixes handler :: "'a handler"
    and wire_of :: "'m \<Rightarrow> bytes"
    and run :: "'a proc_scheme \<Rightarrow> cref \<Rightarrow> 'm \<Rightarrow> ('a proc_scheme \<times> IMResponse option) option"
    and ready :: "'a proc_scheme \<Rightarrow> bool"
    and fits :: "'m \<Rightarrow> bool"
    and sized :: "'m \<Rightarrow> bool"
  assumes wire_nonempty: "fits m \<Longrightarrow> wire_of m \<noteq> []"
    and handles: "fits m \<Longrightarrow> ready s \<Longrightarrow>
      handler s c (wire_of m @ rest) = map_option (\<lambda>(t, rsp). (t, length (wire_of m), rsp)) (run s c m)"
    and waits: "sized m \<Longrightarrow> wire_of m = p @ q \<Longrightarrow> q \<noteq> [] \<Longrightarrow> handler s c p = Some (s, 0, None)"
begin

lemma loop_message:
  assumes cl: "client_store s c = Some cl" and ok: "buf_ok (c_inbuffer cl)" and m: "fits m" "ready s"
    and p: "pending (c_inbuffer cl) = wire_of m @ rest"
  shows "recv_loop pb handler c s = serve_message pb wire_of run c m s \<bind> recv_loop pb handler c"
proof -
  let ?b = "c_inbuffer cl" and ?n = "length (wire_of m)"
  have n: "?n \<noteq> 0" using wire_nonempty [OF m(1)] by simp
  have "buffer_end ?b - buffer_start ?b = length (pending ?b)" by simp
  also have "0 < \<dots>" unfolding p using n by simp
  finally have b: "buffer_start ?b \<noteq> buffer_end ?b"
    "\<not> (buffer_end ?b < buffer_start ?b \<or> buffer_capacity ?b < buffer_end ?b)"
    using ok by (auto simp: buf_ok_def)
  have h: "handler s c (pending ?b) = map_option (\<lambda>(t, rsp). (t, ?n, rsp)) (run s c m)"
    unfolding p by (rule handles [OF m])
  show ?thesis
    unfolding recv_loop.simps [of pb _ c s]
    by (cases "run s c m")
      (use cl b n h in \<open>auto simp: serve_message_def Let_def split: Option.bind_splits\<close>)
qed

lemma loop_partial:
  assumes cl: "client_store s c = Some cl" and ok: "buf_ok (c_inbuffer cl)"
    and p: "partial_message wire_of sized (pending (c_inbuffer cl))"
  shows "recv_loop pb handler c s = Some s"
proof (cases "buffer_start (c_inbuffer cl) = buffer_end (c_inbuffer cl)")
  case True
  with cl show ?thesis by (simp add: recv_loop.simps [of pb _ c s] Let_def)
next
  case False
  with ok have "0 < length (pending (c_inbuffer cl))" by (simp add: buf_ok_def)
  then have "pending (c_inbuffer cl) \<noteq> []" by (metis length_greater_0_conv)
  with p have "handler s c (pending (c_inbuffer cl)) = Some (s, 0, None)"
    unfolding partial_message_def using waits by blast
  with cl ok False show ?thesis
    by (simp add: recv_loop.simps [of pb _ c s] Let_def buf_ok_def respond_def)
qed

text \<open>\<open>I ms\<close> is what holds while \<open>ms\<close> is still to be served.  After whole messages the loop goes on with
  the rest as if nothing else had been there.\<close>

lemma loop_prefix:
  assumes fit: "\<And>m ms s. I (m # ms) s \<Longrightarrow> fits m \<and> ready s"
    and step: "\<And>m ms s cl rest. I (m # ms) s \<Longrightarrow> client_store s c = Some cl \<Longrightarrow> buf_ok (c_inbuffer cl) \<Longrightarrow>
      pending (c_inbuffer cl) = wire_of m @ rest \<Longrightarrow>
      returns (serve_message pb wire_of run c m s) (\<lambda>t. I ms t
        \<and> (\<exists>cl'. client_store t c = Some cl' \<and> buf_ok (c_inbuffer cl') \<and> pending (c_inbuffer cl') = rest))"
    and start: "I ms s" "client_store s c = Some cl" "buf_ok (c_inbuffer cl)"
      "pending (c_inbuffer cl) = concat (map wire_of ms) @ p"
  shows "\<exists>t cl'. foldM (serve_message pb wire_of run c) ms s = Some t \<and> I [] t \<and> recv_loop pb handler c s = recv_loop pb handler c t
    \<and> client_store t c = Some cl' \<and> buf_ok (c_inbuffer cl') \<and> pending (c_inbuffer cl') = p"
  using start
proof (induction ms arbitrary: s cl)
  case Nil
  then show ?case by auto
next
  case (Cons m ms)
  have pe: "pending (c_inbuffer cl) = wire_of m @ concat (map wire_of ms) @ p" using Cons.prems(4) by simp
  from step [OF Cons.prems(1-3) pe] obtain t cl' where
    t: "serve_message pb wire_of run c m s = Some t" "I ms t" "client_store t c = Some cl'" "buf_ok (c_inbuffer cl')"
      "pending (c_inbuffer cl') = concat (map wire_of ms) @ p" by (auto elim!: returnsE)
  have "recv_loop pb handler c s = recv_loop pb handler c t"
    using loop_message [OF Cons.prems(2,3) _ _ pe] fit [OF Cons.prems(1)] t(1) by simp
  with Cons.IH [OF t(2-5)] t(1) show ?case by simp
qed

lemma loop_stream:
  assumes "\<And>m ms s. I (m # ms) s \<Longrightarrow> fits m \<and> ready s"
    and "\<And>m ms s cl rest. I (m # ms) s \<Longrightarrow> client_store s c = Some cl \<Longrightarrow> buf_ok (c_inbuffer cl) \<Longrightarrow>
      pending (c_inbuffer cl) = wire_of m @ rest \<Longrightarrow>
      returns (serve_message pb wire_of run c m s) (\<lambda>t. I ms t
        \<and> (\<exists>cl'. client_store t c = Some cl' \<and> buf_ok (c_inbuffer cl') \<and> pending (c_inbuffer cl') = rest))"
    and "I ms s" "client_store s c = Some cl" "buf_ok (c_inbuffer cl)"
      "pending (c_inbuffer cl) = concat (map wire_of ms) @ p" and p: "partial_message wire_of sized p"
  shows "returns (recv_loop pb handler c s) (\<lambda>t. foldM (serve_message pb wire_of run c) ms s = Some t \<and> I [] t
    \<and> (\<exists>cl'. client_store t c = Some cl' \<and> buf_ok (c_inbuffer cl') \<and> pending (c_inbuffer cl') = p))"
proof -
  have "\<exists>t cl'. foldM (serve_message pb wire_of run c) ms s = Some t \<and> I [] t \<and> recv_loop pb handler c s = recv_loop pb handler c t
    \<and> client_store t c = Some cl' \<and> buf_ok (c_inbuffer cl') \<and> pending (c_inbuffer cl') = p"
    by (rule loop_prefix [where I = I and pb = pb, OF assms(1,2) assms(3-6)]) assumption+
  with loop_partial p show ?thesis by auto
qed

end

text \<open>What a round leaves in the input buffer.\<close>

lemma advance_rest:
  assumes "buf_ok b" and "pending b = bs @ rest"
  shows "buf_ok (advance_start (length bs) b)" "pending (advance_start (length bs) b) = rest"
proof -
  have "length (pending b) = length bs + length rest" unfolding assms(2) by simp
  then have n: "length bs \<le> length (pending b)" by simp
  from advance_ok [OF assms(1) n] show "buf_ok (advance_start (length bs) b)" "pending (advance_start (length bs) b) = rest"
    by (simp_all add: assms(2))
qed

end
