(* ===== verification/Dispatch.thy ===== *)
theory Dispatch
  imports Server Handlers Stream
begin

text \<open>
  From the bytes of a request to its handler: \<open>parse_command\<close> decodes what the client encoded and
  runs the handler of the request's type, and under \<open>admissible\<close> (the conditions the code relies on
  without checking them) it returns and keeps the server's invariant.
\<close>

section \<open>Requests\<close>

datatype request =
    Login LoginRequest
  | Message MessageRequest
  | WhoElse WhoElseRequest
  | Block BlockRequest
  | UnBlock UnBlockRequest
  | LogOut
  | GetIP GetIPRequest
  | RegisterFile RegisterFileRequest
  | RegisterChunk RegisterChunkRequest
  | SearchFile SearchFileRequest

fun request_type :: "request \<Rightarrow> u32" where
  "request_type (Login q) = 1"
| "request_type (Message q) = 2"
| "request_type (WhoElse q) = 3"
| "request_type (Block q) = 4"
| "request_type (UnBlock q) = 5"
| "request_type LogOut = 6"
| "request_type (GetIP q) = 7"
| "request_type (RegisterFile q) = 8"
| "request_type (RegisterChunk q) = 9"
| "request_type (SearchFile q) = 10"

fun request_value :: "pb_lib \<Rightarrow> request \<Rightarrow> bytes" where
  "request_value pb (Login q) = encodeLoginRequestToBytes pb q"
| "request_value pb (Message q) = encodeMessageRequestToBytes pb q"
| "request_value pb (WhoElse q) = encodeWhoElseRequestToBytes pb q"
| "request_value pb (Block q) = encodeBlockRequestToBytes pb q"
| "request_value pb (UnBlock q) = encodeUnBlockRequestToBytes pb q"
| "request_value pb LogOut = encodeLogOutRequestToBytes pb ()"
| "request_value pb (GetIP q) = encodeGetIPRequestToBytes pb q"
| "request_value pb (RegisterFile q) = encodeRegisterFileRequestToBytes pb q"
| "request_value pb (RegisterChunk q) = encodeRegisterChunkRequestToBytes pb q"
| "request_value pb (SearchFile q) = encodeSearchFileRequestToBytes pb q"

text \<open>What a client puts on the wire for a request.\<close>

definition request_bytes :: "pb_lib \<Rightarrow> request \<Rightarrow> bytes" where
  "request_bytes pb r = encodeIMRequestToBytes pb \<lparr>imq_type = request_type r, imq_value = request_value pb r\<rparr>"

text \<open>Every length-delimited field is below 2 GiB.\<close>

fun fields_small :: "request \<Rightarrow> bool" where
  "fields_small (Login q) \<longleftrightarrow> small_bytes (lr_username q) \<and> small_bytes (lr_password q)"
| "fields_small (Message q) \<longleftrightarrow> small_bytes (mr_username q) \<and> small_bytes (mr_msg q)"
| "fields_small (WhoElse q) \<longleftrightarrow> True"
| "fields_small (Block q) \<longleftrightarrow> small_bytes (br_username q)"
| "fields_small (UnBlock q) \<longleftrightarrow> small_bytes (ubr_username q)"
| "fields_small LogOut \<longleftrightarrow> True"
| "fields_small (GetIP q) \<longleftrightarrow> small_bytes (giq_username q)"
| "fields_small (RegisterFile q) \<longleftrightarrow> small_bytes (rfr_filename q)"
| "fields_small (RegisterChunk q) \<longleftrightarrow> small_bytes (rcr_filename q) \<and> small_bytes (rcr_chunks q)"
| "fields_small (SearchFile q) \<longleftrightarrow> small_bytes (sfr_filename q) \<and> small_bytes (sfr_chunks q)"

definition request_small :: "pb_lib \<Rightarrow> request \<Rightarrow> bool" where
  "request_small pb r \<longleftrightarrow> fields_small r \<and> small_bytes (request_value pb r)"

fun request_run :: "pb_lib \<Rightarrow> server \<Rightarrow> cref \<Rightarrow> request \<Rightarrow> reply" where
  "request_run pb s c (Login q) = cmd_login_impl pb s c q"
| "request_run pb s c (Message q) = cmd_message_impl pb s c q"
| "request_run pb s c (WhoElse q) = cmd_whoelse_impl pb s c q"
| "request_run pb s c (Block q) = cmd_block_impl pb s c q"
| "request_run pb s c (UnBlock q) = cmd_unblock_impl pb s c q"
| "request_run pb s c LogOut = cmd_logout_impl pb s c ()"
| "request_run pb s c (GetIP q) = cmd_getip_impl pb s c q"
| "request_run pb s c (RegisterFile q) = cmd_regfile_impl pb s c q"
| "request_run pb s c (RegisterChunk q) = cmd_regchunk_impl pb s c q"
| "request_run pb s c (SearchFile q) = cmd_searchfile_impl pb s c q"

text \<open>The handler's result after the request has counted as activity: whoever is on the connection now, in a
  live session, was last active now, and nothing else changes.\<close>

definition refresh :: "cref \<Rightarrow> IMResponse option \<times> server \<Rightarrow> (server \<times> IMResponse option) option" where
  "refresh c r = (let s = snd r in
     case client_store s c of None \<Rightarrow> None | Some cl \<Rightarrow>
       (case c_user cl of None \<Rightarrow> Some (s, fst r) | Some u \<Rightarrow>
          (case users s u of None \<Rightarrow> None | Some x \<Rightarrow>
             Some (if session_live s x then s\<lparr>users := (users s)(u \<mapsto> x\<lparr>u_last_active := now s\<rparr>)\<rparr> else s, fst r))))"

definition serve :: "pb_lib \<Rightarrow> server \<Rightarrow> cref \<Rightarrow> request \<Rightarrow> (server \<times> IMResponse option) option" where
  "serve pb s c r = request_run pb s c r \<bind> refresh c"

lemma find_Cons: "List.find P (x # xs) = (if P x then Some x else List.find P xs)"
  by simp

lemma entry_type [simp]: "cmd_type (entry t parse run) = t"
  by (simp add: entry_def)

lemma entry_run: "parse pb bs = Some (q, k) \<Longrightarrow> cmd_run (entry t parse run) pb s c bs = run pb s c q"
  by (simp add: entry_def)

context pb_codec
begin

text \<open>The table maps every type to the handler that gets the decoded request.\<close>

lemma dispatch:
  assumes "fields_small r"
  shows "\<exists>cmd. List.find (\<lambda>cmd. cmd_type cmd = request_type r) enabled_commands = Some cmd
    \<and> cmd_run cmd pb s c (request_value pb r) = request_run pb s c r"
  using assms
  by (cases r) (simp_all add: enabled_commands_def entry_run LoginRequest_roundtrip MessageRequest_roundtrip
      WhoElseRequest_roundtrip BlockRequest_roundtrip UnBlockRequest_roundtrip GetIPRequest_roundtrip
      RegisterFileRequest_roundtrip RegisterChunkRequest_roundtrip SearchFileRequest_roundtrip
      entry_def parseLogOutRequestFromBytes_def parseLogOutRequestFromProtobufMsg_def Let_def)

lemma decode_request:
  assumes "small_bytes (request_value pb r)"
  shows "\<exists>m. ac_decode_protobuf_msg_with_n_fields pb (request_bytes pb r @ rest) 2
      = Some (m, length (request_bytes pb r))
    \<and> parseIMRequestFromProtobufMsg pb m = Some \<lparr>imq_type = request_type r, imq_value = request_value pb r\<rparr>"
  unfolding request_bytes_def encodeIMRequestToBytes_def
  by (rule decode_n_then)
    (use assms in \<open>simp_all add: codec_simps IMRequest_decoded\<close>, simp add: encodeIMRequestToProtobufMsg_def)

text \<open>How \<open>parse_command\<close> ends.\<close>

lemma parse_command_end:
  "do { cl \<leftarrow> client_store s c;
        live \<leftarrow> isUserLoggedIn s (c_user cl);
        s2 \<leftarrow> (case (live, c_user cl) of (True, Some u) \<Rightarrow> touch u s | _ \<Rightarrow> Some s);
        Some (s2, n, rsp) } = map_option (\<lambda>(t, rsp). (t, n, rsp)) (refresh c (rsp, s))"
  by (auto simp: refresh_def Let_def isUserLoggedIn_def touch_def put_user_def session_live_def bind_eq_None_conv
      split: option.split bool.split)

lemma parse_command_request:
  assumes "request_small pb r"
  shows "parse_command pb s c (request_bytes pb r @ rest) =
    map_option (\<lambda>(t, rsp). (t, length (request_bytes pb r), rsp)) (serve pb s c r)"
proof -
  from assms have small: "fields_small r" "small_bytes (request_value pb r)"
    by (simp_all add: request_small_def)
  obtain m where m: "ac_decode_protobuf_msg_with_n_fields pb (request_bytes pb r @ rest) 2
      = Some (m, length (request_bytes pb r))"
    "parseIMRequestFromProtobufMsg pb m = Some \<lparr>imq_type = request_type r, imq_value = request_value pb r\<rparr>"
    using decode_request [OF small(2)] by blast
  obtain cmd where cmd: "List.find (\<lambda>cmd. cmd_type cmd = request_type r) enabled_commands = Some cmd"
    "cmd_run cmd pb s c (request_value pb r) = request_run pb s c r"
    using dispatch [OF small(1)] by blast
  show ?thesis
    by (cases "request_run pb s c r") (auto simp: parse_command_def m cmd serve_def simp flip: parse_command_end)
qed

text \<open>Less than a whole request is left alone until more arrives.\<close>

lemma parse_command_waits:
  assumes "small_bytes (request_value pb r)" and "request_bytes pb r = p @ q" and "q \<noteq> []"
  shows "parse_command pb s c p = Some (s, 0, None)"
proof -
  let ?m = "encodeIMRequestToProtobufMsg \<lparr>imq_type = request_type r, imq_value = request_value pb r\<rparr>"
  have "wf_msg ?m" using assms(1) by (simp add: codec_simps)
  moreover have "length ?m = 2" by (simp add: encodeIMRequestToProtobufMsg_def)
  moreover have "ac_encode_protobuf_msg pb ?m = p @ q"
    using assms(2) by (simp add: request_bytes_def encodeIMRequestToBytes_def)
  ultimately have "ac_decode_protobuf_msg_with_n_fields pb p 2 = None"
    using decode_n_incomplete [of ?m p q] assms(3) by simp
  then show ?thesis by (simp add: parse_command_def)
qed

lemma request_bytes_nonempty: "small_bytes (request_value pb r) \<Longrightarrow> request_bytes pb r \<noteq> []"
  unfolding request_bytes_def encodeIMRequestToBytes_def by (rule encode_nonempty) (simp add: codec_simps)

end

section \<open>Safety of a request\<close>

text \<open>What the code relies on and does not check: a login that is going to be accepted comes on a connection
  that is open (it may have been closed by a logout just before, in what was received at once) and nobody
  is logged in on, for a user no connection is linked to; and the chunks of one connection stay below
  \<open>2 ^ 31\<close>.\<close>

fun admissible :: "server \<Rightarrow> cref \<Rightarrow> request \<Rightarrow> bool" where
  "admissible s c (Login q) \<longleftrightarrow> (\<forall>u x cl. findUser s (lr_username q) = Some u \<longrightarrow> users s u = Some x \<longrightarrow>
     client_store s c = Some cl \<longrightarrow> \<not> now s < u_last_blocked x \<longrightarrow> u_password x = cstr (lr_password q) \<longrightarrow>
     \<not> session_live s x \<longrightarrow> u_client x = None \<and> c_user cl = None \<and> c_fd cl \<in> open_fds s)"
| "admissible s c (RegisterFile q) \<longleftrightarrow> (\<forall>cl. client_store s c = Some cl \<longrightarrow>
     unat (c_nchunks cl) + unat (rfr_chunks q) < 2 ^ 31)"
| "admissible s c (RegisterChunk q) \<longleftrightarrow> (\<forall>cl. client_store s c = Some cl \<longrightarrow>
     unat (c_nchunks cl) + length (rcr_chunks q) div 4 < 2 ^ 31)"
| "admissible s c r \<longleftrightarrow> True"

text \<open>No connection comes or goes, and no input buffer changes.\<close>

definition keeps_input :: "'a proc_scheme \<Rightarrow> 'a proc_scheme \<Rightarrow> bool" where
  "keeps_input s t \<longleftrightarrow> (\<forall>c. map_option c_inbuffer (client_store t c) = map_option c_inbuffer (client_store s c))"

lemma keeps_input_refl [simp]: "keeps_input s s"
  by (simp add: keeps_input_def)

lemma keeps_input_trans: "keeps_input r s \<Longrightarrow> keeps_input s t \<Longrightarrow> keeps_input r t"
  by (simp add: keeps_input_def)

lemma keeps_input_client:
  assumes "keeps_input s t" and "client_store s c = Some cl"
  obtains cl' where "client_store t c = Some cl'" and "c_inbuffer cl' = c_inbuffer cl"
  using assms by (auto simp: keeps_input_def dest!: spec [of _ c])

lemma keeps_input_put_user [simp]: "keeps_input s (put_user u x s)"
  by (simp add: keeps_input_def heap_simps)

lemma keeps_input_frame:
  assumes "net_frame s t"
  shows "keeps_input s t"
proof -
  have "map_option c_inbuffer (client_store t c) = map_option c_inbuffer (client_store s c)" for c
  proof (cases "client_store s c")
    case None
    with net_frame_dom(2) [OF assms] show ?thesis by auto
  next
    case (Some k)
    with assms obtain l where "client_store t c = Some l" "frame_client k l" by (rule net_frame_client)
    with Some frame_client_fields show ?thesis by auto
  qed
  then show ?thesis by (simp add: keeps_input_def)
qed

lemma keeps_input_buffers: "buffers_only s t \<Longrightarrow> keeps_input s t"
  by (rule keeps_input_frame [OF net_frame_buffers])

lemma keeps_input_chunks: "chunks_added c ks s t \<Longrightarrow> keeps_input s t"
  unfolding chunks_added_def keeps_input_def by metis

lemma keeps_input_files [simp]:
  "keeps_input ((s :: server)\<lparr>file_root := r, global_chunk_id := g\<rparr>) t = keeps_input s t"
  by (simp add: keeps_input_def)

abbreviation safe_result :: "server \<Rightarrow> IMResponse option \<times> server \<Rightarrow> bool" where
  "safe_result s r \<equiv> srv_inv (snd r) \<and> keeps_input s (snd r)"

lemma login_safe:
  assumes inv: "srv_inv s" and cl: "client_store s c = Some cl" and adm: "admissible s c (Login q)"
  shows "returns (cmd_login_impl pb s c q) (safe_result s)"
proof (cases "findUser s (lr_username q)")
  case None
  with cmd_login_refused(1) [OF inv None] inv show ?thesis by (simp add: exit_reply_def)
next
  case (Some u)
  from findUser_SomeD [OF srv_invD(5) [OF inv] this] obtain x where x: "users s u = Some x" by blast
  note refused = cmd_login_refused(2-4) [OF inv Some x]
  show ?thesis
  proof (cases "now s < u_last_blocked x")
    case True
    with refused(1) inv show ?thesis by (simp add: exit_reply_def)
  next
    case nb: False
    show ?thesis
    proof (cases "u_password x = cstr (lr_password q)")
      case False
      with refused(2) nb inv srv_inv_after_wrong [OF inv x] show ?thesis by (simp add: exit_reply_def)
    next
      case pw: True
      show ?thesis
      proof (cases "session_live s x")
        case True
        with refused(3) nb pw inv show ?thesis by (simp add: exit_reply_def)
      next
        case False
        with adm Some x nb pw cl have ok: "u_client x = None" "c_user cl = None" "c_fd cl \<in> open_fds s" by auto
        from login_spec [OF srv_invD(1) [OF inv], of pb "lr_username q" "lr_password q"] Some x nb pw False
        obtain t where t: "login pb s (lr_username q) (lr_password q) = Some (0, Some u, t)"
          "notified u (login_notice pb (lr_username q)) (put_user u (after_login s x) s) t"
          by (auto elim!: returnsE)
        have "keeps_input s t"
          by (rule keeps_input_trans [OF keeps_input_put_user])
            (use t(2) in \<open>auto simp: notified_simps intro: keeps_input_buffers\<close>)
        moreover from cmd_login_accepted [OF inv Some x nb pw ok(1) cl ok(2,3), of pb] t(1)
        have "returns (cmd_login_impl pb s c q) (\<lambda>(rsp, t'). srv_inv t' \<and> (\<exists>k us. client_store t c = Some k \<and>
            t' = put_client c (k\<lparr>c_user := Some u, c_addr := (c_addr k)\<lparr>sin_port := htons (ucast (lr_port q))\<rparr>\<rparr>)
              (put_user u us t)))"
          by (auto simp: cmd_login_impl_def text_reply_def heap_simps elim!: returnsE split: Option.bind_splits)
        ultimately show ?thesis
          by (elim returns_mono) (auto simp: keeps_input_def heap_simps, metis option.map(2))
      qed
    qed
  qed
qed

lemma message_safe:
  assumes inv: "srv_inv s" and cl: "client_store s c = Some cl"
  shows "returns (cmd_message_impl pb s c q) (safe_result s)"
  unfolding cmd_message_impl_def
proof (rule require_login_returns [OF inv cl], goal_cases)
  case 1
  with inv show ?case by simp
next
  case (2 me x)
  note run = require_login_ok [OF 2]
  have "returns (cmd_message_impl pb s c q) (safe_result s)"
  proof (cases "mr_broadcast q")
    case True
    from cmd_message_broadcast [OF inv 2 True, where pb = pb] show ?thesis
      by (elim returns_mono) (auto simp: told_def intro: keeps_input_buffers)
  next
    case False
    note direct = cmd_message_direct [OF inv 2 False, where pb = pb]
    show ?thesis
    proof (cases "findUser s (mr_username q)")
      case None
      with direct(1) inv show ?thesis by (simp add: text_reply_def)
    next
      case (Some u)
      from findUser_SomeD [OF srv_invD(5) [OF inv] this] obtain y where y: "users s u = Some y" by blast
      show ?thesis
      proof (cases "me \<in> set (u_blocked y)")
        case True
        with direct(2) [OF Some y] inv show ?thesis by (simp add: text_reply_def)
      next
        case nb: False
        from direct(3) [OF Some y nb] show ?thesis
          by (elim returns_mono) (auto simp: sent_user_def intro: keeps_input_buffers)
      qed
    qed
  qed
  then show ?case by (simp only: cmd_message_impl_def run)
qed

text \<open>The others are their branch lemmas.\<close>

lemma block_safe:
  assumes inv: "srv_inv s" and cl: "client_store s c = Some cl"
  shows "returns (cmd_block_impl pb s c q) (safe_result s)"
proof (cases "\<exists>me x. logged s c me x")
  case True
  then obtain me x where "logged s c me x" by blast
  from cmd_block_spec [OF inv this, where req = q and pb = pb] show ?thesis by (auto simp: text_reply_def)
next
  case False
  with require_login_no [OF inv cl False] inv show ?thesis by (simp add: cmd_block_impl_def text_reply_def)
qed

lemma unblock_safe:
  assumes inv: "srv_inv s" and cl: "client_store s c = Some cl"
  shows "returns (cmd_unblock_impl pb s c q) (safe_result s)"
proof (cases "\<exists>me x. logged s c me x")
  case True
  then obtain me x where "logged s c me x" by blast
  from cmd_unblock_spec [OF inv this, where req = q and pb = pb] show ?thesis by (auto simp: text_reply_def)
next
  case False
  with require_login_no [OF inv cl False] inv show ?thesis by (simp add: cmd_unblock_impl_def text_reply_def)
qed

lemma logout_safe:
  assumes inv: "srv_inv s" and cl: "client_store s c = Some cl"
  shows "returns (cmd_logout_impl pb s c q) (safe_result s)"
  unfolding cmd_logout_impl_def
  using close_socket_inv [OF inv cl, of pb] inv
  by (intro require_login_returns [OF inv cl]) (auto intro: keeps_input_frame elim!: returns_mono)

lemma whoelse_safe:
  assumes inv: "srv_inv s" and cl: "client_store s c = Some cl"
  shows "returns (cmd_whoelse_impl pb s c q) (safe_result s)"
proof (cases "\<exists>me x. logged s c me x")
  case True
  then obtain me x where "logged s c me x" by blast
  from cmd_whoelse_spec [OF inv this, of pb q] inv show ?thesis by (simp add: text_reply_def Let_def)
next
  case False
  with require_login_no [OF inv cl False] inv show ?thesis by (simp add: cmd_whoelse_impl_def text_reply_def)
qed

lemma getip_safe:
  assumes inv: "srv_inv s" and cl: "client_store s c = Some cl"
  shows "returns (cmd_getip_impl pb s c q) (safe_result s)"
proof (cases "\<exists>me x. logged s c me x")
  case True
  then obtain me x where "logged s c me x" by blast
  from cmd_getip_spec [OF inv this, of pb q] inv show ?thesis
    by (simp add: text_reply_def Let_def split: option.splits)
next
  case False
  with require_login_no [OF inv cl False] inv show ?thesis by (simp add: cmd_getip_impl_def text_reply_def)
qed

lemma searchfile_safe:
  assumes inv: "srv_inv s" and cl: "client_store s c = Some cl"
  shows "returns (cmd_searchfile_impl pb s c q) (safe_result s)"
proof (cases "\<exists>me x. logged s c me x")
  case True
  then obtain me x where me: "logged s c me x" by blast
  show ?thesis
  proof (cases "findFile (file_root s) (sfr_filename q)")
    case None
    with inv show ?thesis
      by (simp add: cmd_searchfile_impl_def require_login_ok [OF me] text_reply_def Let_def)
  next
    case (Some f)
    from cmd_searchfile_spec [OF inv me Some, of pb] inv show ?thesis by (simp add: text_reply_def)
  qed
next
  case False
  with require_login_no [OF inv cl False] inv show ?thesis by (simp add: cmd_searchfile_impl_def text_reply_def)
qed

lemma regfile_safe:
  assumes inv: "srv_inv s" and cl: "client_store s c = Some cl" and adm: "admissible s c (RegisterFile q)"
  shows "returns (cmd_regfile_impl pb s c q) (safe_result s)"
proof (cases "\<exists>me x. logged s c me x")
  case True
  then obtain me x where me: "logged s c me x" by blast
  show ?thesis
  proof (cases "find_range (file_root s) (cstr (rfr_filename q))")
    case None
    from cmd_regfile_new [OF inv me cl None, of pb] adm cl show ?thesis
      by (auto intro: keeps_input_chunks elim!: returns_mono)
  next
    case (Some w)
    from cmd_regfile_taken [OF inv me Some, of pb] show ?thesis
      by (elim returns_mono) (auto simp: keeps_input_def)
  qed
next
  case False
  with require_login_no [OF inv cl False] inv show ?thesis by (simp add: cmd_regfile_impl_def text_reply_def)
qed

lemma regchunk_safe:
  assumes inv: "srv_inv s" and cl: "client_store s c = Some cl" and adm: "admissible s c (RegisterChunk q)"
  shows "returns (cmd_regchunk_impl pb s c q) (safe_result s)"
proof (cases "\<exists>me x. logged s c me x")
  case True
  then obtain me x where me: "logged s c me x" by blast
  note spec = cmd_regchunk_spec [OF inv me cl, where req = q and pb = pb]
  show ?thesis
  proof (cases "findFile (file_root s) (rcr_filename q)")
    case None
    with spec(1) inv show ?thesis by (simp add: text_reply_def)
  next
    case (Some f)
    from spec(2) [OF Some] adm cl show ?thesis by (auto intro: keeps_input_chunks elim!: returns_mono)
  qed
next
  case False
  with require_login_no [OF inv cl False] inv show ?thesis by (simp add: cmd_regchunk_impl_def text_reply_def)
qed

lemma request_run_safe:
  assumes "srv_inv s" and "client_store s c = Some cl" and "admissible s c r"
  shows "returns (request_run pb s c r) (safe_result s)"
  using assms
  by (cases r) (simp_all only: request_run.simps login_safe message_safe block_safe unblock_safe logout_safe
      whoelse_safe getip_safe searchfile_safe regfile_safe regchunk_safe)

lemma refreshed_inv:
  assumes "srv_inv (s :: server)" and "users s u = Some x"
  shows "srv_inv (put_user u (x\<lparr>u_last_active := now s\<rparr>) s)"
proof -
  have "user_ok s u (x\<lparr>u_last_active := now s\<rparr>)"
    using heap_invD(2) [OF srv_invD(1) [OF assms(1)] assms(2)] by (simp add: user_ok_def)
  with assms show ?thesis by (auto intro: srv_inv_put_user)
qed

lemma refresh_safe:
  assumes inv: "srv_inv (snd r)" and cl: "client_store (snd r) c = Some cl"
  shows "returns (refresh c r) (\<lambda>(t, rsp). rsp = fst r \<and> srv_inv t \<and> keeps_input (snd r) t)"
proof (cases "c_user cl")
  case None
  with inv cl show ?thesis by (simp add: refresh_def)
next
  case (Some u)
  with heap_inv_client(5) [OF srv_invD(1) [OF inv] cl, of u] obtain x where x: "users (snd r) u = Some x" by auto
  from refreshed_inv [OF inv x] inv cl Some x show ?thesis
    by (cases "session_live (snd r) x") (auto simp: refresh_def Let_def put_user_def [symmetric] heap_simps)
qed

lemma serve_safe:
  assumes inv: "srv_inv s" and cl: "client_store s c = Some cl" and adm: "admissible s c r"
  shows "returns (serve pb s c r) (\<lambda>(t, rsp). srv_inv t \<and> keeps_input s t)"
proof -
  from request_run_safe [OF assms, of pb] obtain q where
    q: "request_run pb s c r = Some q" "srv_inv (snd q)" "keeps_input s (snd q)" by (auto elim!: returnsE)
  obtain cl' where "client_store (snd q) c = Some cl'"
    using q(3) cl by (rule keeps_input_client)
  from refresh_safe [OF q(2) this] q show ?thesis
    by (auto simp: serve_def intro: keeps_input_trans elim!: returns_mono)
qed

section \<open>The receive loop\<close>

text \<open>One round of the loop for a whole request, and what it needs for a run of them.\<close>

definition serve_one :: "pb_lib \<Rightarrow> cref \<Rightarrow> request \<Rightarrow> server \<Rightarrow> server option" where
  "serve_one pb c r s = serve_message pb (request_bytes pb) (serve pb) c r s"

lemma serve_one_message: "serve_message pb (request_bytes pb) (serve pb) = serve_one pb"
  by (simp add: serve_one_def fun_eq_iff)

fun admissible_all :: "pb_lib \<Rightarrow> cref \<Rightarrow> request list \<Rightarrow> server \<Rightarrow> bool" where
  "admissible_all pb c [] s \<longleftrightarrow> True"
| "admissible_all pb c (r # rs) s \<longleftrightarrow> admissible s c r
     \<and> (case serve_one pb c r s of None \<Rightarrow> True | Some t \<Rightarrow> admissible_all pb c rs t)"

lemma respond_safe:
  assumes inv: "srv_inv s" and cl: "client_store s c = Some cl"
  shows "returns (respond pb c rsp s) (\<lambda>t. srv_inv t \<and> buffers_only s t)"
proof (cases rsp)
  case None
  with inv show ?thesis by (simp add: respond_def)
next
  case (Some m)
  from send_response_to_client_spec [OF srv_invD(1) [OF inv] cl, of pb m] Some inv show ?thesis
    by (auto simp: respond_def sent_client_def intro: srv_inv_buffers elim!: returns_mono)
qed

lemma srv_inv_put_input:
  assumes "srv_inv s" and cl: "client_store s c = Some cl" and "buf_ok b"
  shows "srv_inv (put_client c (cl\<lparr>c_inbuffer := b\<rparr>) s)"
proof -
  have "client_ok {} s c (cl\<lparr>c_inbuffer := b\<rparr>)"
    using heap_invD(3) [OF srv_invD(1) [OF assms(1)] cl] assms(3) by (simp add: client_ok_def)
  with assms(1,2) show ?thesis by (rule srv_inv_put_client) simp_all
qed

lemma serve_one_safe:
  assumes inv: "srv_inv s" and cl: "client_store s c = Some cl" and adm: "admissible s c r"
    and p: "pending (c_inbuffer cl) = request_bytes pb r @ rest"
  shows "returns (serve_one pb c r s) (\<lambda>t. srv_inv t
    \<and> (\<exists>cl'. client_store t c = Some cl' \<and> pending (c_inbuffer cl') = rest))"
proof -
  from serve_safe [OF inv cl adm, of pb] obtain s1 rsp where
    s1: "serve pb s c r = Some (s1, rsp)" "srv_inv s1" "keeps_input s s1" by (auto elim!: returnsE)
  obtain cl1 where cl1: "client_store s1 c = Some cl1" "c_inbuffer cl1 = c_inbuffer cl"
    using s1(3) cl by (rule keeps_input_client)
  from respond_safe [OF s1(2) cl1(1), of pb rsp] obtain s2 where
    s2: "respond pb c rsp s1 = Some s2" "srv_inv s2" "buffers_only s1 s2" by (auto elim!: returnsE)
  obtain cl2 where cl2: "client_store s2 c = Some cl2" "c_inbuffer cl2 = c_inbuffer cl"
    using keeps_input_buffers [OF s2(3)] cl1 by (metis keeps_input_client)
  let ?n = "length (request_bytes pb r)"
  have ok: "buf_ok (c_inbuffer cl)" using heap_inv_client(2) [OF srv_invD(1) [OF inv] cl] .
  note a = advance_rest [OF ok p, folded cl2(2)]
  from srv_inv_put_input [OF s2(2) cl2(1) a(1)] s1(1) s2(1) cl2 a(2) show ?thesis
    by (simp add: serve_one_def serve_message_def heap_simps)
qed

text \<open>Less than a request: nothing, or the beginning of one.\<close>

definition partial_request :: "pb_lib \<Rightarrow> bytes \<Rightarrow> bool" where
  "partial_request pb = partial_message (request_bytes pb) (\<lambda>r. small_bytes (request_value pb r))"

text \<open>The dispatcher is a handler as the receive loop wants it.\<close>

context pb_codec
begin

lemma request_stream:
  "message_stream (parse_command pb) (request_bytes pb) (serve pb) (\<lambda>_. True) (request_small pb)
    (\<lambda>r. small_bytes (request_value pb r))"
proof
  show "request_small pb r \<Longrightarrow> request_bytes pb r \<noteq> []" for r
    using request_bytes_nonempty by (simp add: request_small_def)
  show "parse_command pb s c (request_bytes pb r @ rest) =
      map_option (\<lambda>(t, rsp). (t, length (request_bytes pb r), rsp)) (serve pb s c r)" if "request_small pb r" for r s c rest
    using that by (rule parse_command_request)
  show "parse_command pb s c p = Some (s, 0, None)"
    if "small_bytes (request_value pb r)" "request_bytes pb r = p @ q" "q \<noteq> []" for r p q s c
    using that by (rule parse_command_waits)
qed

end

sublocale pb_codec < requests: message_stream "parse_command pb" "request_bytes pb" "serve pb" "\<lambda>_. True"
    "request_small pb" "\<lambda>r. small_bytes (request_value pb r)"
  by (rule request_stream)

context pb_codec
begin

text \<open>A run of whole requests followed by the beginning of another: every whole one is served, in
  order, and the rest stays in the buffer.\<close>

lemma recv_loop_stream:
  assumes "srv_inv s" and "client_store s c = Some cl" and "\<forall>r \<in> set rs. request_small pb r"
    and "pending (c_inbuffer cl) = concat (map (request_bytes pb) rs) @ p" and "partial_request pb p"
    and "admissible_all pb c rs s"
  shows "returns (recv_loop pb (parse_command pb) c s) (\<lambda>t. foldM (serve_one pb c) rs s = Some t \<and> srv_inv t
    \<and> (\<exists>cl'. client_store t c = Some cl' \<and> pending (c_inbuffer cl') = p))"
proof -
  let ?I = "\<lambda>rs s. srv_inv s \<and> admissible_all pb c rs s \<and> (\<forall>r \<in> set rs. request_small pb r)"
  have step: "returns (serve_one pb c r s) (\<lambda>t. ?I rs t
      \<and> (\<exists>cl'. client_store t c = Some cl' \<and> buf_ok (c_inbuffer cl') \<and> pending (c_inbuffer cl') = rest))"
    if I: "?I (r # rs) s" and cl: "client_store s c = Some cl" and p: "pending (c_inbuffer cl) = request_bytes pb r @ rest"
    for r rs s cl rest
  proof -
    from serve_one_safe [OF _ cl _ p] I obtain t cl' where
      t: "serve_one pb c r s = Some t" "srv_inv t" "client_store t c = Some cl'" "pending (c_inbuffer cl') = rest"
      by (auto elim!: returnsE)
    then have "buf_ok (c_inbuffer cl')" using heap_inv_client(2) [OF srv_invD(1)] by blast
    with I t show ?thesis by simp
  qed
  have ok: "buf_ok (c_inbuffer cl)" using heap_inv_client(2) [OF srv_invD(1) [OF assms(1)] assms(2)] .
  have "?I rs s" using assms(1,3,6) by simp
  have fit: "request_small pb r \<and> True" if "?I (r # rs) s" for r rs s using that by simp
  have "returns (recv_loop pb (parse_command pb) c s) (\<lambda>t. foldM (serve_one pb c) rs s = Some t \<and> ?I [] t
      \<and> (\<exists>cl'. client_store t c = Some cl' \<and> buf_ok (c_inbuffer cl') \<and> pending (c_inbuffer cl') = p))"
    by (rule requests.loop_stream [where pb = pb and I = ?I and c = c, unfolded serve_one_message, OF fit step _ assms(2) ok assms(4)
      assms(5) [unfolded partial_request_def]]) (assumption | fact \<open>?I rs s\<close>)+
  then show ?thesis by (rule returns_mono) blast
qed

lemma receive_stream:
  assumes inv: "srv_inv s" and cl: "client_store s c = Some cl" and small: "\<forall>r \<in> set rs. request_small pb r"
    and data: "data \<noteq> []" "length data \<le> recv_room (recv_prepare (c_inbuffer cl))"
    and p: "pending (c_inbuffer cl) @ data = concat (map (request_bytes pb) rs) @ p" "partial_request pb p"
    and adm: "admissible_all pb c rs (put_client c (cl\<lparr>c_inbuffer := recv_store (recv_prepare (c_inbuffer cl)) data\<rparr>) s)"
  shows "returns (im_receive_command pb (parse_command pb) s c (Recv data)) (\<lambda>t. srv_inv t
    \<and> foldM (serve_one pb c) rs
        (put_client c (cl\<lparr>c_inbuffer := recv_store (recv_prepare (c_inbuffer cl)) data\<rparr>) s) = Some t
    \<and> (\<exists>cl'. client_store t c = Some cl' \<and> pending (c_inbuffer cl') = p))"
proof -
  let ?b = "recv_store (recv_prepare (c_inbuffer cl)) data"
  let ?s = "put_client c (cl\<lparr>c_inbuffer := ?b\<rparr>) s"
  have ok: "buf_ok (c_inbuffer cl)" using heap_inv_client(2) [OF srv_invD(1) [OF inv] cl] .
  note prep = recv_prepare_ok(1,2) [OF ok]
  have b: "buf_ok ?b" "pending ?b = pending (c_inbuffer cl) @ data"
    using recv_store_ok [OF prep(1), of data] data(2) prep(2) by simp_all
  have "srv_inv ?s" using inv cl b(1) by (rule srv_inv_put_input)
  moreover have "client_store ?s c = Some (cl\<lparr>c_inbuffer := ?b\<rparr>)" by (simp add: heap_simps)
  ultimately have "returns (recv_loop pb (parse_command pb) c ?s) (\<lambda>t. foldM (serve_one pb c) rs ?s = Some t
      \<and> srv_inv t \<and> (\<exists>cl'. client_store t c = Some cl' \<and> pending (c_inbuffer cl') = p))"
    using small _ p(2) adm by (rule recv_loop_stream) (simp add: b(2) p(1))
  with cl data(1) show ?thesis by (auto simp: im_receive_command_def Let_def elim!: returns_mono)
qed

end

end
