(* ===== verification/Events.thy ===== *)
theory Events
  imports Dispatch
begin

text \<open>
  The events of the server: a new connection, input, output, a hang-up, and the sweep of the time
  thread.  Each keeps the invariant, and the step relation at the end makes this a statement about
  every state the server can reach.
\<close>

section \<open>The connection table\<close>

lemma find_fd_spec:
  assumes "set cs \<subseteq> dom (client_store s)"
  shows "returns (find_fd s cs fd) (\<lambda>r. case r of
      None \<Rightarrow> \<forall>c \<in> set cs. \<forall>cl. client_store s c = Some cl \<longrightarrow> c_fd cl \<noteq> fd
    | Some i \<Rightarrow> i < length cs \<and> (\<exists>cl. client_store s (cs ! i) = Some cl \<and> c_fd cl = fd))"
  using assms
proof (induction cs)
  case (Cons c cs)
  then obtain cl where "client_store s c = Some cl" by auto
  with Cons show ?case by (auto split: option.splits elim!: returns_mono)
qed simp

lemma lookup_client_spec:
  assumes "srv_inv s"
  shows "returns (lookup_client s fd) (\<lambda>r. case r of
      None \<Rightarrow> \<forall>c cl. client_store s c = Some cl \<longrightarrow> c_fd cl \<noteq> fd
    | Some i \<Rightarrow> i < length (clients s) \<and> (\<exists>cl. client_store s (clients s ! i) = Some cl \<and> c_fd cl = fd))"
proof -
  have c: "set (clients s) = dom (client_store s)" using conns_okD(1) [OF srv_invD(3) [OF assms]] .
  show ?thesis
    unfolding lookup_client_def using find_fd_spec [OF equalityD1 [OF c], of fd]
    by (rule returns_mono) (auto simp: c split: option.splits)
qed

text \<open>A new connection in the table, in place of \<open>gone\<close> when its descriptor is used again.\<close>

lemma put_fresh_inv:
  assumes inv: "heap_inv L s" and new: "client_store s c = None" "c \<notin> L"
  shows "heap_inv L (s\<lparr>client_store := (client_store s)(c \<mapsto> new_client fd a), next_client := n, epoll := e,
     open_fds := f\<rparr>)" (is "heap_inv L ?t")
proof -
  have "db_ok ?t" using heap_invD(1) [OF inv] by (subst db_ok_cong [of _ s]) simp_all
  moreover have "user_ok ?t v z" if z: "users ?t v = Some z" for v z
    using heap_invD(2) [OF inv, of v z] z new by (auto simp: user_ok_def)
  moreover have "client_ok L ?t d j" if j: "client_store ?t d = Some j" for d j
    using heap_invD(3) [OF inv, of d j] j new
    by (auto simp: client_ok_def new_client_def init_buffer_ok MSG_LIMIT_def OUT_BUFFER_DEFAULT_SIZE_def split: if_splits)
  ultimately show ?thesis by (simp add: heap_inv_def)
qed

lemma free_client_inv:
  assumes inv: "heap_inv L s" and c: "client_store s c = Some cl" "c_user cl = None"
  shows "heap_inv L (free_client s c)"
proof -
  have "db_ok (free_client s c)"
    using heap_invD(1) [OF inv] by (subst db_ok_cong [of _ s]) (simp_all add: free_client_def)
  moreover have "user_ok (free_client s c) v z" if z: "users s v = Some z" for v z
    using heap_invD(2) [OF inv z] c by (auto simp: user_ok_def free_client_def)
  moreover have "client_ok L (free_client s c) d j" if "client_store (free_client s c) d = Some j" for d j
    using heap_invD(3) [OF inv, of d j] that by (auto simp: client_ok_def free_client_def split: if_splits)
  ultimately show ?thesis by (simp add: heap_inv_def free_client_def)
qed

lemma set_replace:
  "distinct xs \<Longrightarrow> i < length xs \<Longrightarrow> set (xs[i := y]) = insert y (set xs - {xs ! i})"
  by (simp add: set_update_distinct)

lemma fds_stay_unique:
  assumes old: "\<And>d e k l. m d = Some k \<Longrightarrow> m e = Some l \<Longrightarrow> c_fd k = c_fd l \<Longrightarrow> d = e"
    and free: "\<And>d k. m d = Some k \<Longrightarrow> c_fd k \<noteq> fd"
    and m': "(m(c \<mapsto> new_client fd a)) d = Some k" "(m(c \<mapsto> new_client fd a)) e = Some l" "c_fd k = c_fd l"
  shows "d = e"
proof (cases "d = c"; cases "e = c")
  assume "d \<noteq> c" "e \<noteq> c"
  then show ?thesis by (intro old [of d k e l]) (use m' in simp_all)
next
  assume "d = c" "e \<noteq> c"
  with m' have "m e = Some l" "c_fd l = fd" by (auto simp: new_client_def)
  with free show ?thesis by blast
next
  assume "d \<noteq> c" "e = c"
  with m' have "m d = Some k" "c_fd k = fd" by (auto simp: new_client_def)
  with free show ?thesis by blast
qed simp

lemma add_client_spec:
  assumes inv: "srv_inv s" and fd: "fd \<notin> open_fds s" and room: "length (clients s) < MAX_CLIENTS"
  shows "returns (add_client s fd a) (\<lambda>(c, t). srv_inv t \<and> client_store t c = Some (new_client fd a)
    \<and> fd \<in> open_fds t \<and> users t = users s \<and> c \<in> set (clients t)
    \<and> udb t = udb s \<and> now t = now s \<and> c = next_client s \<and> next_client t = Suc c
    \<and> (\<forall>d k. d \<noteq> c \<longrightarrow> client_store t d = Some k \<longleftrightarrow> client_store s d = Some k \<and> c_fd k \<noteq> fd))"
proof -
  note conns = conns_okD [OF srv_invD(3) [OF inv]]
  let ?c = "next_client s"
  have fresh: "client_store s ?c = None" using conns(3) [of ?c] by (cases "client_store s ?c") auto
  from lookup_client_spec [OF inv, of fd] obtain r where
    r: "lookup_client s fd = Some r" and look: "case r of
      None \<Rightarrow> \<forall>c cl. client_store s c = Some cl \<longrightarrow> c_fd cl \<noteq> fd
    | Some i \<Rightarrow> i < length (clients s) \<and> (\<exists>cl. client_store s (clients s ! i) = Some cl \<and> c_fd cl = fd)"
    by (rule returnsE)
  show ?thesis
  proof (cases r)
    case None
    with look have none: "c_fd cl \<noteq> fd" if "client_store s c = Some cl" for c cl using that by auto
    let ?t = "s\<lparr>client_store := (client_store s)(?c \<mapsto> new_client fd a), next_client := Suc ?c,
        epoll := (if epoll s fd = None then (epoll s)(fd \<mapsto> (True, False)) else epoll s),
        open_fds := insert fd (open_fds s), clients := clients s @ [?c]\<rparr>"
    have "heap_inv {} ?t"
      by (rule heap_inv_cong [THEN iffD2, OF _ _ _ _ put_fresh_inv [OF srv_invD(1) [OF inv] fresh, where fd = fd and a = a and n = "Suc ?c"]])
        simp_all
    moreover have "no_hooks ?t" using srv_invD(2) [OF inv] by (auto simp: no_hooks_def new_client_def)
    moreover have "conns_ok ?t"
      unfolding conns_ok_def
    proof (intro conjI allI ballI impI)
      show "set (clients ?t) = dom (client_store ?t)" using conns(1) by simp
      show "distinct (clients ?t)" using conns(1,2) fresh by auto
      show "d < next_client ?t" if "d \<in> dom (client_store ?t)" for d
        using that conns(3) [of d] by (cases "d = ?c") (auto simp: domIff less_SucI)
    next
      fix d e k l assume "client_store ?t d = Some k" "client_store ?t e = Some l" "c_fd k = c_fd l"
      with conns(4) none show "d = e" by (intro fds_stay_unique [of "client_store s" fd ?c a d k e l]) auto
    next
      fix d k assume "client_store ?t d = Some k" "c_user k \<noteq> None"
      then show "c_fd k \<in> open_fds ?t" using conns(5) [of d k] by (auto simp: new_client_def split: if_splits)
    qed
    ultimately have "srv_inv ?t" by (simp add: srv_inv_def)
    with None r room none show ?thesis
      by (auto simp: add_client_def im_connection_accept_def Let_def split: if_splits)
  next
    case (Some i)
    with look obtain cl where i: "i < length (clients s)" "client_store s (clients s ! i) = Some cl" "c_fd cl = fd"
      by auto
    let ?g = "clients s ! i"
    have free: "c_user cl = None" using conns(5) [OF i(2)] i(3) fd by (cases "c_user cl") auto
    have only: "d = ?g" if "client_store s d = Some k" "c_fd k = fd" for d k
      using conns(4) [OF that(1) i(2)] that(2) i(3) by simp
    have old': "d = e" if "((client_store s)(?g := None)) d = Some k" "((client_store s)(?g := None)) e = Some l"
        "c_fd k = c_fd l" for d e k l
      using that conns(4) [of d k e l] by (simp split: if_splits)
    have free': "c_fd k \<noteq> fd" if "((client_store s)(?g := None)) d = Some k" for d k
      using that only [of d k] by (auto split: if_splits)
    have ne: "?g \<noteq> ?c" using fresh i(2) by auto
    let ?f = "free_client s ?g"
    have sets: "set ((clients s)[i := ?c]) = insert ?c (dom (client_store s) - {?g})"
      using set_replace [OF conns(2) i(1)] conns(1) by simp
    let ?t = "s\<lparr>client_store := ((client_store s)(?g := None))(?c \<mapsto> new_client fd a), next_client := Suc ?c,
        epoll := (if epoll s fd = None then (epoll s)(fd \<mapsto> (True, False)) else epoll s),
        open_fds := insert fd (open_fds s), clients := (clients s)[i := ?c]\<rparr>"
    have f: "heap_inv {} ?f" using srv_invD(1) [OF inv] i(2) free by (rule free_client_inv)
    have n: "client_store ?f ?c = None" using fresh by (simp add: free_client_def)
    have "heap_inv {} ?t"
      by (rule heap_inv_cong [THEN iffD2, OF _ _ _ _ put_fresh_inv [OF f n, where fd = fd and a = a and n = "Suc ?c"]])
        (simp_all add: free_client_def)
    moreover have "no_hooks ?t" using srv_invD(2) [OF inv] by (auto simp: no_hooks_def new_client_def)
    moreover have "conns_ok ?t"
      unfolding conns_ok_def
    proof (intro conjI allI ballI impI)
      show "set (clients ?t) = dom (client_store ?t)" using sets by auto
      show "distinct (clients ?t)" using conns(1,2) fresh by (simp add: distinct_list_update domIff)
      show "d < next_client ?t" if "d \<in> dom (client_store ?t)" for d
        using that conns(3) [of d] by (cases "d = ?c") (auto simp: domIff less_SucI)
    next
      fix d e k l assume *: "client_store ?t d = Some k" "client_store ?t e = Some l" "c_fd k = c_fd l"
      show "d = e"
        proof (rule fds_stay_unique [where m = "(client_store s)(?g := None)" and fd = fd and c = ?c and a = a])
        show "(((client_store s)(?g := None))(?c \<mapsto> new_client fd a)) d = Some k"
          and "(((client_store s)(?g := None))(?c \<mapsto> new_client fd a)) e = Some l" and "c_fd k = c_fd l"
          using * by simp_all
      qed (fact old', fact free')
    next
      fix d k assume "client_store ?t d = Some k" "c_user k \<noteq> None"
      then show "c_fd k \<in> open_fds ?t" using conns(5) [of d k] by (auto simp: new_client_def split: if_splits)
    qed
    ultimately have "srv_inv ?t" by (simp add: srv_inv_def)
    moreover have "add_client s fd a = Some (?c, ?t)"
      using Some r by (simp add: add_client_def im_connection_accept_def free_client_def Let_def)
    moreover have "client_store ?t d = Some k \<longleftrightarrow> client_store s d = Some k \<and> c_fd k \<noteq> fd" if "d \<noteq> ?c" for d k
    proof (cases "d = ?g")
      case True
      with i(2,3) that show ?thesis by auto
    next
      case False
      then have "client_store s d = Some k \<Longrightarrow> c_fd k \<noteq> fd" using only [of d k] by blast
      with False that show ?thesis by auto
    qed
    ultimately show ?thesis using sets by simp
  qed
qed

section \<open>Output\<close>

text \<open>The kernel takes at most what it is offered.\<close>

definition send_fits :: "im_buffer \<Rightarrow> send_result \<Rightarrow> bool" where
  "send_fits b r \<longleftrightarrow> (case r of Send_Error \<Rightarrow> True | Sent n \<Rightarrow> n \<le> length (pending b))"

lemma epoll_mod_facts:
  "dom (epoll_mod fd ev e) = dom e" "e fd \<noteq> None \<Longrightarrow> epoll_mod fd ev e = e(fd \<mapsto> ev)"
  by (auto simp: epoll_mod_def split: if_splits)

lemma im_send_buffer_spec:
  assumes "buf_ok b" and "send_fits b r" and run: "im_send_buffer fd b r ep = (out, b', ep')"
  shows "out @ pending b' = pending b" "buf_ok b'" "dom ep' = dom ep"
    "pending b' = [] \<Longrightarrow> ep fd \<noteq> None \<Longrightarrow> r \<noteq> Send_Error \<Longrightarrow> ep' = ep(fd \<mapsto> (True, False))"
    "pending b' \<noteq> [] \<Longrightarrow> ep' = ep"
proof -
  have "out @ pending b' = pending b \<and> buf_ok b' \<and> dom ep' = dom ep
    \<and> (pending b' = [] \<longrightarrow> ep fd \<noteq> None \<longrightarrow> r \<noteq> Send_Error \<longrightarrow> ep' = ep(fd \<mapsto> (True, False)))
    \<and> (pending b' \<noteq> [] \<longrightarrow> ep' = ep)"
  proof (cases "pending b = []")
    case True
    with run have "out = []" "b' = send_compact b" "ep' = epoll_mod fd (True, False) ep"
      by (auto simp: im_send_buffer_def Let_def)
    with True assms(1) show ?thesis by (simp add: epoll_mod_facts send_compact_ok)
  next
    case False
    then have len: "0 < length (pending b)" by (rule length_greater_0_conv [THEN iffD2])
    show ?thesis
    proof (cases r)
      case Send_Error
      with len assms(1) run False show ?thesis by (auto simp: im_send_buffer_def Let_def)
    next
      case (Sent n)
      with assms(2) have n: "n \<le> length (pending b)" by (simp add: send_fits_def)
      note t = send_take_ok [OF assms(1) n]
      have run': "out = fst (send_take n b)" "b' = snd (send_take n b)"
        "ep' = (if length (pending b) - n = 0 then epoll_mod fd (True, False) ep else ep)"
        using run len Sent by (simp_all add: im_send_buffer_def Let_def del: length_pending)
      have "pending b' = [] \<longleftrightarrow> length (pending b) - n = 0"
        unfolding run'(2) t(3) by (simp del: length_pending)
      with run' t show ?thesis by (simp add: epoll_mod_facts del: length_pending)
    qed
  qed
  then show "out @ pending b' = pending b" "buf_ok b'" "dom ep' = dom ep"
    "pending b' = [] \<Longrightarrow> ep fd \<noteq> None \<Longrightarrow> r \<noteq> Send_Error \<Longrightarrow> ep' = ep(fd \<mapsto> (True, False))"
    "pending b' \<noteq> [] \<Longrightarrow> ep' = ep" by blast+
qed

lemma heap_inv_epoll [simp]: "heap_inv L (s\<lparr>epoll := e\<rparr>) = heap_inv L s"
  by (rule heap_inv_cong) simp_all

lemma heap_inv_put_out:
  assumes "heap_inv L s" and "client_store s c = Some cl" and "buf_ok b"
  shows "heap_inv L (put_client c (cl\<lparr>c_outbuffer := b\<rparr>) s)"
  using assms(1,2) _ _
proof (rule put_client_inv)
  show "client_ok L s c (cl\<lparr>c_outbuffer := b\<rparr>)"
    using heap_invD(3) [OF assms(1,2)] assms(3) by (simp add: client_ok_def)
qed simp

lemma heap_inv_put_kept:
  assumes "heap_inv L s" and "users s u = Some x" and "buf_ok b"
  shows "heap_inv L (put_user u (x\<lparr>u_buffer := b\<rparr>) s)"
  using assms(1,2) _ _ _
proof (rule put_user_inv)
  show "user_ok s u (x\<lparr>u_buffer := b\<rparr>)"
    using heap_invD(2) [OF assms(1,2)] assms(3) by (simp add: user_ok_def)
qed simp_all

text \<open>What is kept for the user of a connection.\<close>

definition kept :: "'a proc_scheme \<Rightarrow> cref \<Rightarrow> bytes" where
  "kept s c = (case client_store s c of None \<Rightarrow> [] | Some cl \<Rightarrow>
     (case c_user cl of None \<Rightarrow> [] | Some u \<Rightarrow>
       (case users s u of None \<Rightarrow> [] | Some x \<Rightarrow> pending (u_buffer x))))"

definition flush_fits :: "server \<Rightarrow> cref \<Rightarrow> send_result \<Rightarrow> send_result \<Rightarrow> bool" where
  "flush_fits s c r1 r2 \<longleftrightarrow> (\<forall>cl. client_store s c = Some cl \<longrightarrow> send_fits (c_outbuffer cl) r1
     \<and> (\<forall>u x. c_user cl = Some u \<longrightarrow> users s u = Some x \<longrightarrow> send_fits (u_buffer x) r2))"

text \<open>What has waited anywhere is what has been taken from its front, \<open>o1\<close> from the connection \<open>c\<close> and
  \<open>o2\<close> from what was kept for its user, and what still waits.\<close>

definition drains :: "cref \<Rightarrow> bytes \<Rightarrow> bytes \<Rightarrow> 'a proc_scheme \<Rightarrow> 'a proc_scheme \<Rightarrow> bool" where
  "drains c o1 o2 s t \<longleftrightarrow> (\<forall>d. cout s d = (if d = c then o1 else []) @ cout t d)
     \<and> (\<forall>u x y. users s u = Some x \<longrightarrow> users t u = Some y \<longrightarrow> pending (u_buffer x) =
         (if Option.bind (client_store s c) c_user = Some u then o2 else []) @ pending (u_buffer y))
     \<and> (o2 \<noteq> [] \<longrightarrow> (\<exists>u x. Option.bind (client_store s c) c_user = Some u \<and> users s u = Some x \<and> session_live s x))"

lemma drains_put:
  assumes "client_store s c = Some cl" and "o1 @ pending b = pending (c_outbuffer cl)"
  shows "drains c o1 [] s ((put_client c (cl\<lparr>c_outbuffer := b\<rparr>) s)\<lparr>epoll := e\<rparr>)"
    "c_user cl = Some u \<Longrightarrow> users s u = Some x \<Longrightarrow> session_live s x \<Longrightarrow> o2 @ pending b2 = pending (u_buffer x) \<Longrightarrow>
      drains c o1 o2 s ((put_user u (x\<lparr>u_buffer := b2\<rparr>) ((put_client c (cl\<lparr>c_outbuffer := b\<rparr>) s)\<lparr>epoll := e\<rparr>))\<lparr>epoll := e2\<rparr>)"
  using assms by (auto simp: drains_def cout_def heap_simps)

text \<open>Flushing writes a prefix of what was waiting, the connection's bytes first, and loses nothing.\<close>

lemma flush_client_spec:
  assumes inv: "srv_inv s" and cl: "client_store s c = Some cl" and fits: "flush_fits s c r1 r2"
  shows "returns (flush_client s c r1 r2) (\<lambda>(out, t). srv_inv t \<and> buffers_only s t
    \<and> (\<exists>o1 o2. out = o1 @ o2 \<and> o1 @ cout t c = cout s c \<and> o2 @ kept t c = kept s c \<and> drains c o1 o2 s t))"
proof -
  note H = srv_invD(1) [OF inv]
  have nl: "\<not> c_locked cl" using heap_inv_client(3) [OF H cl] by simp
  obtain o1 b1 e1 where 1: "im_send_buffer (c_fd cl) (c_outbuffer cl) r1 (epoll s) = (o1, b1, e1)"
    by (metis prod_cases3)
  have f1: "send_fits (c_outbuffer cl) r1" using fits cl by (simp add: flush_fits_def)
  note ok1 = im_send_buffer_spec(1-3) [OF heap_inv_client(1) [OF H cl] f1 1]
  let ?s1 = "(put_client c (cl\<lparr>c_outbuffer := b1\<rparr>) s)\<lparr>epoll := e1\<rparr>"
  have b: "buffers_only s ?s1"
    using cl ok1(3) by (simp add: buffers_only_def heap_simps strip_client_def)
  have h1: "heap_inv {} ?s1" using heap_inv_put_out [OF H cl ok1(2)] by simp
  have inv1: "srv_inv ?s1" using inv b h1 by (rule srv_inv_buffers)
  show ?thesis
  proof (cases "c_user cl")
    case None
    have "flush_client s c r1 r2 = Some (o1, ?s1)"
      using cl nl None by (simp add: flush_client_def 1 Let_def)
    moreover have "o1 @ cout ?s1 c = cout s c \<and> [] @ kept ?s1 c = kept s c \<and> drains c o1 [] s ?s1"
      using cl ok1(1) None drains_put(1) [OF cl ok1(1)] by (simp add: cout_def kept_def heap_simps)
    then have "\<exists>p q. o1 = p @ q \<and> p @ cout ?s1 c = cout s c \<and> q @ kept ?s1 c = kept s c \<and> drains c p q s ?s1"
      by (metis append_Nil2)
    ultimately show ?thesis using inv1 b by simp
  next
    case (Some u)
    with heap_inv_client(5) [OF H cl, of u] obtain x where x: "users s u = Some x" by auto
    show ?thesis
    proof (cases "int32 (u_last_active x + login_timeout (udb s)) > now s")
      case False
      have "flush_client s c r1 r2 = Some (o1, ?s1)"
        using cl nl Some x False by (simp add: flush_client_def 1 Let_def heap_simps)
      moreover have "o1 @ cout ?s1 c = cout s c \<and> [] @ kept ?s1 c = kept s c \<and> drains c o1 [] s ?s1"
        using cl ok1(1) Some drains_put(1) [OF cl ok1(1)] by (simp add: cout_def kept_def heap_simps)
      then have "\<exists>p q. o1 = p @ q \<and> p @ cout ?s1 c = cout s c \<and> q @ kept ?s1 c = kept s c \<and> drains c p q s ?s1"
        by (metis append_Nil2)
      ultimately show ?thesis using inv1 b by simp
    next
      case True
      obtain o2 b2 e2 where 2: "im_send_buffer (c_fd cl) (u_buffer x) r2 e1 = (o2, b2, e2)"
        by (metis prod_cases3)
      have f2: "send_fits (u_buffer x) r2" using fits cl Some x by (simp add: flush_fits_def)
      note ok2 = im_send_buffer_spec(1-3) [OF heap_inv_user(1) [OF H x] f2 2]
      let ?t = "(put_user u (x\<lparr>u_buffer := b2\<rparr>) ?s1)\<lparr>epoll := e2\<rparr>"
      have b': "buffers_only s ?t"
        using cl x ok1(3) ok2(3) by (simp add: buffers_only_def heap_simps strip_client_def strip_user_def
            same_globals_def put_user_def put_client_def)
      have h2: "heap_inv {} ?t" using heap_inv_put_kept [OF h1 _ ok2(2), of u] x by (simp add: heap_simps)
      have "srv_inv ?t" using inv b' h2 by (rule srv_inv_buffers)
      moreover have "flush_client s c r1 r2 = Some (o1 @ o2, ?t)"
        using cl nl Some x True by (simp add: flush_client_def 1 2 Let_def heap_simps)
      moreover have "session_live s x" 
        using True heap_inv_client(5) [OF H cl Some] x by (auto simp: session_live_def)
      with drains_put(2) [OF cl ok1(1) Some x _ ok2(1)] have "drains c o1 o2 s ?t" .
      moreover have "o1 @ cout ?t c = cout s c \<and> o2 @ kept ?t c = kept s c"
        using cl ok1(1) ok2(1) Some x by (auto simp: cout_def kept_def heap_simps)
      ultimately show ?thesis using b' by auto
    qed
  qed
qed

section \<open>The sweep of the time thread\<close>

lemma srv_inv_frame:
  assumes inv: "srv_inv s" and f: "net_frame s t" and o: "open_fds t = open_fds s" and h: "heap_inv {} t"
  shows "srv_inv t"
proof -
  have "c_close_prehook l = None \<and> c_close_callback l = None" if l: "client_store t c = Some l" for c l
  proof -
    obtain k where k: "client_store s c = Some k" "frame_client k l" using f l by (rule net_frame_client_back)
    with srv_invD(2) [OF inv] frame_client_fields [OF k(2)] show ?thesis by (auto simp: no_hooks_def)
  qed
  moreover have "is_server t" using f srv_invD(4) [OF inv] by (simp add: net_frame_def)
  moreover have "c_fd l \<in> open_fds t" if l: "client_store t c = Some l" "c_user l = Some u" for c l u
  proof -
    obtain k where k: "client_store s c = Some k" "frame_client k l" using f l(1) by (rule net_frame_client_back)
    then have "c_user k = Some u" "c_fd l = c_fd k"
      using l(2) frame_client_fields [OF k(2)] by (auto simp: frame_client_def)
    with conns_okD(5) [OF srv_invD(3) [OF inv] k(1)] o show ?thesis by simp
  qed
  then have "conns_ok t" by (rule conns_ok_frame [OF f srv_invD(3) [OF inv]])
  ultimately show ?thesis using h by (simp add: srv_inv_def no_hooks_def)
qed

definition idle_bytes :: "pb_lib \<Rightarrow> bytes" where
  "idle_bytes pb = encodeIMResponseToBytes pb (idle_response pb)"

text \<open>Connection \<open>d\<close> carries no live session.\<close>

definition deaf :: "'a proc_scheme \<Rightarrow> cref \<Rightarrow> bool" where
  "deaf s d \<longleftrightarrow> (\<forall>v x. users s v = Some x \<longrightarrow> u_client x = Some d \<longrightarrow> \<not> session_live s x)"

text \<open>First the cut and its notices, then the response that says why.\<close>

definition told_idle :: "pb_lib \<Rightarrow> cref \<Rightarrow> uref \<Rightarrow> user_t \<Rightarrow> server \<Rightarrow> server \<Rightarrow> bool" where
  "told_idle pb c u x s t \<longleftrightarrow> (\<exists>t1. srv_inv t1 \<and> net_frame s t1 \<and> users t1 = (users s)(u \<mapsto> x\<lparr>u_client := None\<rparr>)
     \<and> (\<forall>d. cout t1 d = cout_told (hears s u) (logout_notice pb x) s d)
     \<and> respond pb c (Some (idle_response pb)) t1 = Some t)"

lemma time_check_spec:
  assumes inv: "srv_inv s" and cl: "client_store s c = Some cl"
  shows "returns (time_check pb c s) (\<lambda>t. srv_inv t \<and> net_frame s t \<and> open_fds t = open_fds s
    \<and> (case c_user cl of None \<Rightarrow> t = s | Some u \<Rightarrow> (\<exists>x. users s u = Some x \<and> u_client x = Some c
       \<and> (if session_live s x then t = s
          else users t = (users s)(u \<mapsto> x\<lparr>u_client := None\<rparr>) \<and> cout t c = cout s c @ idle_bytes pb
            \<and> told_idle pb c u x s t
            \<and> (\<forall>d. d \<noteq> c \<longrightarrow> deaf s d \<longrightarrow> client_store t d = client_store s d)))))"
proof (cases "c_user cl")
  case None
  with inv cl show ?thesis by (simp add: time_check_def)
next
  case (Some u)
  note H = srv_invD(1) [OF inv]
  from heap_inv_client(5) [OF H cl Some] obtain x where x: "users s u = Some x" "u_client x = Some c" by blast
  show ?thesis
  proof (cases "session_live s x")
    case True
    with inv cl x Some show ?thesis by (simp add: time_check_def heap_simps)
  next
    case False
    let ?r = "unlink u c False s"
    have self: "put_client c (cl\<lparr>c_locked := False\<rparr>) s = s"
    proof -
      have "cl\<lparr>c_locked := False\<rparr> = cl" using heap_inv_client(3) [OF H cl] by (cases cl) simp
      with cl show ?thesis by (simp add: put_client_def fun_upd_idem)
    qed
    from logoutUser_spec [OF H x cl srv_invD(4) [OF inv], of pb False] obtain t1 where
      t1: "logoutUser pb s (Some u) = Some t1" "heap_inv {} t1" "notified u (logout_notice pb x) ?r t1"
      unfolding self by (auto elim!: returnsE)
    note us = unlink_simps [OF x(1) cl, of False]
    have b1: "buffers_only ?r t1" using t1(3) by (simp add: notified_simps)
    have live: "session_live ?r y = session_live s y" for y
      using same_globalsD(1,2) [OF us(4)] by (simp add: session_live_def)
    have keep: "client_store t1 d = client_store ?r d" if "deaf s d" for d
    proof -
      have "u_client y \<noteq> Some d" if "hears ?r u v" "users ?r v = Some y" for v y
        using that \<open>deaf s d\<close> by (auto simp: hears_def us live deaf_def)
      with t1(3) show ?thesis by (auto simp: notified_simps)
    qed
    have dc: "deaf s c" using heap_inv_inj [OF H x(1) _ x(2)] x(1) False by (auto simp: deaf_def)
    have c1: "client_store t1 c = Some (cl\<lparr>c_locked := False, c_user := None\<rparr>)"
      using keep [OF dc] us(2) by simp
    from send_response_to_client_spec [OF t1(2) c1, of pb "idle_response pb"] obtain t where
      t: "send_response_to_client pb t1 c (idle_response pb) = Some t" "heap_inv {} t"
        "sent_client c (idle_bytes pb) t1 t" by (auto simp: idle_bytes_def elim!: returnsE)
    have b2: "buffers_only t1 t" using t(3) by (simp add: sent_client_def)
    have f: "net_frame s t"
      using net_frame_unlink [OF x(1) cl] net_frame_buffers [OF b1] net_frame_buffers [OF b2]
      by (blast intro: net_frame_trans)
    have o: "open_fds t = open_fds s"
      using buffers_only_fields(7) [OF b1] buffers_only_fields(7) [OF b2] same_globalsD(7) [OF us(4)] by simp
    have "users t = (users s)(u \<mapsto> x\<lparr>u_client := None\<rparr>)"
      using t(3) t1(3) us(1) by (simp add: sent_client_def notified_simps)
    moreover have "told_idle pb c u x s t"
    proof -
      have f1: "net_frame s t1" using net_frame_unlink [OF x(1) cl] net_frame_buffers [OF b1] by (blast intro: net_frame_trans)
      have "open_fds t1 = open_fds s" using buffers_only_fields(7) [OF b1] same_globalsD(7) [OF us(4)] by simp
      then have "srv_inv t1" using t1(2) by (intro srv_inv_frame [OF inv f1])
      moreover have "cout t1 d = cout_told (hears s u) (logout_notice pb x) s d" for d
        using t1(3) by (rule notified_unlinked [OF x(1) cl])
      moreover have "users t1 = (users s)(u \<mapsto> x\<lparr>u_client := None\<rparr>)" using t1(3) us(1) by (simp add: notified_simps)
      ultimately show ?thesis using f1 t(1) by (auto simp: told_idle_def respond_def)
    qed
    moreover have "cout t c = cout s c @ idle_bytes pb"
      using t(3) c1 cl by (simp add: sent_client_def cout_def)
    moreover have "client_store t d = client_store s d" if "d \<noteq> c" "deaf s d" for d
      using t(3) keep [OF that(2)] us(2) that(1) by (simp add: sent_client_def)
    moreover have "srv_inv t" using inv f o t(2) by (rule srv_inv_frame)
    moreover have "time_check pb c s = Some t"
      using cl Some x False t1(1) t(1) by (simp add: time_check_def heap_simps)
    ultimately show ?thesis using f o Some x False by auto
  qed
qed

text \<open>The sweep cuts every expired session, tells each of these connections so, and leaves the
  others alone.\<close>

definition expired :: "'a proc_scheme \<Rightarrow> user_t \<Rightarrow> bool" where
  "expired s x \<longleftrightarrow> u_client x \<noteq> None \<and> \<not> session_live s x"

definition swept :: "'a proc_scheme \<Rightarrow> cref set \<Rightarrow> user_t \<Rightarrow> user_t" where
  "swept s C x = (if expired s x \<and> u_client x \<in> Some ` C then x\<lparr>u_client := None\<rparr> else x)"

definition expired_on :: "'a proc_scheme \<Rightarrow> cref \<Rightarrow> bool" where
  "expired_on s c \<longleftrightarrow> (\<exists>u x. users s u = Some x \<and> u_client x = Some c \<and> expired s x)"

lemma expired_deaf:
  assumes "heap_inv L s" and "expired_on s c"
  shows "deaf s c"
  using assms heap_inv_inj [OF assms(1)] by (fastforce simp: expired_on_def deaf_def expired_def)

lemma swept_deaf:
  assumes us: "users t = (\<lambda>v. map_option (swept s C) (users s v))" and g: "now t = now s" "udb t = udb s"
    and d: "deaf s d"
  shows "deaf t d"
  unfolding deaf_def
proof (intro allI impI)
  fix v y assume y: "users t v = Some y" "u_client y = Some d"
  then obtain x where x: "users s v = Some x" "y = swept s C x" using us by auto
  then have "u_client x = Some d" "u_last_active y = u_last_active x"
    using y(2) by (auto simp: swept_def split: if_splits)
  with d x g y(2) show "\<not> session_live t y" by (auto simp: deaf_def session_live_def)
qed

lemma swept_fields: "u_last_active (swept s C x) = u_last_active x" "u_client (swept s C x) = Some c \<Longrightarrow> swept s C x = x"
  by (auto simp: swept_def split: if_splits)

text \<open>What holds once the connections \<open>C\<close> have been looked at.\<close>

definition sweep_inv :: "pb_lib \<Rightarrow> server \<Rightarrow> cref set \<Rightarrow> server \<Rightarrow> bool" where
  "sweep_inv pb s C t \<longleftrightarrow> srv_inv t \<and> net_frame s t \<and> open_fds t = open_fds s
    \<and> (\<forall>v. users t v = map_option (swept s C) (users s v))
    \<and> (\<forall>c. expired_on s c \<longrightarrow> cout t c = cout s c @ (if c \<in> C then idle_bytes pb else []))"

lemma sweep_invD:
  assumes "sweep_inv pb s C t"
  shows "srv_inv t" "net_frame s t" "open_fds t = open_fds s"
    "users t v = map_option (swept s C) (users s v)" "now t = now s" "udb t = udb s"
    "session_live t x = session_live s x"
    "expired_on s c \<Longrightarrow> cout t c = cout s c @ (if c \<in> C then idle_bytes pb else [])"
  using assms by (auto simp: sweep_inv_def net_frame_def session_live_def)

lemma sweep_expired:
  assumes H: "heap_inv {} s" and I: "sweep_inv pb s C t" and c: "c \<notin> C"
    and x: "users s u = Some x" "u_client x = Some c" "expired s x"
    and t': "srv_inv t'" "net_frame t t'" "open_fds t' = open_fds t"
      "users t' = (users t)(u \<mapsto> x\<lparr>u_client := None\<rparr>)" "cout t' c = cout t c @ idle_bytes pb"
      "\<forall>d. d \<noteq> c \<longrightarrow> deaf t d \<longrightarrow> client_store t' d = client_store t d"
  shows "sweep_inv pb s (insert c C) t'"
proof -
  note I' = sweep_invD [OF I]
  have "users t' v = map_option (swept s (insert c C)) (users s v)" for v
  proof (cases "v = u")
    case True
    with t'(4) x show ?thesis by (simp add: swept_def)
  next
    case False
    then have "swept s (insert c C) y = swept s C y" if "users s v = Some y" for y
      using heap_inv_inj [OF H x(1) that x(2)] by (auto simp: swept_def)
    with False t'(4) I'(4) show ?thesis by (cases "users s v") auto
  qed
  moreover have "cout t' d = cout s d @ (if d \<in> insert c C then idle_bytes pb else [])"
    if d: "expired_on s d" for d
  proof (cases "d = c")
    case True
    with t'(5) I'(8) [OF d] c show ?thesis by simp
  next
    case False
    have "users t = (\<lambda>v. map_option (swept s C) (users s v))" using I'(4) by blast
    then have "deaf t d" using I'(5,6) expired_deaf [OF H d] by (rule swept_deaf)
    with t'(6) False have "cout t' d = cout t d" by (simp add: cout_def)
    with I'(8) [OF d] False show ?thesis by simp
  qed
  ultimately show ?thesis
    using t'(1,3) I'(3) net_frame_trans [OF I'(2) t'(2)] by (simp add: sweep_inv_def)
qed

lemma sweep_skip:
  assumes I: "sweep_inv pb s C t" and "\<not> expired_on s c"
  shows "sweep_inv pb s (insert c C) t"
proof -
  have "swept s (insert c C) x = swept s C x" if "users s v = Some x" for v x
    using assms(2) that by (auto simp: swept_def expired_on_def)
  then have "map_option (swept s (insert c C)) (users s v) = map_option (swept s C) (users s v)" for v
    by (cases "users s v") auto
  then show ?thesis
    using assms sweep_invD [OF I] by (auto simp: sweep_inv_def)
qed

lemma sweep_step:
  assumes inv: "srv_inv s" and I: "sweep_inv pb s C t" and c: "c \<notin> C" "c \<in> dom (client_store s)"
  shows "returns (time_check pb c t) (sweep_inv pb s (insert c C))"
proof -
  note I' = sweep_invD [OF I] and H = srv_invD(1) [OF inv]
  obtain cl where cl: "client_store s c = Some cl" using c(2) by blast
  obtain k where k: "client_store t c = Some k" "frame_client cl k" using I'(2) cl by (rule net_frame_client)
  show ?thesis
    using time_check_spec [OF I'(1) k(1), of pb]
  proof (rule returns_mono)
    fix t' assume t': "srv_inv t' \<and> net_frame t t' \<and> open_fds t' = open_fds t
      \<and> (case c_user k of None \<Rightarrow> t' = t | Some u \<Rightarrow> (\<exists>x. users t u = Some x \<and> u_client x = Some c
         \<and> (if session_live t x then t' = t
            else users t' = (users t)(u \<mapsto> x\<lparr>u_client := None\<rparr>) \<and> cout t' c = cout t c @ idle_bytes pb
              \<and> told_idle pb c u x t t'
              \<and> (\<forall>d. d \<noteq> c \<longrightarrow> deaf t d \<longrightarrow> client_store t' d = client_store t d))))"
    show "sweep_inv pb s (insert c C) t'"
    proof (cases "expired_on s c")
      case True
      then obtain u x where x: "users s u = Some x" "u_client x = Some c" "expired s x"
        by (auto simp: expired_on_def)
      have xt: "users t u = Some x" using I'(4) x c(1) by (auto simp: swept_def)
      then have "c_user k = Some u" using heap_inv_user(5) [OF srv_invD(1) [OF I'(1)] xt x(2)] k(1) by auto
      with t' xt x(3) show ?thesis
        by (intro sweep_expired [OF H I c(1) x]) (auto simp: I'(7) expired_def)
    next
      case False
      have "t' = t"
      proof (cases "c_user k")
        case None
        with t' show ?thesis by simp
      next
        case (Some u)
        with t' obtain x where x: "users t u = Some x" "u_client x = Some c" "session_live t x \<longrightarrow> t' = t"
          by auto
        then obtain x0 where x0: "users s u = Some x0" "x = swept s C x0" using I'(4) by auto
        then have "x = x0" using x(2) swept_fields(2) by metis
        with False x0 x(2) have "session_live s x" by (auto simp: expired_on_def expired_def)
        with x(3) I'(7) show ?thesis by simp
      qed
      with sweep_skip [OF I False] show ?thesis by simp
    qed
  qed
qed

lemma time_round_spec:
  assumes inv: "srv_inv s"
  shows "returns (time_thread_round pb s) (\<lambda>t. srv_inv t \<and> net_frame s t \<and> open_fds t = open_fds s
    \<and> (\<forall>v. users t v = map_option (swept s UNIV) (users s v))
    \<and> (\<forall>c. expired_on s c \<longrightarrow> cout t c = cout s c @ idle_bytes pb))"
proof -
  note cs = conns_okD(1,2) [OF srv_invD(3) [OF inv]]
  have "returns (time_thread_round pb s) (sweep_inv pb s (set (clients s)))"
    unfolding time_thread_round_def
  proof (rule foldM_prefix [where P = "\<lambda>ys. sweep_inv pb s (set ys)"])
    have "swept s {} x = x" for x by (simp add: swept_def)
    then have "map_option (swept s {}) o' = o'" for o' by (cases o') auto
    then show "sweep_inv pb s (set []) s" using inv by (simp add: sweep_inv_def)
  next
    fix ys c t assume "\<exists>zs. clients s = ys @ c # zs" and I: "sweep_inv pb s (set ys) t"
    then have "c \<notin> set ys" "c \<in> dom (client_store s)" using cs by auto
    from sweep_step [OF inv I this] show "returns (time_check pb c t) (sweep_inv pb s (set (ys @ [c])))" by simp
  qed
  then show ?thesis
  proof (rule returns_mono)
    fix t assume I: "sweep_inv pb s (set (clients s)) t"
    have 1: "expired_on s c \<Longrightarrow> c \<in> set (clients s)" for c
      unfolding cs(1) expired_on_def using heap_inv_user(5) [OF srv_invD(1) [OF inv]] by blast
    have "swept s (set (clients s)) x = swept s UNIV x" if "users s v = Some x" for v x
      using that 1 by (auto simp: swept_def expired_on_def expired_def)
    then have "map_option (swept s (set (clients s))) (users s v) = map_option (swept s UNIV) (users s v)" for v
      by (cases "users s v") auto
    with I 1 show "srv_inv t \<and> net_frame s t \<and> open_fds t = open_fds s
      \<and> (\<forall>v. users t v = map_option (swept s UNIV) (users s v))
      \<and> (\<forall>c. expired_on s c \<longrightarrow> cout t c = cout s c @ idle_bytes pb)" by (auto simp: sweep_inv_def)
  qed
qed

section \<open>One event\<close>

text \<open>What the environment promises for an event: descriptors \<open>accept\<close> returns are not open, the
  table of \<open>MAX_CLIENTS\<close> has room, \<open>send\<close> fails or takes at most what it is offered, and what arrives is the
  end of the stream or a run of admissible requests followed by less than one.  So \<open>recv\<close> does not fail and
  nothing malformed arrives.\<close>

definition input_fits :: "pb_lib \<Rightarrow> server \<Rightarrow> cref \<Rightarrow> recv_result \<Rightarrow> bool" where
  "input_fits pb s c rx \<longleftrightarrow> rx = Recv [] \<or> (\<exists>data cl rs p. rx = Recv data \<and> client_store s c = Some cl
     \<and> length data \<le> recv_room (recv_prepare (c_inbuffer cl))
     \<and> pending (c_inbuffer cl) @ data = concat (map (request_bytes pb) rs) @ p
     \<and> (\<forall>r \<in> set rs. request_small pb r) \<and> partial_request pb p
     \<and> admissible_all pb c rs
         (put_client c (cl\<lparr>c_inbuffer := recv_store (recv_prepare (c_inbuffer cl)) data\<rparr>) s))"

definition event_fits :: "pb_lib \<Rightarrow> server \<Rightarrow> net_event \<Rightarrow> bool" where
  "event_fits pb s ev \<longleftrightarrow>
     (\<forall>fd a. ev_accept ev = Some (fd, a) \<longrightarrow> fd \<notin> open_fds s \<and> length (clients s) < MAX_CLIENTS)
     \<and> (\<forall>c cl. client_store s c = Some cl \<longrightarrow> c_fd cl = ev_fd ev \<longrightarrow>
          input_fits pb s c (ev_recv ev) \<and> flush_fits s c (ev_sent ev) (ev_sent_user ev))"

context pb_codec
begin

lemma receive_safe:
  assumes inv: "srv_inv s" and cl: "client_store s c = Some cl" and fits: "input_fits pb s c rx"
  shows "returns (im_receive_command pb (parse_command pb) s c rx) srv_inv"
proof (cases "rx = Recv []")
  case True
  have ok: "buf_ok (recv_prepare (c_inbuffer cl))"
    using recv_prepare_ok(1) [OF heap_inv_client(2) [OF srv_invD(1) [OF inv] cl]] .
  let ?s = "put_client c (cl\<lparr>c_inbuffer := recv_prepare (c_inbuffer cl)\<rparr>) s"
  have "srv_inv ?s" using inv cl ok by (rule srv_inv_put_input)
  from close_socket_inv [OF this, of c "cl\<lparr>c_inbuffer := recv_prepare (c_inbuffer cl)\<rparr>" pb]
  have "returns (close_socket pb ?s (Some c)) srv_inv" by (auto simp: heap_simps elim!: returns_mono)
  with True cl show ?thesis by (simp add: im_receive_command_def Let_def)
next
  case False
  with fits cl obtain data rs p where d: "rx = Recv data" "data \<noteq> []"
    "length data \<le> recv_room (recv_prepare (c_inbuffer cl))"
    "pending (c_inbuffer cl) @ data = concat (map (request_bytes pb) rs) @ p"
    "\<forall>r \<in> set rs. request_small pb r" "partial_request pb p"
    "admissible_all pb c rs (put_client c (cl\<lparr>c_inbuffer := recv_store (recv_prepare (c_inbuffer cl)) data\<rparr>) s)"
    by (auto simp: input_fits_def)
  from receive_stream [OF inv cl d(5,2,3,4,6,7)] d(1) show ?thesis by (auto elim!: returns_mono)
qed

lemma handle_event_safe:
  assumes inv: "srv_inv s" and fits: "event_fits pb s ev"
  shows "returns (handle_event pb s ev) (\<lambda>(go, out, t). srv_inv t)"
proof -
  from lookup_client_spec [OF inv, of "ev_fd ev"] obtain j where j: "lookup_client s (ev_fd ev) = Some j"
    "case j of None \<Rightarrow> True | Some i \<Rightarrow> \<exists>cl. client_store s (clients s ! i) = Some cl \<and> c_fd cl = ev_fd ev"
    by (auto elim!: returnsE split: option.splits)
  have close: "returns (close_socket pb s (Some c)) srv_inv" if "client_store s c = Some cl" for c cl
    using close_socket_inv [OF inv that, of pb] by (auto elim!: returns_mono)
  have recv: "returns (im_receive_command pb (parse_command pb) s c (ev_recv ev)) srv_inv"
    if "client_store s c = Some cl" "c_fd cl = ev_fd ev" for c cl
    using receive_safe [OF inv that(1)] fits that by (auto simp: event_fits_def)
  have flush: "returns (flush_client s c (ev_sent ev) (ev_sent_user ev)) (\<lambda>(out, t). srv_inv t)"
    if "client_store s c = Some cl" "c_fd cl = ev_fd ev" for c cl
    using flush_client_spec [OF inv that(1), of "ev_sent ev" "ev_sent_user ev"] fits that
    by (auto simp: event_fits_def elim!: returns_mono)
  have accept: "returns (add_client s fd a) (\<lambda>(c, t). srv_inv t)" if "ev_accept ev = Some (fd, a)" for fd a
    using add_client_spec [OF inv, of fd a] fits that by (auto simp: event_fits_def elim!: returns_mono)
  show ?thesis
    unfolding handle_event_def using inv j(2)
    by (auto simp: j(1) intro: returns_mono [OF close] returns_mono [OF recv] returns_mono [OF flush]
        returns_mono [OF accept] split: option.splits)
qed

end

section \<open>Every reachable state\<close>

definition tick :: "int \<Rightarrow> server \<Rightarrow> server" where
  "tick t s = s\<lparr>now := t\<rparr>"

text \<open>The two threads take turns (each event and each sweep is one step here), and time passes.\<close>

inductive server_step :: "pb_lib \<Rightarrow> server \<Rightarrow> server \<Rightarrow> bool" for pb where
  Step_Event: "event_fits pb s ev \<Longrightarrow> handle_event pb s ev = Some (go, out, t) \<Longrightarrow> server_step pb s t"
| Step_Sweep: "time_thread_round pb s = Some t \<Longrightarrow> server_step pb s t"
| Step_Tick: "now s \<le> t \<Longrightarrow> server_step pb s (tick t s)"

inductive_cases server_stepE: "server_step pb s t"

inductive reachable :: "pb_lib \<Rightarrow> server \<Rightarrow> server \<Rightarrow> bool" for pb s0 where
  Reach_Start: "reachable pb s0 s0"
| Reach_Step: "reachable pb s0 s \<Longrightarrow> server_step pb s t \<Longrightarrow> reachable pb s0 t"

lemma tick_inv: "srv_inv s \<Longrightarrow> srv_inv (tick t s)"
  using heap_inv_cong [of "tick t s" s "{}"]
  by (simp add: srv_inv_def no_hooks_def conns_ok_def tick_def)

context pb_codec
begin

lemma step_inv: "server_step pb s t \<Longrightarrow> srv_inv s \<Longrightarrow> srv_inv t"
  using handle_event_safe [of s] time_round_spec [of s pb]
  by (auto elim!: server_stepE intro: tick_inv dest: returns_Some)

lemma reachable_inv: "reachable pb s0 s \<Longrightarrow> srv_inv s0 \<Longrightarrow> srv_inv s"
  by (induction rule: reachable.induct) (auto intro: step_inv)

end

text \<open>The start-up builds the users and nothing else.\<close>

lemma addUser_srv_inv:
  assumes inv: "srv_inv s"
  shows "srv_inv (snd (addUser s name pw))"
proof -
  let ?t = "snd (addUser s name pw)"
  note H = srv_invD(1) [OF inv]
  have fresh: "users s (next_user s) = None"
    using db_okD(3) [OF srv_invD(5) [OF inv], of "next_user s"] by (cases "users s (next_user s)") auto
  have "user_ok ?t v z" if z: "users ?t v = Some z" for v z
  proof (cases "v = next_user s")
    case True
    with z show ?thesis
      by (auto simp: addUser_def Let_def user_ok_def new_user_def init_buffer_ok OUT_BUFFER_DEFAULT_SIZE_def)
  next
    case False
    with z heap_invD(2) [OF H, of v z] show ?thesis by (auto simp: addUser_def Let_def user_ok_def)
  qed
  moreover have "client_ok {} ?t c k" if k: "client_store ?t c = Some k" for c k
  proof -
    have k': "client_store s c = Some k" using k by (simp add: addUser_def Let_def)
    have "\<exists>x. users ?t u = Some x \<and> u_client x = Some c" if "c_user k = Some u" for u
      using heap_inv_client(5) [OF H k' that] fresh by (auto simp: addUser_def Let_def)
    with heap_invD(3) [OF H k'] show ?thesis by (auto simp: client_ok_def)
  qed
  ultimately have "heap_inv {} ?t"
    using addUser_db_ok [OF srv_invD(5) [OF inv]] by (simp add: heap_inv_def)
  with srv_invD(2,3) [OF inv] show ?thesis
    by (simp add: srv_inv_def no_hooks_def conns_ok_def addUser_def Let_def)
qed

lemma build_loop_inv:
  "build_loop ts pw s = Some t \<Longrightarrow> srv_inv s \<Longrightarrow> srv_inv t \<and> file_root t = file_root (s :: server)"
proof (induction ts pw s rule: build_loop.induct)
  case (2 name pw s)
  then show ?case using addUser_srv_inv by (auto simp: addUser_def Let_def split: if_splits option.splits)
next
  case (3 name pw ts prev s)
  then have "build_loop ts (Some pw) (snd (addUser s name pw)) = Some t" by (auto split: if_splits)
  with 3 addUser_srv_inv show ?case by (auto simp: addUser_def Let_def split: if_splits)
qed simp

lemma server_start_inv:
  assumes "server_start credentials bd lt mfd t = Some s"
  shows "srv_inv s"
proof -
  have "srv_inv ((blank_server mfd t)\<lparr>udb := newUserDb bd lt\<rparr>)"
    by (simp add: srv_inv_def heap_inv_def db_ok_def no_hooks_def conns_ok_def blank_server_def newUserDb_def)
  with assms obtain r where r: "srv_inv r"
    "s = r\<lparr>file_root := newTrieFileNode, epoll := (epoll r)(mfd \<mapsto> (True, False)), open_fds := insert mfd (open_fds r)\<rparr>"
    unfolding server_start_def buildUserDb_def by (auto simp: bind_eq_Some_conv dest: build_loop_inv)
  then have "heap_inv {} s" using heap_inv_cong [of s r "{}"] by (simp add: srv_invD)
  with r show ?thesis by (auto simp: srv_inv_def no_hooks_def conns_ok_def)
qed

end
