(* ===== verification/Wire_Format.thy ===== *)
theory Wire_Format
  imports Protobuf
begin

text \<open>
  The documented protobuf wire format (base-128 varints, wire types 0 and 2), as an executable
  instance of the library parameter.  Nothing in the model of the program depends on it: it
  shows that the laws of \<open>pb_codec\<close> can hold together, and gives the concrete runs of the
  development a codec to run on.
\<close>

fun varint :: "nat \<Rightarrow> bytes" where
  "varint n = (if n < 128 then [char_of n] else char_of (128 + n mod 128) # varint (n div 128))"

declare varint.simps [simp del]

fun read_varint :: "bytes \<Rightarrow> (nat \<times> bytes) option" where
  "read_varint [] = None"
| "read_varint (c # cs) =
     (if of_char c < (128 :: nat) then Some (of_char c, cs)
      else (case read_varint cs of None \<Rightarrow> None
            | Some (n, r) \<Rightarrow> Some (of_char c - 128 + 128 * n, r)))"

definition wire_field :: "ac_protobuf_field \<Rightarrow> bytes" where
  "wire_field f = varint (8 * field_id f + wiretype f) @
     (if wiretype f = 0 then varint (of_le (take 8 (field_value f)))
      else (case field_len f of None \<Rightarrow> []
            | Some n \<Rightarrow> varint n @ take n (field_value f)))"

definition read_field :: "bytes \<Rightarrow> (ac_protobuf_field \<times> bytes) option" where
  "read_field bs = do {
     (tag, r) \<leftarrow> read_varint bs;
     (v, r') \<leftarrow> read_varint r;
     if tag mod 8 = 0 then
       Some (\<lparr>field_id = tag div 8, wiretype = 0, field_len = None, field_value = le_bytes 8 v\<rparr>, r')
     else if tag mod 8 = 2 \<and> v \<le> length r' then
       Some (\<lparr>field_id = tag div 8, wiretype = 2, field_len = Some v,
              field_value = take v r' @ [NUL]\<rparr>, drop v r')
     else None }"

fun read_fields :: "nat \<Rightarrow> bytes \<Rightarrow> (ac_protobuf_message \<times> bytes) option" where
  "read_fields 0 bs = Some ([], bs)"
| "read_fields (Suc n) bs =
     (case read_field bs of None \<Rightarrow> None
      | Some (f, r) \<Rightarrow> (case read_fields n r of None \<Rightarrow> None
          | Some (fs, r') \<Rightarrow> Some (f # fs, r')))"

text \<open>A whole buffer: every field takes at least one byte, so the length is enough fuel.\<close>

fun read_all :: "nat \<Rightarrow> bytes \<Rightarrow> ac_protobuf_message option" where
  "read_all fuel [] = Some []"
| "read_all 0 (c # cs) = None"
| "read_all (Suc fuel) (c # cs) =
     (case read_field (c # cs) of None \<Rightarrow> None
      | Some (f, r) \<Rightarrow> (case read_all fuel r of None \<Rightarrow> None | Some fs \<Rightarrow> Some (f # fs)))"

definition wire_pb :: pb_lib where
  "wire_pb = \<lparr>
     ac_encode_protobuf_msg = (\<lambda>m. concat (map wire_field m)),
     ac_decode_protobuf_msg = (\<lambda>bs. case read_all (length bs) bs of None \<Rightarrow> None
        | Some m \<Rightarrow> Some (m, length bs)),
     ac_decode_protobuf_msg_with_n_fields = (\<lambda>bs n. case read_fields n bs of None \<Rightarrow> None
        | Some (m, r) \<Rightarrow> Some (m, length bs - length r)),
     ac_find_protobuf_field_in_msg = (\<lambda>m i. List.find (\<lambda>f. field_id f = i) m)\<rparr>"

lemma read_varint_varint: "read_varint (varint n @ r) = Some (n, r)"
proof (induction n rule: varint.induct)
  case (1 n)
  show ?case
  proof (cases "n < 128")
    case True
    then show ?thesis by (simp add: varint.simps [of n])
  next
    case False
    have "128 + n mod 128 < 256" by simp
    with False 1 show ?thesis by (simp add: varint.simps [of n])
  qed
qed

lemma varint_nonempty [simp]: "varint n \<noteq> []"
  by (subst varint.simps) simp

lemma read_varint_stream:
  "read_varint bs = Some (n, r) \<Longrightarrow> length r < length bs \<and> read_varint (bs @ x) = Some (n, r @ x)"
  by (induction bs arbitrary: n r)
     (fastforce split: if_splits option.splits prod.splits)+

lemma read_field_stream:
  assumes "read_field bs = Some (f, r)"
  shows "length r < length bs \<and> read_field (bs @ x) = Some (f, r @ x)"
proof -
  from assms obtain tag r1 v r2 where
    1: "read_varint bs = Some (tag, r1)" "read_varint r1 = Some (v, r2)"
    by (auto simp: read_field_def bind_eq_Some_conv)
  note s = read_varint_stream [OF 1(1), of x] read_varint_stream [OF 1(2), of x]
  from assms 1 s show ?thesis
    by (auto simp: read_field_def split: if_splits)
qed

lemma read_fields_stream:
  "read_fields n bs = Some (m, r) \<Longrightarrow>
   length r \<le> length bs \<and> (0 < n \<longrightarrow> length r < length bs) \<and> read_fields n (bs @ x) = Some (m, r @ x)"
proof (induction n arbitrary: bs m)
  case (Suc n)
  from Suc.prems obtain f r1 fs where
    1: "read_field bs = Some (f, r1)" "read_fields n r1 = Some (fs, r)" "m = f # fs"
    by (auto split: option.splits)
  with read_field_stream [OF 1(1), of x] Suc.IH [OF 1(2)] show ?case by auto
qed simp

lemma read_field_wire:
  assumes "wf_field f"
  shows "\<exists>g. read_field (wire_field f @ r) = Some (g, r) \<and> same_field f g"
proof (cases "wiretype f = 0")
  case True
  with assms have len: "8 \<le> length (field_value f)" by (simp add: wf_field_def)
  then have 8: "length (take 8 (field_value f)) = 8" by simp
  have "le_bytes 8 (of_le (take 8 (field_value f))) = take 8 (field_value f)"
    using le_bytes_of_le [of "take 8 (field_value f)"] by (simp only: 8)
  with True len show ?thesis
    by (auto simp: read_field_def wire_field_def read_varint_varint same_field_def)
next
  case False
  with assms obtain n where
    "wiretype f = 2" "field_len f = Some n" "n \<le> length (field_value f)"
    by (auto simp: wf_field_def split: option.splits)
  moreover have "Suc (Suc (8 * i)) mod 8 = 2" for i :: nat by presburger
  moreover have "Suc (Suc (8 * i)) div 8 = i" for i :: nat by presburger
  ultimately show ?thesis
    by (auto simp: read_field_def wire_field_def read_varint_varint same_field_def)
qed

lemma wire_field_nonempty: "wire_field f \<noteq> []"
  by (simp add: wire_field_def)

lemma read_fields_wire:
  "list_all wf_field m \<Longrightarrow>
   \<exists>m'. read_fields (length m) (concat (map wire_field m) @ r) = Some (m', r)
      \<and> list_all2 same_field m m'"
proof (induction m)
  case (Cons f m)
  then obtain m' where
    m': "read_fields (length m) (concat (map wire_field m) @ r) = Some (m', r)"
      "list_all2 same_field m m'" by auto
  from Cons.prems read_field_wire [of f "concat (map wire_field m) @ r"] obtain g where
    "read_field (wire_field f @ concat (map wire_field m) @ r)
       = Some (g, concat (map wire_field m) @ r)" "same_field f g" by auto
  with m' show ?case by simp
qed simp

lemma read_all_wire:
  "list_all wf_field m \<Longrightarrow> length (concat (map wire_field m)) \<le> fuel \<Longrightarrow>
   \<exists>m'. read_all fuel (concat (map wire_field m)) = Some m' \<and> list_all2 same_field m m'"
proof (induction m arbitrary: fuel)
  case (Cons f m)
  from Cons.prems read_field_wire [of f "concat (map wire_field m)"] obtain g where
    g: "read_field (wire_field f @ concat (map wire_field m)) = Some (g, concat (map wire_field m))"
      "same_field f g" by auto
  obtain c cs where c: "wire_field f = c # cs"
    using wire_field_nonempty [of f] by (cases "wire_field f") auto
  with Cons.prems obtain fuel' where fuel: "fuel = Suc fuel'"
    by (cases fuel) auto
  with Cons.prems c Cons.IH [of fuel'] obtain m' where
    "read_all fuel' (concat (map wire_field m)) = Some m'" "list_all2 same_field m m'" by auto
  with g c fuel show ?case by simp
qed simp

interpretation wire: pb_codec wire_pb
proof unfold_locales
  fix m i
  show "ac_find_protobuf_field_in_msg wire_pb m i = List.find (\<lambda>f. field_id f = i) m"
    by (simp add: wire_pb_def)
next
  fix m assume "wf_msg m"
  then have "list_all wf_field m" by (simp add: wf_msg_def)
  from read_all_wire [OF this le_refl] show
    "returns (ac_decode_protobuf_msg wire_pb (ac_encode_protobuf_msg wire_pb m))
       (\<lambda>(m', k). k = length (ac_encode_protobuf_msg wire_pb m) \<and> list_all2 same_field m m')"
    by (auto simp: wire_pb_def)
next
  fix m rest assume "wf_msg m"
  then have "list_all wf_field m" by (simp add: wf_msg_def)
  from read_fields_wire [OF this, of rest] show
    "returns (ac_decode_protobuf_msg_with_n_fields wire_pb
         (ac_encode_protobuf_msg wire_pb m @ rest) (length m))
       (\<lambda>(m', k). k = length (ac_encode_protobuf_msg wire_pb m) \<and> list_all2 same_field m m')"
    by (auto simp: wire_pb_def)
next
  fix bs n m' k rest
  assume "ac_decode_protobuf_msg_with_n_fields wire_pb bs n = Some (m', k)" and "0 < n"
  then obtain r where "read_fields n bs = Some (m', r)" "k = length bs - length r"
    by (auto simp: wire_pb_def split: option.splits)
  with read_fields_stream [OF this(1), of rest] \<open>0 < n\<close> show "0 < k \<and> k \<le> length bs \<and>
      ac_decode_protobuf_msg_with_n_fields wire_pb (bs @ rest) n = Some (m', k)"
    by (auto simp: wire_pb_def)
qed

end
