(* ===== verification/Demo.thy ===== *)
theory Demo
  imports Events Wire_Format
begin

text \<open>
  A concrete server: three users (\<open>ann\<close> and \<open>bob\<close> logged in, \<open>cyd\<close> not), three connections, the
  third not logged in.  The witnesses of the properties run on it, with the protobuf wire format as
  the codec.
\<close>

definition demo_user :: "bytes \<Rightarrow> bytes \<Rightarrow> cref option \<Rightarrow> user_t" where
  "demo_user name pw c = (new_user name pw)\<lparr>u_last_logged_in := 100, u_last_active := 100, u_client := c\<rparr>"

definition demo_client :: "int \<Rightarrow> uref option \<Rightarrow> im_client" where
  "demo_client fd u = (new_client fd \<lparr>sin_family = 2, sin_port = 80, sin_addr = 1\<rparr>)\<lparr>c_user := u\<rparr>"

definition demo :: server where
  "demo = \<lparr>is_server = True,
     users = [0 \<mapsto> demo_user ''ann'' ''a1'' (Some 0), 1 \<mapsto> demo_user ''bob'' ''b1'' (Some 1),
              2 \<mapsto> new_user ''cyd'' ''c1''],
     next_user = 3,
     client_store = [0 \<mapsto> demo_client 5 (Some 0), 1 \<mapsto> demo_client 6 (Some 1), 2 \<mapsto> demo_client 7 None],
     next_client = 3,
     udb = \<lparr>db_first = [2, 1, 0],
            db_root = trie_put (trie_put (trie_put newTrieUserNode ''ann'' 0) ''bob'' 1) ''cyd'' 2,
            block_duration = 60, login_timeout = 50\<rparr>,
     clients = [0, 1, 2],
     epoll = [3 \<mapsto> (True, False), 5 \<mapsto> (True, False), 6 \<mapsto> (True, False), 7 \<mapsto> (True, False)],
     open_fds = {3, 5, 6, 7}, now = 100, stdout = [], fatal = False,
     file_root = newTrieFileNode, global_chunk_id = 0, masterfd = 3\<rparr>"

lemma demo_fields [simp]:
  "is_server demo" "next_user demo = 3" "next_client demo = 3" "clients demo = [0, 1, 2]"
  "now demo = 100" "file_root demo = newTrieFileNode" "global_chunk_id demo = 0" "open_fds demo = {3, 5, 6, 7}"
  "db_first (udb demo) = [2, 1, 0]" "block_duration (udb demo) = 60" "login_timeout (udb demo) = 50"
  "users demo = [0 \<mapsto> demo_user ''ann'' ''a1'' (Some 0), 1 \<mapsto> demo_user ''bob'' ''b1'' (Some 1),
              2 \<mapsto> new_user ''cyd'' ''c1'']"
  "client_store demo = [0 \<mapsto> demo_client 5 (Some 0), 1 \<mapsto> demo_client 6 (Some 1), 2 \<mapsto> demo_client 7 None]"
  "masterfd demo = 3"
  by (simp_all add: demo_def)

lemma demo_root:
  "db_root (udb demo) = trie_put (trie_put (trie_put newTrieUserNode ''ann'' 0) ''bob'' 1) ''cyd'' 2"
  by (simp add: demo_def)

lemma demo_user_fields [simp]:
  "u_username (demo_user n p c) = cstr n" "u_password (demo_user n p c) = cstr p"
  "u_client (demo_user n p c) = c" "u_last_active (demo_user n p c) = 100" "u_blocked (demo_user n p c) = []"
  "u_last_blocked (demo_user n p c) = -1" "u_attempts (demo_user n p c) = 0"
  "u_buffer (demo_user n p c) = init_buffer OUT_BUFFER_DEFAULT_SIZE"
  "u_username (new_user n p) = cstr n" "u_password (new_user n p) = cstr p" "u_client (new_user n p) = None"
  "u_last_active (new_user n p) = -1" "u_blocked (new_user n p) = []" "u_last_blocked (new_user n p) = -1"
  "u_attempts (new_user n p) = 0" "u_buffer (new_user n p) = init_buffer OUT_BUFFER_DEFAULT_SIZE"
  by (simp_all add: demo_user_def new_user_def)

lemma demo_client_fields [simp]:
  "c_user (demo_client fd u) = u" "c_fd (demo_client fd u) = fd" "\<not> c_locked (demo_client fd u)"
  "c_close_prehook (demo_client fd u) = None" "c_close_callback (demo_client fd u) = None"
  "c_nchunks (demo_client fd u) = 0" "c_chunkids (demo_client fd u) = []"
  "c_outbuffer (demo_client fd u) = init_buffer OUT_BUFFER_DEFAULT_SIZE"
  "c_inbuffer (demo_client fd u) = init_buffer MSG_LIMIT"
  by (simp_all add: demo_client_def new_client_def)

lemma cstr_names [simp]: "cstr ''ann'' = ''ann''" "cstr ''bob'' = ''bob''" "cstr ''cyd'' = ''cyd''"
  "cstr ''a1'' = ''a1''" "cstr ''b1'' = ''b1''" "cstr ''c1'' = ''c1''"
  by (simp_all add: cstr_def)

lemma int32_150 [simp]: "int32 150 = 150" "int32 49 = 49"
  by (rule int32_id, simp add: fits_int32_def)+

lemma demo_db: "db_ok demo"
proof -
  have "trie_find (db_root (udb demo)) n = List.find (named demo n) [2, 1, 0]" for n
    by (auto simp: demo_root trie_find_put named_def simp del: trie_put.simps)
  then show ?thesis by (auto simp: db_ok_def)
qed

lemma demo_inv: "srv_inv demo"
proof -
  have u: "user_ok demo u x" if "users demo u = Some x" for u x
    using that by (auto simp: user_ok_def init_buffer_ok OUT_BUFFER_DEFAULT_SIZE_def split: if_splits)
  have c: "client_ok {} demo c k" if "client_store demo c = Some k" for c k
    using that by (auto simp: client_ok_def init_buffer_ok OUT_BUFFER_DEFAULT_SIZE_def MSG_LIMIT_def split: if_splits)
  have "heap_inv {} demo" unfolding heap_inv_def using demo_db u c by blast
  moreover have "no_hooks demo" by (auto simp: no_hooks_def split: if_splits)
  moreover have "conns_ok demo" by (auto simp: conns_ok_def split: if_splits)
  ultimately show ?thesis by (simp add: srv_inv_def)
qed

lemma demo_logged: "logged demo 0 0 (demo_user ''ann'' ''a1'' (Some 0))"
    "logged demo 1 1 (demo_user ''bob'' ''b1'' (Some 1))"
  by (auto simp: logged_def session_live_def)

lemma demo_find: "findUser demo ''ann'' = Some 0" "findUser demo ''bob'' = Some 1" "findUser demo ''cyd'' = Some 2"
    "findUser demo ''eve'' = None"
  by (simp_all add: findUser_list [OF demo_db] named_def cstr_def)

lemma demo_live [simp]: "session_live demo (demo_user n p c) \<longleftrightarrow> c \<noteq> None" "\<not> session_live demo (new_user n p)"
  by (simp_all add: session_live_def)

text \<open>Messages of a few short fields are short.\<close>

lemma varint_short: "n < 128 ^ Suc k \<Longrightarrow> length (varint n) \<le> Suc k"
proof (induction k arbitrary: n)
  case 0
  then show ?case by (subst varint.simps) simp
next
  case (Suc k)
  then have "n div 128 < 128 ^ Suc k" by (simp add: less_mult_imp_div_less)
  from Suc.IH [OF this] show ?case by (subst varint.simps) simp
qed

lemma wire_u32: "i < 16 \<Longrightarrow> length (wire_field (u32_field i w)) \<le> 6"
proof -
  assume i: "i < 16"
  have w: "unat w < 128 ^ Suc 4" using unat_u32_less [of w] by simp
  then have "of_le (take 8 (le_bytes 8 (unat w))) = unat w" by (simp add: of_le_le_bytes del: le_bytes.simps)
  moreover have "length (varint (8 * i)) \<le> 1" using varint_short [of "8 * i" 0] i by simp
  ultimately show ?thesis using varint_short [OF w] by (simp add: wire_field_def u32_field_def)
qed

lemma wire_bytes: "i < 16 \<Longrightarrow> length v < 128 \<Longrightarrow> length (wire_field (bytes_field i v)) \<le> length v + 2"
  using varint_short [of "8 * i + 2" 0] varint_short [of "length v" 0] by (simp add: wire_field_def bytes_field_def)

lemma small_wire:
  assumes "\<forall>f \<in> set m. length (wire_field f) < 256" and "length m < 16"
  shows "small_bytes (ac_encode_protobuf_msg wire_pb m)"
proof -
  have "length (concat (map wire_field m)) \<le> 256 * length m" using assms(1)
    by (induction m) force+
  with assms(2) show ?thesis by (simp add: small_bytes_def wire_pb_def)
qed

lemma small_wire_bytes [simp]: "i < 16 \<Longrightarrow> length v < 128 \<Longrightarrow> length (wire_field (bytes_field i v)) < 256"
  using wire_bytes [of i v] by simp

lemma small_wire_u32 [simp]: "i < 16 \<Longrightarrow> length (wire_field (u32_field i w)) < 256"
  using wire_u32 [of i w] by simp

lemma small_wire_bool [simp]: "i < 16 \<Longrightarrow> length (wire_field (bool_field i b)) < 256"
  using wire_u32 [of i "of_bool b"] by (cases b) (simp_all add: u32_field_def bool_field_def)

lemma small_short: "length v < 128 \<Longrightarrow> small_bytes v"
  by (simp add: small_bytes_def)

text \<open>The request of the witnesses: \<open>ann\<close> says \<open>hi\<close> to \<open>bob\<close>.\<close>

definition demo_say :: request where
  "demo_say = Message \<lparr>mr_broadcast = False, mr_username = ''bob'', mr_msg = ''hi''\<rparr>"

lemma demo_say_bytes: "request_bytes wire_pb demo_say =
    [CHR 0x08, CHR 0x02, CHR 0x12, CHR 0x0B, CHR 0x08, CHR 0x00, CHR 0x12, CHR 0x03, CHR ''b'', CHR ''o'', CHR ''b'',
     CHR 0x1A, CHR 0x02, CHR ''h'', CHR ''i'']"
  by code_simp

lemma demo_say_small: "request_small wire_pb demo_say"
  by (simp add: request_small_def demo_say_def small_short encodeMessageRequestToBytes_def
      encodeMessageRequestToProtobufMsg_def small_wire)

end
