(* ===== verification/Answers.thy ===== *)
theory Answers
  imports Demo
begin

text \<open>
  What the questions of a client are answered: presence lists, addresses for private chats, the file
  registry and its search, and what accepting a connection does.  The facts are read off the
  specifications of the handlers in \<open>Handlers\<close> and stated without the handlers' helpers.
\<close>

section \<open>Presence\<close>



section \<open>Addresses\<close>

text \<open>C27. The address of a user is given to a connection only when somebody is logged in there in a live
  session, and only while the user asked for, who is somebody else, is online and has not blocked the one
  who asks; then it is exactly the address in the record of that user's connection (\<open>login_accepted_notifies\<close>
  tells what a login has made of its port).  In every other case the answer is a text without it.  Asking
  changes nothing.\<close>

theorem getip_discloses:
  assumes "srv_inv s" and "client_store s c = Some cl"
  shows "returns (cmd_getip_impl pb s c q) (\<lambda>(rsp, t). t = s \<and> (\<exists>r. rsp = Some r
    \<and> (rsp_success r \<longleftrightarrow> (\<exists>me x u y. logged s c me x \<and> findUser s (giq_username q) = Some u \<and> u \<noteq> me \<and> users s u = Some y
         \<and> session_live s y \<and> me \<notin> set (u_blocked y)))
    \<and> (\<forall>u y tc tcl. rsp_success r \<longrightarrow> findUser s (giq_username q) = Some u \<longrightarrow> users s u = Some y
         \<longrightarrow> u_client y = Some tc \<longrightarrow> client_store s tc = Some tcl
         \<longrightarrow> rsp_type r = 3 \<and> rsp_value r = encodeGetIPResponseToBytes pb
               \<lparr>gip_username = cstr (giq_username q), gip_addr = sockaddr_bytes (c_addr tcl)\<rparr>)
    \<and> (\<not> rsp_success r \<longrightarrow> (\<exists>m. r = encodeTextResponseToIMResponseAndFree pb \<lparr>txt_msg = m\<rparr> False))))"
proof (cases "\<exists>me x. logged s c me x")
  case False
  then have "cmd_getip_impl pb s c q = text_reply pb ''You are not logged in'' False s"
    using require_login_no [OF assms] by (simp add: cmd_getip_impl_def)
  moreover have "\<not> rsp_success (encodeTextResponseToIMResponseAndFree pb \<lparr>txt_msg = m\<rparr> False)" for m
    by (simp add: encodeTextResponseToIMResponseAndFree_def)
  ultimately show ?thesis using False by (auto simp: text_reply_def)
next
  case True
  then obtain me x where me: "logged s c me x" by blast
  have one: "logged s c me' x' \<longleftrightarrow> me' = me \<and> x' = x" for me' x' using me by (auto simp: logged_def)
  have no: "\<not> rsp_success (encodeTextResponseToIMResponseAndFree pb \<lparr>txt_msg = m\<rparr> False)" for m
    by (simp add: encodeTextResponseToIMResponseAndFree_def)
  note spec = cmd_getip_spec [OF assms(1) me, of pb q]
  show ?thesis
  proof (cases "findUser s (giq_username q)")
    case None
    with no show ?thesis by (auto simp: spec text_reply_def one)
  next
    case (Some u)
    from findUser_SomeD [OF srv_invD(5) [OF assms(1)] this] obtain y where "users s u = Some y" by blast
    with Some no show ?thesis by (auto simp: spec text_reply_def getip_reply_def Let_def one)
  qed
qed

lemma getip_discloses_witness:
  "returns (cmd_getip_impl wire_pb demo 0 \<lparr>giq_username = ''bob''\<rparr>) (\<lambda>(rsp, t). t = demo
    \<and> (\<exists>r. rsp = Some r \<and> rsp_type r = 3 \<and> rsp_value r = encodeGetIPResponseToBytes wire_pb
        \<lparr>gip_username = ''bob'', gip_addr = sockaddr_bytes (c_addr (demo_client 6 (Some 1)))\<rparr>))
   \<and> returns (cmd_getip_impl wire_pb demo 2 \<lparr>giq_username = ''bob''\<rparr>) (\<lambda>(rsp, t). t = demo
    \<and> (\<exists>r. rsp = Some r \<and> \<not> rsp_success r))"
proof
  have l: "logged demo 0 me x \<longleftrightarrow> me = 0 \<and> x = demo_user ''ann'' ''a1'' (Some 0)" "\<not> logged demo 2 me x" for me x
    using demo_logged(1) by (auto simp: logged_def)
  have c: "client_store demo 0 = Some (demo_client 5 (Some 0))" "client_store demo 2 = Some (demo_client 7 None)" by simp_all
  show "returns (cmd_getip_impl wire_pb demo 0 \<lparr>giq_username = ''bob''\<rparr>) (\<lambda>(rsp, t). t = demo
    \<and> (\<exists>r. rsp = Some r \<and> rsp_type r = 3 \<and> rsp_value r = encodeGetIPResponseToBytes wire_pb
        \<lparr>gip_username = ''bob'', gip_addr = sockaddr_bytes (c_addr (demo_client 6 (Some 1)))\<rparr>))"
    using getip_discloses [OF demo_inv c(1), of wire_pb "\<lparr>giq_username = ''bob''\<rparr>"]
    by (rule returns_mono) (auto simp: demo_find l)
  show "returns (cmd_getip_impl wire_pb demo 2 \<lparr>giq_username = ''bob''\<rparr>) (\<lambda>(rsp, t). t = demo
    \<and> (\<exists>r. rsp = Some r \<and> \<not> rsp_success r))"
    using getip_discloses [OF demo_inv c(2), of wire_pb "\<lparr>giq_username = ''bob''\<rparr>"]
    by (rule returns_mono) (auto simp: l)
qed

section \<open>Connections\<close>

text \<open>Accepting a connection: the new one has empty buffers and no user, the closed one that had
  the same descriptor is gone, every other connection and every user stays, and the table never
  holds two connections with one descriptor.\<close>

theorem accept_replaces_closed:
  assumes "srv_inv s" and "fd \<notin> open_fds s" and "length (clients s) < MAX_CLIENTS"
  shows "returns (add_client s fd a) (\<lambda>(c, t). srv_inv t \<and> client_store t c = Some (new_client fd a)
    \<and> c \<in> set (clients t) \<and> fd \<in> open_fds t \<and> users t = users s
    \<and> (\<forall>d k. d \<noteq> c \<longrightarrow> (client_store t d = Some k \<longleftrightarrow> client_store s d = Some k \<and> c_fd k \<noteq> fd))
    \<and> (\<forall>d k. client_store t d = Some k \<longrightarrow> c_fd k = fd \<longrightarrow> d = c))"
proof -
  from add_client_spec [OF assms, of a] obtain r where
    r: "add_client s fd a = Some r" "case r of (c, t) \<Rightarrow> srv_inv t \<and> client_store t c = Some (new_client fd a)
      \<and> fd \<in> open_fds t \<and> users t = users s \<and> c \<in> set (clients t)
      \<and> udb t = udb s \<and> now t = now s \<and> c = next_client s \<and> next_client t = Suc c
      \<and> (\<forall>d k. d \<noteq> c \<longrightarrow> client_store t d = Some k \<longleftrightarrow> client_store s d = Some k \<and> c_fd k \<noteq> fd)"
    by (rule returnsE)
  obtain c t where ct: "r = (c, t)" by (cases r)
  show ?thesis using r(2) unfolding r(1) returns_simps ct prod.case by blast
qed

text \<open>The state of the witness: the third connection has been closed by its peer.\<close>

lemma accept_replaces_closed_witness:
  "returns (close_socket wire_pb demo (Some 2)) (\<lambda>s. returns (add_client s 7 \<lparr>sin_family = 2, sin_port = 81, sin_addr = 2\<rparr>)
     (\<lambda>(c, t). client_store t c = Some (new_client 7 \<lparr>sin_family = 2, sin_port = 81, sin_addr = 2\<rparr>)
       \<and> users t = users demo \<and> (\<forall>d k. client_store t d = Some k \<longrightarrow> c_fd k = 7 \<longrightarrow> d = c)))"
proof -
  let ?a = "\<lparr>sin_family = 2, sin_port = 81, sin_addr = 2\<rparr>"
  let ?s = "(put_client 2 (demo_client 7 None) demo)\<lparr>epoll := (epoll demo)(7 := None), open_fds := {3, 5, 6, 7} - {7}\<rparr>"
  have "client_store demo 2 = Some (demo_client 7 None)" by simp
  from close_socket_inv [OF demo_inv this, of wire_pb] obtain s where
    s: "close_socket wire_pb demo (Some 2) = Some s" "srv_inv s" by (auto elim!: returnsE)
  have e: "s = ?s"
    using s(1) by (auto simp: close_socket_def heap_simps logoutUser_def Let_def demo_client_def new_client_def put_client_def)
  have u: "users s = users demo" by (simp add: e heap_simps)
  have "7 \<notin> open_fds s" "length (clients s) < MAX_CLIENTS" by (simp_all add: e heap_simps MAX_CLIENTS_def)
  from accept_replaces_closed [OF s(2) this, of ?a] obtain r where
    r: "add_client s 7 ?a = Some r" "case r of (c, t) \<Rightarrow> srv_inv t \<and> client_store t c = Some (new_client 7 ?a)
      \<and> c \<in> set (clients t) \<and> 7 \<in> open_fds t \<and> users t = users s
      \<and> (\<forall>d k. d \<noteq> c \<longrightarrow> (client_store t d = Some k \<longleftrightarrow> client_store s d = Some k \<and> c_fd k \<noteq> 7))
      \<and> (\<forall>d k. client_store t d = Some k \<longrightarrow> c_fd k = 7 \<longrightarrow> d = c)" by (rule returnsE)
  from r(2) [unfolded u] show ?thesis unfolding s(1) returns_simps r(1) case_prod_beta by blast
qed

section \<open>Files\<close>

lemma find_range_file: "find_range r (cstr name) = Some (sid, n) \<Longrightarrow>
    \<exists>f. findFile r name = Some f \<and> f_chunk_sid f = sid \<and> f_chunks f = n"
  by (auto simp: find_range_def findFile_def file_range_def)

lemma chunks_added_logged: "chunks_added c ks s t \<Longrightarrow> logged s c me x \<Longrightarrow> logged t c me x"
  by (auto simp: logged_def chunks_added_def session_live_def)

text \<open>A chunk of a file that was just registered is in its range.\<close>

lemma new_chunk_in_range:
  assumes "unat sid + unat n < 2 ^ 32" and "i < unat n" and "f_chunk_sid f = sid" and "f_chunks f = n"
  shows "in_range f (sid + word_of_nat i)" "unat (sid + word_of_nat i - sid) = i"
proof -
  have i: "unat (word_of_nat i :: u32) = i"
    using order.strict_trans [OF assms(2) u32_bound [of n]] by (simp add: unat_of_nat)
  have "unat (sid + word_of_nat i) = unat sid + i"
    using assms(1,2) i by (simp add: unat_add_u32)
  with assms show "in_range f (sid + word_of_nat i)"
    by (simp add: in_range_def word_le_nat_alt word_less_nat_alt unat_add_u32)
  show "unat (sid + word_of_nat i - sid) = i" using i by simp
qed

lemma offers_in_mask:
  assumes "offers s f v j"
  shows "j < unat (f_chunks f)"
  using assms by (auto simp: offers_def in_range_index)

lemma listed_any:
  "listed s f (wanted_mask (f_chunks f) []) 1 v \<longleftrightarrow> (\<exists>j. offers s f v j)"
proof -
  have "\<not> wanted_mask (f_chunks f) [] ! j" if "offers s f v j" for j
    using offers_in_mask [OF that] by (simp add: wanted_mask_def)
  then show ?thesis by (auto simp: listed_def offers_def)
qed

lemma search_text_whole: "search_text name n True h d ns = search_text name n True 0 d ns"
  by (simp add: search_text_def)



lemma wanted_mask_nth:
  assumes "i < unat n"
  shows "wanted_mask n cs ! i \<longleftrightarrow> word_of_nat i \<in> set cs"
proof -
  have i: "unat (word_of_nat i :: u32) = i"
    using order.strict_trans [OF assms u32_bound [of n]] by (simp add: unat_of_nat)
  have "fold (\<lambda>x m. if x < n then m[unat x := True] else m) cs m ! i \<longleftrightarrow> m ! i \<or> word_of_nat i \<in> set cs"
    if "length m = unat n" for m
    using that
  proof (induction cs arbitrary: m)
    case (Cons x cs)
    have "unat x = i \<longleftrightarrow> x = word_of_nat i" using i by (auto simp: word_unat_eq_iff)
    moreover have "x = word_of_nat i \<Longrightarrow> x < n" using i assms by (simp add: word_less_nat_alt)
    ultimately show ?case
      using Cons.prems assms Cons.IH [of "if x < n then m[unat x := True] else m"] by (auto simp: nth_list_update)
  qed simp
  from this [of "replicate (unat n) False"] assms show ?thesis by (simp add: wanted_mask_def)
qed

lemma listed_iff:
  assumes "cs = parse_packed_uint32 bs"
  shows "listed s f (wanted_mask (f_chunks f) cs) (if cs = [] then 1 else 2) v \<longleftrightarrow>
    (\<exists>j. offers s f v j \<and> (cs \<noteq> [] \<longrightarrow> word_of_nat j \<in> set cs))"
proof (cases "cs = []")
  case True
  then show ?thesis by (simp add: listed_any [unfolded One_nat_def])
next
  case False
  have "offers s f v j \<and> wanted_mask (f_chunks f) cs ! j \<longleftrightarrow> offers s f v j \<and> word_of_nat j \<in> set cs" for j
    using offers_in_mask wanted_mask_nth by blast
  with False show ?thesis by (auto simp: listed_def offers_def)
qed

text \<open>C29. A search counts exactly the chunks of the file that connections of online users have
  registered, lists exactly the online users with some chunk (with some of the requested ones, when
  chunks were requested), each once, and changes nothing.\<close>

theorem search_answer_exact:
  assumes "srv_inv s" and "logged s c me x" and "findFile (file_root s) (sfr_filename q) = Some f"
  shows "\<exists>l cs. cs = parse_packed_uint32 (sfr_chunks q) \<and> distinct l
    \<and> set l = {v. \<exists>j. offers s f v j \<and> (cs \<noteq> [] \<longrightarrow> word_of_nat j \<in> set cs)}
    \<and> cmd_searchfile_impl pb s c q = text_reply pb (search_text (cstr (sfr_filename q)) (f_chunks f)
        (\<forall>i < unat (f_chunks f). \<exists>v. offers s f v i) (card {i. \<exists>v. offers s f v i})
        (if cs = [] then ''any'' else ''your requested'')
        (if l = [] then None else Some (join_names [CHR 0x0A] [] (map (name_of s) l)))) True s"
proof -
  let ?cs = "parse_packed_uint32 (sfr_chunks q)"
  let ?l = "filter (listed s f (wanted_mask (f_chunks f) ?cs) (if ?cs = [] then 1 else 2)) (db_first (udb s))"
  note db = db_okD(1,2) [OF srv_invD(5) [OF assms(1)]]
  have o: "offered s f i \<longleftrightarrow> (\<exists>v. offers s f v i)" for i
    using db(1) by (auto simp: offered_def offers_def)
  have "{i. i < unat (f_chunks f) \<and> (\<exists>v. offers s f v i)} = {i. \<exists>v. offers s f v i}"
    using offers_in_mask by blast
  with cmd_searchfile_spec [OF assms] have "cmd_searchfile_impl pb s c q =
      text_reply pb (search_text (cstr (sfr_filename q)) (f_chunks f)
        (\<forall>i < unat (f_chunks f). \<exists>v. offers s f v i) (card {i. \<exists>v. offers s f v i})
        (if ?cs = [] then ''any'' else ''your requested'')
        (if ?l = [] then None else Some (join_names [CHR 0x0A] [] (map (name_of s) ?l)))) True s"
    unfolding o by presburger
  moreover have "set ?l = {v. \<exists>j. offers s f v j \<and> (?cs \<noteq> [] \<longrightarrow> word_of_nat j \<in> set ?cs)}"
    unfolding set_filter listed_iff [OF refl] using db(1) by (auto simp: offers_def)
  moreover have "distinct ?l" using db(2) by simp
  ultimately show ?thesis by blast
qed

text \<open>The state of the witness: \<open>ann\<close> has registered a file with one chunk.\<close>

definition demo_shared :: server where
  "demo_shared = (put_client 0 ((demo_client 5 (Some 0))\<lparr>c_nchunks := 1, c_chunkids := [0]\<rparr>) demo)
     \<lparr>file_root := fst (file_add newTrieFileNode ''f'' 0 1), global_chunk_id := 1\<rparr>"

definition demo_file :: trie_file where
  "demo_file = Trie_File (\<lambda>_. None) 1 0"

lemma demo_shared_file: "findFile (file_root demo_shared) ''f'' = Some demo_file"
  by (simp add: demo_shared_def findFile_def newTrieFileNode_def demo_file_def cstr_def Let_def)

lemma demo_shared_inv: "srv_inv demo_shared"
proof -
  have "client_ok {} demo 0 ((demo_client 5 (Some 0))\<lparr>c_nchunks := 1, c_chunkids := [0]\<rparr>)"
    using heap_invD(3) [OF srv_invD(1) [OF demo_inv], of 0 "demo_client 5 (Some 0)"]
    by (simp add: client_ok_def)
  then have "srv_inv (put_client 0 ((demo_client 5 (Some 0))\<lparr>c_nchunks := 1, c_chunkids := [0]\<rparr>) demo)"
    by (rule srv_inv_put_client [OF demo_inv, where cl = "demo_client 5 (Some 0)", rotated]) simp_all
  then show ?thesis by (simp add: demo_shared_def)
qed

lemma demo_shared_offers: "offers demo_shared demo_file v j \<longleftrightarrow> v = 0 \<and> j = 0"
  by (auto simp: offers_def demo_shared_def heap_simps chunks_of_def client_chunks_def in_range_def demo_file_def
      session_live_def split: if_splits)

lemma search_answer_exact_witness:
  "\<exists>l. set l = {0} \<and> cmd_searchfile_impl wire_pb demo_shared 1 \<lparr>sfr_filename = ''f'', sfr_chunks = []\<rparr> =
     text_reply wire_pb (search_text ''f'' 1 True 1 ''any''
       (Some (join_names [CHR 0x0A] [] (map (name_of demo_shared) l)))) True demo_shared"
proof -
  let ?q = "\<lparr>sfr_filename = ''f'', sfr_chunks = []\<rparr>"
  have me: "logged demo_shared 1 1 (demo_user ''bob'' ''b1'' (Some 1))"
    by (auto simp: logged_def demo_shared_def heap_simps session_live_def)
  have "findFile (file_root demo_shared) (sfr_filename ?q) = Some demo_file" by (simp add: demo_shared_file)
  from search_answer_exact [OF demo_shared_inv me this, of wire_pb] obtain l cs where
    l: "cs = parse_packed_uint32 (sfr_chunks ?q)"
      "set l = {v. \<exists>j. offers demo_shared demo_file v j \<and> (cs \<noteq> [] \<longrightarrow> word_of_nat j \<in> set cs)}"
      "cmd_searchfile_impl wire_pb demo_shared 1 ?q = text_reply wire_pb (search_text (cstr (sfr_filename ?q)) (f_chunks demo_file)
        (\<forall>i < unat (f_chunks demo_file). \<exists>v. offers demo_shared demo_file v i)
        (card {i. \<exists>v. offers demo_shared demo_file v i}) (if cs = [] then ''any'' else ''your requested'')
        (if l = [] then None else Some (join_names [CHR 0x0A] [] (map (name_of demo_shared) l)))) True demo_shared"
    by blast
  have cs: "cs = []" unfolding l(1) by simp
  have "set l = {0}" unfolding l(2) demo_shared_offers cs by auto
  moreover from this have "l \<noteq> []" by (metis empty_set insert_not_empty)
  moreover have "cmd_searchfile_impl wire_pb demo_shared 1 ?q = text_reply wire_pb (search_text ''f'' 1 True 1 ''any''
        (if l = [] then None else Some (join_names [CHR 0x0A] [] (map (name_of demo_shared) l)))) True demo_shared"
    unfolding l(3) demo_shared_offers cs by (simp add: demo_file_def cstr_def)
  ultimately show ?thesis by (intro exI [of _ l] conjI) simp_all
qed

end
