(* ===== verification/Limits.thy ===== *)
theory Limits
  imports Answers
begin

text \<open>
  Where the code does not do what it means to.  Each property here is proved of the model as it is,
  for every state in which the situation can arise, and is recorded among the findings.
\<close>

section \<open>Sending without any invariant\<close>

text \<open>If a send returns at all, it has changed nothing but buffers, whatever state it began in.\<close>

lemma send_to_client_frame:
  assumes "send_response_to_client pb s c m = Some t"
  shows "buffers_only s t"
proof -
  from assms obtain cl ob where c: "client_store s c = Some cl"
    "t = (put_client c (cl\<lparr>c_outbuffer := ob\<rparr>) s)\<lparr>epoll := epoll_mod (c_fd cl) (True, True) (epoll s)\<rparr>"
    by (auto simp: send_response_to_client_def bind_eq_Some_conv split: if_splits)
  then show ?thesis
    by (simp add: buffers_only_def heap_simps strip_client_def epoll_mod_facts)
qed

lemma send_to_user_frame:
  assumes "send_response_to_user pb s u m = Some t"
  shows "buffers_only s t"
proof -
  from assms obtain x live where x: "users s u = Some x"
    "(case (live, u_client x) of (True, Some c) \<Rightarrow> send_response_to_client pb s c m
      | _ \<Rightarrow> do { b \<leftarrow> send_response pb (u_buffer x) m; Some (put_user u (x\<lparr>u_buffer := b\<rparr>) s) }) = Some t"
    by (auto simp: send_response_to_user_def bind_eq_Some_conv)
  have keep: "buffers_only s t" if "send_response pb (u_buffer x) m \<bind> (\<lambda>b. Some (put_user u (x\<lparr>u_buffer := b\<rparr>) s)) = Some t"
    using that x(1) by (auto simp: bind_eq_Some_conv buffers_only_def heap_simps strip_user_def)
  show ?thesis
  proof (cases "live \<and> u_client x \<noteq> None")
    case True
    with x(2) send_to_client_frame show ?thesis by auto
  next
    case False
    with x(2) show ?thesis by (intro keep) (auto split: option.splits bool.splits)
  qed
qed

lemma notify_one_frame:
  assumes "notify_one pb u rsp v s = Some t"
  shows "buffers_only s t"
  using assms send_to_user_frame
  by (auto simp: notify_one_def bind_eq_Some_conv split: if_splits)

lemma foldM_stuck:
  assumes "x \<in> set xs" and "P s" and "\<And>y t t'. P t \<Longrightarrow> f y t = Some t' \<Longrightarrow> P t'"
    and "\<And>t. P t \<Longrightarrow> f x t = None"
  shows "foldM f xs s = None"
  using assms(1,2)
proof (induction xs arbitrary: s)
  case (Cons y xs)
  show ?case
  proof (cases "f y s")
    case (Some t)
    with Cons.prems assms(3,4) have "x \<noteq> y" "P t" by auto
    with Cons Some show ?thesis by auto
  qed simp
qed simp

text \<open>Notifying a user whose connection is locked by the very thread that notifies.\<close>

lemma notify_locked:
  assumes a: "a \<in> set (db_first (udb s))" "users s a = Some x" "session_live s x" "u_client x = Some c"
    and u: "users s u = Some y" "a \<noteq> u" "a \<notin> set (u_blocked y)"
    and l: "client_store s c = Some cl" "c_locked cl"
  shows "notify_others pb u rsp s = None"
  unfolding notify_others_def
proof (rule foldM_stuck [where x = a and P = "buffers_only s"])
  fix v t t' assume "buffers_only s t" "notify_one pb u rsp v t = Some t'"
  then show "buffers_only s t'" using notify_one_frame buffers_only_trans by blast
next
  fix t assume b: "buffers_only s t"
  obtain b1 where x': "users t a = Some (x\<lparr>u_buffer := b1\<rparr>)" using b a(2) by (rule buffers_only_user)
  obtain b2 where y': "users t u = Some (y\<lparr>u_buffer := b2\<rparr>)" using b u(1) by (rule buffers_only_user)
  obtain b3 where cl': "client_store t c = Some (cl\<lparr>c_outbuffer := b3\<rparr>)" using b l(1) by (rule buffers_only_client)
  have "session_live t (x\<lparr>u_buffer := b1\<rparr>)" using a(3) by (simp add: buffers_only_live [OF b])
  then show "notify_one pb u rsp a t = None"
    using u(2,3) x' y' cl' a(4) l(2)
    by (simp add: notify_one_def heap_simps send_response_to_user_def send_response_to_client_def)
qed (use a(1) in simp_all)

section \<open>Logging in twice\<close>

text \<open>C39. A second login on a connection that is already logged in is accepted and leaves the first
  user linked to it.  When that connection is closed, the thread that closes it holds the
  connection's mutex, finds the first user "online" there, and locks the same mutex again: the server
  stops.\<close>

theorem double_login_deadlocks:
  assumes "srv_inv s" and "logged s c a x" and "findUser s (lr_username q) = Some b" and "users s b = Some y"
    and "b \<noteq> a" and "u_client y = None" and "\<not> now s < u_last_blocked y" and "u_password y = cstr (lr_password q)"
    and "a \<notin> set (u_blocked y)"
  shows "\<exists>rsp t. cmd_login_impl pb s c q = Some (Some rsp, t) \<and> close_socket pb t (Some c) = None"
proof -
  note inv = srv_invD [OF assms(1)] and a = logged_user [OF assms(1,2)]
  obtain cl where cl: "client_store s c = Some cl" "c_user cl = Some a"
    using assms(2) by (auto simp: logged_def)
  have off: "\<not> session_live s y" using assms(6) by (simp add: session_live_def)
  from login_spec [OF inv(1), of pb "lr_username q" "lr_password q"] assms(3,4,7,8) off obtain t1 where
    t1: "login pb s (lr_username q) (lr_password q) = Some (0, Some b, t1)"
      "notified b (login_notice pb (lr_username q)) (put_user b (after_login s y) s) t1"
    by (auto elim!: returnsE)
  let ?s1 = "put_user b (after_login s y) s"
  have f: "buffers_only ?s1 t1" and us: "users t1 = (users s)(b \<mapsto> after_login s y)"
    using t1(2) by (simp_all add: notified_simps heap_simps)
  have "client_store ?s1 c = Some cl" using cl(1) by (simp add: heap_simps)
  with f obtain ob where c1: "client_store t1 c = Some (cl\<lparr>c_outbuffer := ob\<rparr>)" by (rule buffers_only_client)
  let ?k = "cl\<lparr>c_outbuffer := ob, c_user := Some b, c_addr := (c_addr cl)\<lparr>sin_port := htons (ucast (lr_port q))\<rparr>\<rparr>"
  let ?t = "put_client c ?k (put_user b ((after_login s y)\<lparr>u_client := Some c\<rparr>) t1)"
  have login: "cmd_login_impl pb s c q = Some (Some (welcome_reply pb y), ?t)"
    using t1(1) us c1 by (simp add: cmd_login_impl_def text_reply_def welcome_reply_def heap_simps)
  have nl: "\<not> c_locked ?k" using heap_inv_client(3) [OF inv(1) cl(1)] by simp
  have nh: "c_close_prehook ?k = None" using inv(2) cl(1) by (auto simp: no_hooks_def)
  let ?l = "put_client c (?k\<lparr>c_locked := True\<rparr>) ?t"
  let ?z = "(after_login s y)\<lparr>u_client := None\<rparr>"
  let ?n = "put_user b ?z (put_client c (?k\<lparr>c_locked := True, c_user := None\<rparr>) ?l)"
  have g: "udb ?n = udb s" "now ?n = now s" "is_server ?n"
    using buffers_only_fields(1-3) [OF f] inv(4) by (simp_all add: heap_simps)
  have live: "session_live ?n x" using a(2) g by (simp add: session_live_def)
  have "notify_others pb b rsp ?n = None" for rsp
  proof (rule notify_locked [of a _ x c b ?z])
    show "a \<in> set (db_first (udb ?n))" using db_okD(1) [OF inv(5)] a(1) by (auto simp only: g)
    show "users ?n a = Some x" using a(1) assms(5) us by (simp add: heap_simps)
    show "client_store ?n c = Some (?k\<lparr>c_locked := True, c_user := None\<rparr>)" by (simp add: heap_simps)
  qed (use live a(3) assms(5,9) in \<open>simp_all add: heap_simps after_login_def\<close>)
  then have "logoutUser pb ?l (Some b) = None"
    using g(3) by (simp add: logoutUser_def heap_simps Let_def)
  then have "close_socket pb ?t (Some c) = None"
    using nl nh by (simp add: close_socket_def heap_simps Let_def)
  with login show ?thesis by blast
qed

lemma double_login_deadlocks_witness:
  "\<exists>rsp t. cmd_login_impl wire_pb demo 0 \<lparr>lr_username = ''cyd'', lr_password = ''c1'', lr_port = 9000\<rparr> = Some (Some rsp, t)
    \<and> close_socket wire_pb t (Some 0) = None"
  using double_login_deadlocks [OF demo_inv demo_logged(1), where b = 2 and y = "new_user ''cyd'' ''c1''"
      and q = "\<lparr>lr_username = ''cyd'', lr_password = ''c1'', lr_port = 9000\<rparr>" and pb = wire_pb]
  by (simp add: demo_find)

section \<open>Logging in behind a logout\<close>

text \<open>A login that comes behind a logout, in what was received at once, is accepted on the connection the
  logout has just closed.  When the descriptor is used again the connection is freed, with the user still
  linked to it: the next message to that user goes to freed memory.\<close>

lemma freed_with_descriptor:
  assumes tab: "set (clients s) \<subseteq> dom (client_store s)" "c \<in> set (clients s)" and cl: "client_store s c = Some k"
    and one: "\<forall>d l. client_store s d = Some l \<longrightarrow> c_fd l = c_fd k \<longrightarrow> d = c" and new: "c \<noteq> next_client s"
  shows "\<exists>d t. add_client s (c_fd k) a = Some (d, t) \<and> users t = users s \<and> udb t = udb s \<and> now t = now s \<and> client_store t c = None"
proof -
  obtain r where r: "find_fd s (clients s) (c_fd k) = Some r" "case r of
      None \<Rightarrow> \<forall>d \<in> set (clients s). \<forall>l. client_store s d = Some l \<longrightarrow> c_fd l \<noteq> c_fd k
    | Some i \<Rightarrow> i < length (clients s) \<and> (\<exists>l. client_store s (clients s ! i) = Some l \<and> c_fd l = c_fd k)"
    using find_fd_spec [OF tab(1), of "c_fd k"] by (rule returnsE)
  obtain i where "r = Some i" "clients s ! i = c"
  proof (cases r)
    case None
    then have "\<forall>d \<in> set (clients s). \<forall>l. client_store s d = Some l \<longrightarrow> c_fd l \<noteq> c_fd k" using r(2) by simp
    from bspec [OF this tab(2)] cl show thesis by blast
  next
    case (Some i)
    with r(2) obtain l where "client_store s (clients s ! i) = Some l" "c_fd l = c_fd k" by auto
    with one Some show thesis by (intro that) auto
  qed
  with r(1) new show ?thesis
    by (simp add: add_client_def lookup_client_def im_connection_accept_def free_client_def Let_def)
qed

lemma login_on_closed_dangles:
  assumes inv: "srv_inv s" and cl: "client_store s c = Some cl" and clock: "now s < int32 (now s + login_timeout (udb s))"
    and u: "findUser s (lr_username q) = Some u" "users s u = Some x" "\<not> now s < u_last_blocked x"
      "u_password x = cstr (lr_password q)" "u_client x = None"
  shows "\<exists>rsp t d t'. cmd_login_impl pb s c q = Some (Some rsp, t) \<and> add_client t (c_fd cl) a = Some (d, t')
    \<and> send_response_to_user pb t' u msg = None"
proof -
  note H = srv_invD [OF inv]
  have off: "\<not> session_live s x" using u(5) by (simp add: session_live_def)
  from login_spec [OF H(1), of pb "lr_username q" "lr_password q"] u(1-4) off obtain t1 where
    t1: "login pb s (lr_username q) (lr_password q) = Some (0, Some u, t1)"
      "notified u (login_notice pb (lr_username q)) (put_user u (after_login s x) s) t1"
    by (auto elim!: returnsE)
  let ?s1 = "put_user u (after_login s x) s"
  have f: "buffers_only ?s1 t1" and us: "users t1 = (users s)(u \<mapsto> after_login s x)"
    using t1(2) by (simp_all add: notified_simps heap_simps)
  have g: "udb t1 = udb s" "now t1 = now s" "clients t1 = clients s" "next_client t1 = next_client s"
    using buffers_only_fields [OF f] by (simp_all add: heap_simps)
  have "client_store ?s1 c = Some cl" using cl by (simp add: heap_simps)
  with f obtain ob where c1: "client_store t1 c = Some (cl\<lparr>c_outbuffer := ob\<rparr>)" by (rule buffers_only_client)
  have fds: "map_option c_fd (client_store t1 d) = map_option c_fd (client_store s d)" for d
  proof (cases "client_store s d")
    case None
    then show ?thesis using buffers_only_dom(2) [OF f] by (auto simp: heap_simps)
  next
    case (Some l)
    then have "client_store ?s1 d = Some l" by (simp add: heap_simps)
    with f obtain b where "client_store t1 d = Some (l\<lparr>c_outbuffer := b\<rparr>)" by (rule buffers_only_client)
    with Some show ?thesis by simp
  qed
  let ?k = "cl\<lparr>c_outbuffer := ob, c_user := Some u, c_addr := (c_addr cl)\<lparr>sin_port := htons (ucast (lr_port q))\<rparr>\<rparr>"
  let ?t = "put_client c ?k (put_user u ((after_login s x)\<lparr>u_client := Some c\<rparr>) t1)"
  have login: "cmd_login_impl pb s c q = Some (Some (welcome_reply pb x), ?t)"
    using t1(1) us c1 by (simp add: cmd_login_impl_def text_reply_def welcome_reply_def heap_simps)
  have tab: "set (clients ?t) \<subseteq> dom (client_store ?t)" "c \<in> set (clients ?t)" "c \<noteq> next_client ?t"
    using conns_okD(1) [OF H(3)] conns_okD(3) [OF H(3), of c] cl buffers_only_dom(2) [OF f] g by (auto simp: heap_simps)
  have one: "d = c" if "client_store ?t d = Some l" "c_fd l = c_fd ?k" for d l
  proof (rule ccontr)
    assume d: "d \<noteq> c"
    then have "map_option c_fd (client_store s d) = Some (c_fd cl)" using that fds [of d] by (simp add: heap_simps)
    then obtain l' where "client_store s d = Some l'" "c_fd l' = c_fd cl" by auto
    with conns_okD(4) [OF H(3) _ cl] d show False by blast
  qed
  then have one': "\<forall>d l. client_store ?t d = Some l \<longrightarrow> c_fd l = c_fd ?k \<longrightarrow> d = c" by blast
  have k: "client_store ?t c = Some ?k" by (simp add: heap_simps)
  from freed_with_descriptor [OF tab(1,2) k one' tab(3), where a = a] obtain d t' where
    t': "add_client ?t (c_fd cl) a = Some (d, t')" "users t' = users ?t" "udb t' = udb ?t" "now t' = now ?t" "client_store t' c = None"
    by auto
  have "session_live t' ((after_login s x)\<lparr>u_client := Some c\<rparr>)"
    using clock t'(3,4) g by (simp add: session_live_def after_login_def heap_simps)
  then have "send_response_to_user pb t' u msg = None"
    using t'(2,5) by (simp add: send_response_to_user_def send_response_to_client_def heap_simps)
  with login t'(1) show ?thesis by blast
qed

text \<open>The state is that of the connection \<open>c\<close> after a logout: no user, closed, and still in the table.\<close>

lemma login_on_closed_dangles_witness:
  "\<exists>t rsp t1 d t2. close_socket wire_pb demo (Some 2) = Some t \<and> 7 \<notin> open_fds t
    \<and> cmd_login_impl wire_pb t 2 \<lparr>lr_username = ''cyd'', lr_password = ''c1'', lr_port = 9000\<rparr> = Some (Some rsp, t1)
    \<and> add_client t1 7 a = Some (d, t2) \<and> send_response_to_user wire_pb t2 2 msg = None"
proof -
  have cl: "client_store demo 2 = Some (demo_client 7 None)" by simp
  note H = srv_invD [OF demo_inv]
  from close_socket_spec [OF H(1,2) cl, of wire_pb] close_socket_inv [OF demo_inv cl, of wire_pb] obtain t where
    t: "close_socket wire_pb demo (Some 2) = Some t" "srv_inv t" "closed_from 2 demo t" "net_frame demo t" "users t = users demo"
    by (auto elim!: returnsE)
  have k: "client_store t 2 = Some ((demo_client 7 None)\<lparr>c_user := None\<rparr>)" "7 \<notin> open_fds t"
    using t(3) by (simp_all add: closed_from_def)
  have g: "udb t = udb demo" "now t = 100" using t(4) by (simp_all add: net_frame_def)
  have "findUser t ''cyd'' = Some 2" using demo_find(3) g(1) by (simp add: findUser_def)
  with login_on_closed_dangles [OF t(2) k(1), of "\<lparr>lr_username = ''cyd'', lr_password = ''c1'', lr_port = 9000\<rparr>" 2 "new_user ''cyd'' ''c1''" wire_pb a msg]
    t(5) g k(2) t(1) show ?thesis by auto
qed

section \<open>Flushing two buffers over one interest set\<close>

text \<open>C40. When the connection's buffer could only be sent in part and nothing is kept for its user, the
  second, empty buffer takes the descriptor out of the output interest set: the rest of the first is
  not sent until something else is.\<close>

theorem flush_can_lose_wakeup:
  assumes "srv_inv s" and "client_store s c = Some cl" and "c_user cl = Some u" and "users s u = Some x"
    and "session_live s x" and "pending (u_buffer x) = []" and "n < length (pending (c_outbuffer cl))"
    and "epoll s (c_fd cl) \<noteq> None"
  shows "returns (flush_client s c (Sent n) r) (\<lambda>(out, t). cout t c = drop n (cout s c) \<and> cout t c \<noteq> []
    \<and> epoll t (c_fd cl) = Some (True, False))"
proof -
  note H = srv_invD(1) [OF assms(1)]
  obtain o1 b1 e1 where 1: "im_send_buffer (c_fd cl) (c_outbuffer cl) (Sent n) (epoll s) = (o1, b1, e1)"
    by (metis prod_cases3)
  have f1: "send_fits (c_outbuffer cl) (Sent n)" using assms(7) by (simp add: send_fits_def)
  note ok = im_send_buffer_spec [OF heap_inv_client(1) [OF H assms(2)] f1 1]
  have "pending (c_outbuffer cl) \<noteq> []"
  proof
    assume "pending (c_outbuffer cl) = []"
    with assms(7) show False by (simp del: length_pending)
  qed
  then have "o1 = take n (pending (c_outbuffer cl))"
    using 1 send_take_ok(1) [OF heap_inv_client(1) [OF H assms(2)], of n] assms(7)
    by (auto simp: im_send_buffer_def Let_def split: if_splits)
  with ok(1) have rest: "pending b1 = drop n (pending (c_outbuffer cl))"
    by (metis append_take_drop_id same_append_eq)
  then have "pending b1 \<noteq> []" using assms(7) by (simp del: length_pending)
  with ok(5) have e1: "e1 = epoll s" by simp
  have 2: "im_send_buffer (c_fd cl) (u_buffer x) r e1 = ([], send_compact (u_buffer x), epoll_mod (c_fd cl) (True, False) e1)"
    using assms(6) by (simp add: im_send_buffer_def Let_def flip: length_0_conv)
  have "flush_client s c (Sent n) r = Some (o1,
      (put_user u (x\<lparr>u_buffer := send_compact (u_buffer x)\<rparr>) ((put_client c (cl\<lparr>c_outbuffer := b1\<rparr>) s)\<lparr>epoll := e1\<rparr>))
        \<lparr>epoll := epoll_mod (c_fd cl) (True, False) e1\<rparr>)"
    using assms(2-5) heap_inv_client(3) [OF H assms(2)] 1 2
    by (simp add: flush_client_def Let_def heap_simps session_live_def)
  then show ?thesis
    using rest \<open>pending b1 \<noteq> []\<close> assms(2,8) e1 by (simp add: cout_def heap_simps epoll_mod_facts)
qed

text \<open>The state of the witness: \<open>ann\<close>'s connection with three bytes to send.\<close>

definition demo_out :: server where
  "demo_out = put_client 0 ((demo_client 5 (Some 0))\<lparr>c_outbuffer := recv_store (init_buffer 8) ''abc''\<rparr>) demo"

lemma demo_out_buffer: "buf_ok (recv_store (init_buffer 8) ''abc'')" "pending (recv_store (init_buffer 8) ''abc'') = ''abc''"
  using recv_store_ok [of "init_buffer 8" "''abc''"] init_buffer_ok [of 8]
  by (simp_all only: append_Nil) (simp_all add: recv_room_def init_buffer_def)

lemma demo_out_inv: "srv_inv demo_out"
proof -
  have "client_ok {} demo 0 ((demo_client 5 (Some 0))\<lparr>c_outbuffer := recv_store (init_buffer 8) ''abc''\<rparr>)"
    using heap_invD(3) [OF srv_invD(1) [OF demo_inv], of 0 "demo_client 5 (Some 0)"] demo_out_buffer(1)
    by (simp add: client_ok_def)
  then show ?thesis unfolding demo_out_def
    by (rule srv_inv_put_client [OF demo_inv, where cl = "demo_client 5 (Some 0)", rotated]) simp_all
qed

lemma flush_can_lose_wakeup_witness:
  "returns (flush_client demo_out 0 (Sent 1) (Sent 0)) (\<lambda>(out, t). cout t 0 = ''bc''
    \<and> epoll t 5 = Some (True, False))"
proof -
  let ?cl = "(demo_client 5 (Some 0))\<lparr>c_outbuffer := recv_store (init_buffer 8) ''abc''\<rparr>"
  have c: "client_store demo_out 0 = Some ?cl" by (simp add: demo_out_def heap_simps)
  have u: "users demo_out 0 = Some (demo_user ''ann'' ''a1'' (Some 0))" by (simp add: demo_out_def heap_simps)
  have l: "session_live demo_out (demo_user ''ann'' ''a1'' (Some 0))"
    by (simp add: session_live_def demo_out_def heap_simps)
  have "epoll demo_out 5 \<noteq> None" by (simp add: demo_out_def heap_simps demo_def)
  then have "returns (flush_client demo_out 0 (Sent 1) (Sent 0)) (\<lambda>(out, t). cout t 0 = drop 1 (cout demo_out 0)
      \<and> cout t 0 \<noteq> [] \<and> epoll t (c_fd ?cl) = Some (True, False))"
    by (intro flush_can_lose_wakeup [OF demo_out_inv c _ u l])
      (simp_all add: init_buffer_ok demo_out_buffer del: length_pending)
  moreover have "cout demo_out 0 = ''abc''" using c by (simp add: cout_def demo_out_buffer)
  ultimately show ?thesis by (auto elim!: returns_mono)
qed

section \<open>A failing receive\<close>

lemma recv_failed_end:
  assumes "0 < buffer_end b" and "buffer_end b < 2 ^ 64"
  shows "buffer_end (recv_failed b) = buffer_end b - 1"
proof -
  obtain e where e: "buffer_end b = Suc e" using assms(1) by (cases "buffer_end b") auto
  have "buffer_end b + (2 ^ 64 - 1) = e + 2 ^ 64" using e by simp
  then have "buffer_end (recv_failed b) = (e + 2 ^ 64) mod 2 ^ 64" unfolding recv_failed_def by simp
  also have "\<dots> = e" using assms(2) e by simp
  finally show ?thesis using e by simp
qed

text \<open>C38. The result of \<open>recv\<close> is kept in an unsigned variable, so its -1 is not recognised as an error:
  when nothing was waiting the receive loop leaves the buffer, and otherwise the last byte that was
  waiting is lost.\<close>

theorem recv_error_corrupts:
  assumes "srv_inv s" and "client_store s c = Some cl" and "buffer_capacity (c_inbuffer cl) < 2 ^ 62"
  shows "(if pending (c_inbuffer cl) = [] then im_receive_command pb handler s c Recv_Error = None
    else pending (recv_failed (recv_prepare (c_inbuffer cl))) = butlast (pending (c_inbuffer cl)))"
proof -
  let ?b = "recv_prepare (c_inbuffer cl)"
  have ok: "buf_ok (c_inbuffer cl)" using heap_inv_client(2) [OF srv_invD(1) [OF assms(1)] assms(2)] .
  note b = recv_prepare_ok [OF ok]
  have cap: "buffer_capacity ?b < 2 ^ 63"
    using assms(3) by (simp add: recv_prepare_def Let_def)
  have e: "buffer_end ?b = length (pending (c_inbuffer cl))"
    using b(2,3) length_pending [of ?b] by simp
  have le: "buffer_end ?b < 2 ^ 63" using cap b(1) by (simp add: buf_ok_def)
  show ?thesis
  proof (cases "pending (c_inbuffer cl) = []")
    case True
    with e have "buffer_end ?b = 0" by (simp del: length_pending)
    then have f: "buffer_start (recv_failed ?b) = 0" "buffer_end (recv_failed ?b) = 2 ^ 64 - 1"
        "buffer_capacity (recv_failed ?b) < 2 ^ 63"
      using b(3) cap by (simp_all add: recv_failed_def)
    have "recv_loop pb handler c (put_client c (cl\<lparr>c_inbuffer := recv_failed ?b\<rparr>) s) = None"
      using f by (subst recv_loop.simps) (simp add: heap_simps Let_def)
    with True assms(2) show ?thesis by (simp add: im_receive_command_def Let_def)
  next
    case False
    with e have pos: "0 < buffer_end ?b" by (simp del: length_pending)
    have "buffer_end (recv_failed ?b) = buffer_end ?b - 1" using pos le by (intro recv_failed_end) simp_all
    then have "pending (recv_failed ?b) = take (buffer_end ?b - 1) (pending ?b)"
      using b(3) by (simp add: pending_def recv_failed_def mem_read_def take_map)
    also have "\<dots> = butlast (pending ?b)" using e b(2) by (simp add: butlast_conv_take del: length_pending)
    finally show ?thesis using False b(2) by simp
  qed
qed

lemma recv_error_corrupts_witness:
  "im_receive_command wire_pb (parse_command wire_pb) demo 0 Recv_Error = None"
  using recv_error_corrupts [OF demo_inv, of 0 "demo_client 5 (Some 0)" wire_pb "parse_command wire_pb"]
  by (simp add: pending_def mem_read_def init_buffer_def MSG_LIMIT_def)

section \<open>Chunks of somebody else's file\<close>

text \<open>A client can register chunks of a file it did not name: an index past the end of the file it
  names falls into the range of another file, and the search for that file then lists it.\<close>

theorem regchunk_claims_foreign_chunk:
  assumes "srv_inv s" and "logged s c me x" and "client_store s c = Some cl"
    and "findFile (file_root s) (rcr_filename q) = Some f" and "parse_packed_uint32 (rcr_chunks q) = [i]"
    and "in_range g (f_chunk_sid f + i)" and "unat (c_nchunks cl) + length (rcr_chunks q) div 4 < 2 ^ 31"
  shows "returns (cmd_regchunk_impl pb s c q) (\<lambda>(rsp, t). offers t g me (unat (f_chunk_sid f + i - f_chunk_sid g)))"
proof -
  from cmd_regchunk_spec(2) [OF assms(1-4,7), of pb] obtain rsp t where
    t: "cmd_regchunk_impl pb s c q = Some (rsp, t)" "srv_inv t" "chunks_added c [f_chunk_sid f + i] s t"
    using assms(5) by (auto elim!: returnsE)
  have me: "logged t c me x" using t(3) assms(2) by (rule chunks_added_logged)
  note x = logged_user [OF t(2) me]
  have "f_chunk_sid f + i \<in> set (chunks_of t c)" using t(3) by (simp add: chunks_added_def)
  with x assms(6) have "offers t g me (unat (f_chunk_sid f + i - f_chunk_sid g))"
    unfolding offers_def by metis
  with t(1) show ?thesis by simp
qed

lemma regchunk_claims_foreign_chunk_witness:
  "returns (cmd_regchunk_impl wire_pb demo_shared 1 \<lparr>rcr_filename = ''f'', rcr_chunks = le_bytes 4 1\<rparr>)
     (\<lambda>(rsp, t). offers t (Trie_File (\<lambda>_. None) 1 1) 1 0)"
proof -
  let ?q = "\<lparr>rcr_filename = ''f'', rcr_chunks = le_bytes 4 (unat (1 :: u32))\<rparr>"
  have me: "logged demo_shared 1 1 (demo_user ''bob'' ''b1'' (Some 1))"
    by (auto simp: logged_def demo_shared_def heap_simps session_live_def)
  have c: "client_store demo_shared 1 = Some (demo_client 6 (Some 1))" by (simp add: demo_shared_def heap_simps)
  have f: "findFile (file_root demo_shared) (rcr_filename ?q) = Some demo_file" by (simp add: demo_shared_file)
  have p: "parse_packed_uint32 (rcr_chunks ?q) = [1]" using parse_packed_step [of 1 "[]"] by simp
  have g: "in_range (Trie_File (\<lambda>_. None) 1 1) (f_chunk_sid demo_file + 1)"
    by (simp add: in_range_def demo_file_def)
  show ?thesis
    using regchunk_claims_foreign_chunk [OF demo_shared_inv me c f p g, of wire_pb]
    by (auto simp: demo_file_def elim!: returns_mono)
qed

end
