(* ===== verification/Stdio.thy ===== *)
theory Stdio
  imports Packed
begin

text \<open>
  What the client uses of the operating system and of stdio: a file system of directories and
  regular files, \<open>stat\<close>, \<open>mkdir\<close>, \<open>fopen\<close> with \<open>fread\<close> and \<open>fwrite\<close>, \<open>fgets\<close> on the standard
  input, and \<open>sscanf\<close> of a word and a number.  Permissions, links and full disks are not modelled.
  The locale \<open>file_store\<close> is what the client relies on: what was written is read back, and nothing
  else changes.
\<close>

section \<open>Paths\<close>

text \<open>A location is the list of names from the working directory; \<open>..\<close> above it stays a name, and an
  absolute path starts with the name \<open>/\<close>.\<close>

type_synonym path = "bytes list"

datatype fnode = Dir | Reg bytes

type_synonym files = "path \<Rightarrow> fnode option"

fun split_slash :: "bytes \<Rightarrow> bytes list" where
  "split_slash [] = [[]]"
| "split_slash (c # cs) =
     (if c = CHR ''/'' then [] # split_slash cs
      else (case split_slash cs of [] \<Rightarrow> [[c]] | d # ds \<Rightarrow> (c # d) # ds))"

definition parent_dir :: "path \<Rightarrow> path" where
  "parent_dir p = (if p = [''/''] then p else if p = [] \<or> last p = ''..'' then p @ [''..''] else butlast p)"

text \<open>Every step goes through an existing directory.\<close>

fun walk :: "files \<Rightarrow> path \<Rightarrow> bytes list \<Rightarrow> path option" where
  "walk fs p [] = Some p"
| "walk fs p (n # ns) =
     (if fs p \<noteq> Some Dir then None
      else if n = [] \<or> n = ''.'' then walk fs p ns
      else if n = ''..'' then walk fs (parent_dir p) ns
      else walk fs (p @ [n]) ns)"

definition resolve :: "files \<Rightarrow> bytes \<Rightarrow> path option" where
  "resolve fs name =
     (case cstr name of [] \<Rightarrow> None
      | c # cs \<Rightarrow> if c = CHR ''/'' then walk fs [''/''] (split_slash cs) else walk fs [] (split_slash (c # cs)))"

section \<open>System calls\<close>

definition stat :: "files \<Rightarrow> bytes \<Rightarrow> fnode option" where
  "stat fs name = (case resolve fs name of None \<Rightarrow> None | Some p \<Rightarrow> fs p)"

definition mkdir :: "files \<Rightarrow> bytes \<Rightarrow> files option" where
  "mkdir fs name =
     (case resolve fs (rev (dropWhile (\<lambda>c. c = CHR ''/'') (rev (cstr name)))) of
        None \<Rightarrow> None
      | Some p \<Rightarrow> if fs p = None then Some (fs(p \<mapsto> Dir)) else None)"

text \<open>\<open>fopen(name, "rb")\<close> and reading to the end; a directory can be opened and gives no bytes.\<close>

definition read_file :: "files \<Rightarrow> bytes \<Rightarrow> bytes option" where
  "read_file fs name = (case stat fs name of None \<Rightarrow> None | Some Dir \<Rightarrow> Some [] | Some (Reg b) \<Rightarrow> Some b)"

text \<open>\<open>fopen(name, "wb")\<close>, \<open>fwrite\<close>, \<open>fclose\<close>.\<close>

definition write_file :: "files \<Rightarrow> bytes \<Rightarrow> bytes \<Rightarrow> files option" where
  "write_file fs name data =
     (case resolve fs name of None \<Rightarrow> None
      | Some p \<Rightarrow> if fs p = Some Dir then None else Some (fs(p \<mapsto> Reg data)))"

section \<open>Input\<close>

text \<open>\<open>fgets(buf, n, stdin)\<close>: the line with its newline, cut after \<open>n - 1\<close> bytes, and what is left;
  \<open>None\<close> at the end of the input, where the buffer is left as it was.\<close>

definition fgets :: "nat \<Rightarrow> bytes \<Rightarrow> (bytes \<times> bytes) option" where
  "fgets n inp =
     (if inp = [] then None
      else (let line = take (Suc (length (takeWhile (\<lambda>c. c \<noteq> CHR 0x0A) inp))) inp;
                got = take (n - 1) line
            in Some (got, drop (length got) inp)))"

text \<open>\<open>buf[strlen(buf) - 1] = 0\<close>; on an empty string it writes in front of the buffer.\<close>

definition chop :: "bytes \<Rightarrow> bytes option" where
  "chop buf = (if cstr buf = [] then None else Some (butlast (cstr buf)))"

text \<open>\<open>%s\<close> and \<open>%u\<close> of \<open>sscanf\<close>, with what they leave.  A number that does not fit an
  \<open>unsigned long\<close> saturates, as glibc does, and is then cut to 32 bits.\<close>

definition scan_s :: "bytes \<Rightarrow> (bytes \<times> bytes) option" where
  "scan_s b = (let r = dropWhile isspace b in
     if r = [] then None
     else Some (takeWhile (\<lambda>c. \<not> isspace c) r, dropWhile (\<lambda>c. \<not> isspace c) r))"

definition scan_u :: "bytes \<Rightarrow> u32 option" where
  "scan_u b = (let ds = takeWhile is_digit (number_start b); v = digits_value ds in
     if ds = [] then None
     else Some (word_of_int (if v \<ge> 2 ^ 64 then 2 ^ 64 - 1 else if is_negative b then - v else v)))"

section \<open>The contract of a file store\<close>

locale file_store =
  fixes put :: "'p \<Rightarrow> bytes \<Rightarrow> 'fs \<Rightarrow> 'fs"
    and get :: "'fs \<Rightarrow> 'p \<Rightarrow> bytes option"
  assumes get_put: "get (put p b fs) p = Some b"
    and get_put_other: "p' \<noteq> p \<Longrightarrow> get (put p b fs) p' = get fs p'"
begin

text \<open>Files written to different places are all there afterwards.\<close>

lemma get_put_all:
  assumes "distinct (map fst pbs)" and "(p, b) \<in> set pbs"
  shows "get (fold (\<lambda>(p, b). put p b) pbs fs) p = Some b"
  using assms
proof (induction pbs arbitrary: fs rule: rev_induct)
  case (snoc x pbs)
  obtain p' b' where x: "x = (p', b')" by (cases x)
  show ?case
  proof (cases "p = p'")
    case True
    with snoc.prems x have "b = b'" by (force simp: distinct_map inj_on_def)
    with True x show ?thesis by (simp add: get_put)
  next
    case False
    with snoc x have "get (fold (\<lambda>(p, b). put p b) pbs fs) p = Some b" by (intro snoc.IH) auto
    with False x show ?thesis by (simp add: get_put_other)
  qed
qed simp

lemma get_put_all_other:
  assumes "p \<notin> fst ` set pbs"
  shows "get (fold (\<lambda>(p, b). put p b) pbs fs) p = get fs p"
  using assms by (induction pbs arbitrary: fs) (auto simp: get_put_other)

end

definition put_reg :: "path \<Rightarrow> bytes \<Rightarrow> files \<Rightarrow> files" where
  "put_reg p b fs = fs(p \<mapsto> Reg b)"

definition get_reg :: "files \<Rightarrow> path \<Rightarrow> bytes option" where
  "get_reg fs p = (case fs p of Some (Reg b) \<Rightarrow> Some b | _ \<Rightarrow> None)"

interpretation disk: file_store put_reg get_reg
  by unfold_locales (simp_all add: put_reg_def get_reg_def)

section \<open>Plain names\<close>

text \<open>A name without slashes that is neither empty nor \<open>.\<close> nor \<open>..\<close>: it names an entry of its directory.\<close>

definition plain :: "bytes \<Rightarrow> bool" where
  "plain n \<longleftrightarrow> n \<noteq> [] \<and> n \<noteq> ''.'' \<and> n \<noteq> ''..'' \<and> CHR ''/'' \<notin> set n \<and> NUL \<notin> set n"

lemma split_slash_last: "CHR ''/'' \<notin> set a \<Longrightarrow> split_slash a = [a]"
  by (induction a) auto

lemma split_slash_step: "CHR ''/'' \<notin> set a \<Longrightarrow> split_slash (a @ CHR ''/'' # b) = a # split_slash b"
  by (induction a) (auto split: list.splits)

lemma walk_plain: "plain n \<Longrightarrow> walk fs p (n # ns) = (if fs p = Some Dir then walk fs (p @ [n]) ns else None)"
  by (simp add: plain_def)

text \<open>A relative path of plain names is resolved name by name.\<close>

fun slashed :: "bytes list \<Rightarrow> bytes" where
  "slashed [] = []"
| "slashed [n] = n"
| "slashed (n # m # ns) = n @ ''/'' @ slashed (m # ns)"

lemma split_slashed: "ns \<noteq> [] \<Longrightarrow> \<forall>n \<in> set ns. plain n \<Longrightarrow> split_slash (slashed ns) = ns"
  by (induction ns rule: slashed.induct) (auto simp: plain_def split_slash_last split_slash_step)

lemma slashed_head: "\<forall>n \<in> set (m # ns). plain n \<Longrightarrow> slashed (m # ns) = hd m # tl (slashed (m # ns)) \<and> hd m \<noteq> CHR ''/''"
  by (cases ns; cases m) (auto simp: plain_def)

lemma slashed_no_NUL: "\<forall>n \<in> set ns. plain n \<Longrightarrow> NUL \<notin> set (slashed ns)"
  by (induction ns rule: slashed.induct) (auto simp: plain_def)

lemma walk_plains:
  assumes "\<forall>n \<in> set ns. plain n" and "\<forall>k < length ns. fs (p @ take k ns) = Some Dir"
  shows "walk fs p ns = Some (p @ ns)"
  using assms
proof (induction ns arbitrary: p)
  case (Cons n ns)
  have "fs p = Some Dir" using Cons.prems(2) by force
  moreover have "walk fs (p @ [n]) ns = Some ((p @ [n]) @ ns)"
  proof (rule Cons.IH)
    show "\<forall>k < length ns. fs ((p @ [n]) @ take k ns) = Some Dir"
      using Cons.prems(2) by (auto dest: spec [of _ "Suc _"])
  qed (use Cons.prems(1) in simp)
  ultimately show ?case using Cons.prems(1) by (simp add: walk_plain del: walk.simps)
qed simp

lemma resolve_slashed:
  assumes "ns \<noteq> []" and "\<forall>n \<in> set ns. plain n" and "\<forall>k < length ns. fs (take k ns) = Some Dir"
  shows "resolve fs (slashed ns) = Some ns"
proof -
  obtain m ms where ns: "ns = m # ms" using assms(1) by (cases ns) auto
  obtain c cs where c: "slashed ns = c # cs" "c \<noteq> CHR ''/''" using slashed_head assms(2) unfolding ns by metis
  have "cstr (slashed ns) = slashed ns" using slashed_no_NUL [OF assms(2)] by (rule cstr_id)
  then have "resolve fs (slashed ns) = walk fs [] (split_slash (slashed ns))"
    using c by (simp add: resolve_def)
  also have "\<dots> = walk fs [] ns" using split_slashed [OF assms(1,2)] by simp
  also have "\<dots> = Some ns" using walk_plains [of ns fs "[]"] assms(2,3) by simp
  finally show ?thesis .
qed

lemma plain_dec [simp]: "plain (dec n)"
proof -
  have d: "is_digit c" if "c \<in> set (dec n)" for c
    using that dec_digits [of n] by (simp add: list_all_iff)
  have "\<not> is_digit (CHR ''/'')" "\<not> is_digit (CHR ''.'')" "\<not> is_digit NUL" by (simp_all add: is_digit_def)
  with d have no: "CHR ''/'' \<notin> set (dec n)" "CHR ''.'' \<notin> set (dec n)" "NUL \<notin> set (dec n)" by blast+
  moreover have "dec n \<noteq> ''.''" "dec n \<noteq> ''..''" using no(2) by (metis list.set_intros(1))+
  moreover have "dec n \<noteq> []" using dec_digits [of n] by simp
  ultimately show ?thesis by (simp add: plain_def)
qed

lemma dec_inject [simp]: "dec m = dec n \<longleftrightarrow> m = n"
  using dec_digits [of m] dec_digits [of n] by (metis of_nat_eq_iff)

end
