(* ===== verification/Client.thy ===== *)
theory Client
  imports Network Stdio
begin

text \<open>
  \<open>clientlib/\<close>: the commands a user types, and the table that dispatches them.  A command returns the
  request to send to the server (NULL: none) and the new state; it may ask the user for more, write
  files, or talk to another client.  The client's state adds to the shared globals those of
  \<open>client.c\<close>, the standard input that has not been read yet, the file system, and the results the
  kernel will give the next calls of \<open>socket\<close> and \<open>connect\<close>.  Its user database \<open>p2pdb\<close> is the
  field \<open>udb\<close>.
\<close>

record client = proc +
  lastresponse :: bool
  loginlock :: bool
  loggedInUserName :: "bytes option"
  listen_port :: u32
  datapath :: bytes
  listen_fd :: int
  cl_files :: files
  cl_stdin :: bytes
  connects :: "int option list"
  exited :: bool

type_synonym command_result = "(IMRequest option \<times> client) option"

section \<open>Sending requests\<close>

definition send_request :: "pb_lib \<Rightarrow> im_buffer \<Rightarrow> IMRequest \<Rightarrow> im_buffer option" where
  "send_request pb b msg = buffer_append b (encodeIMRequestToBytes pb msg)"

definition mk_request :: "u32 \<Rightarrow> bytes \<Rightarrow> client \<Rightarrow> command_result" where
  "mk_request t v s = Some (Some \<lparr>imq_type = t, imq_value = v\<rparr>, s)"

section \<open>Commands that only make a request\<close>

text \<open>\<open>req\<close> is the whole line; every command skips its prefix.\<close>

definition cmd_block_client :: "pb_lib \<Rightarrow> client \<Rightarrow> bytes \<Rightarrow> command_result" where
  "cmd_block_client pb s req = mk_request 4 (encodeBlockRequestToBytes pb \<lparr>br_username = drop 6 req\<rparr>) s"

definition cmd_unblock_client :: "pb_lib \<Rightarrow> client \<Rightarrow> bytes \<Rightarrow> command_result" where
  "cmd_unblock_client pb s req = mk_request 5 (encodeUnBlockRequestToBytes pb \<lparr>ubr_username = drop 8 req\<rparr>) s"

definition cmd_startprivate_client :: "pb_lib \<Rightarrow> client \<Rightarrow> bytes \<Rightarrow> command_result" where
  "cmd_startprivate_client pb s req = mk_request 7 (encodeGetIPRequestToBytes pb \<lparr>giq_username = drop 13 req\<rparr>) s"

definition cmd_logout_client :: "pb_lib \<Rightarrow> client \<Rightarrow> bytes \<Rightarrow> command_result" where
  "cmd_logout_client pb s req = mk_request 6 (encodeLogOutRequestToBytes pb ()) s"

definition cmd_broadcast_client :: "pb_lib \<Rightarrow> client \<Rightarrow> bytes \<Rightarrow> command_result" where
  "cmd_broadcast_client pb s req = mk_request 2 (encodeMessageRequestToBytes pb
     \<lparr>mr_broadcast = True, mr_username = [], mr_msg = drop 10 req\<rparr>) s"

definition cmd_whoelse_client :: "pb_lib \<Rightarrow> client \<Rightarrow> bytes \<Rightarrow> command_result" where
  "cmd_whoelse_client pb s req = mk_request 3 (encodeWhoElseRequestToBytes pb
     \<lparr>wr_limitTime = False, wr_pastSeconds = 0, wr_currentlyOnline = True\<rparr>) s"

text \<open>\<open>atoi\<close> is \<open>(int)strtol\<close>; \<open>printf("%d\n", pastSeconds)\<close> echoes it.\<close>

definition cmd_whoelsesince_client :: "pb_lib \<Rightarrow> client \<Rightarrow> bytes \<Rightarrow> command_result" where
  "cmd_whoelsesince_client pb s req =
     (let secs = word_of_int (fst (strtol10 (drop 13 req))) :: u32
      in mk_request 3 (encodeWhoElseRequestToBytes pb
           \<lparr>wr_limitTime = True, wr_pastSeconds = secs, wr_currentlyOnline = False\<rparr>)
           (print_line (dec_int (sint secs)) s))"

definition cmd_searchfile_client :: "pb_lib \<Rightarrow> client \<Rightarrow> bytes \<Rightarrow> command_result" where
  "cmd_searchfile_client pb s req = mk_request 10 (encodeSearchFileRequestToBytes pb
     \<lparr>sfr_filename = drop 11 req, sfr_chunks = []\<rparr>) s"

text \<open>The scan for the blank that ends the first word, which is overwritten with a terminator.\<close>

fun split_word :: "bytes \<Rightarrow> (bytes \<times> bytes) option" where
  "split_word [] = None"
| "split_word (c # cs) =
     (if c = CHR '' '' then Some ([], cs)
      else (case split_word cs of None \<Rightarrow> None | Some (w, r) \<Rightarrow> Some (c # w, r)))"

definition cmd_message_client :: "pb_lib \<Rightarrow> client \<Rightarrow> bytes \<Rightarrow> command_result" where
  "cmd_message_client pb s req =
     (case split_word (drop 8 req) of
        None \<Rightarrow> Some (None, s)
      | Some (username, message) \<Rightarrow> mk_request 2 (encodeMessageRequestToBytes pb
          \<lparr>mr_broadcast = False, mr_username = username, mr_msg = message\<rparr>) s)"

definition cmd_searchchunk_client :: "pb_lib \<Rightarrow> client \<Rightarrow> bytes \<Rightarrow> command_result" where
  "cmd_searchchunk_client pb s req =
     (case split_word (drop 12 req) of
        None \<Rightarrow> Some (None, print_line ''Error: invalid command. Please specify chunks or use searchFile'' s)
      | Some (filename, chunkseq) \<Rightarrow> do {
          (nchunks, chunks) \<leftarrow> pack_repeated_uint32_from_str chunkseq;
          if nchunks = 0
          then Some (None, print_line
            ''Error: invalid command. Please specify chunks correctly or use searchFile'' s)
          else mk_request 10 (encodeSearchFileRequestToBytes pb
            \<lparr>sfr_filename = filename, sfr_chunks = chunks\<rparr>) s })"

section \<open>Logging in\<close>

definition LOGIN_SIZE_LIMIT :: nat where
  "LOGIN_SIZE_LIMIT = 100"

text \<open>A prompt and the line typed at it, without its last character.  At the end of the input the
  buffer is never set.\<close>

definition ask_line :: "bytes \<Rightarrow> client \<Rightarrow> (bytes \<times> client) option" where
  "ask_line prompt s = do {
     (l, rest) \<leftarrow> fgets LOGIN_SIZE_LIMIT (cl_stdin s);
     w \<leftarrow> chop l;
     Some (w, print_line prompt (s\<lparr>cl_stdin := rest\<rparr>)) }"

definition cmd_login_client :: "pb_lib \<Rightarrow> client \<Rightarrow> bytes \<Rightarrow> command_result" where
  "cmd_login_client pb s req = do {
     (username, s1) \<leftarrow> (case loggedInUserName s of
        None \<Rightarrow> ask_line ''Username: '' s
      | Some n \<Rightarrow> if length n < LOGIN_SIZE_LIMIT then Some (n, s) else None);
     (password, s2) \<leftarrow> ask_line ''Password: '' s1;
     mk_request 1 (encodeLoginRequestToBytes pb
       \<lparr>lr_username = username, lr_password = password, lr_port = listen_port s2\<rparr>)
       (s2\<lparr>loggedInUserName := Some username\<rparr>) }"

section \<open>Private messages\<close>

definition BUFSIZ :: nat where
  "BUFSIZ = 8192"

definition private_chunk_request :: "pb_lib \<Rightarrow> bytes \<Rightarrow> u32 \<Rightarrow> IMResponse" where
  "private_chunk_request pb filename chunk =
     \<lparr>rsp_type = 5, rsp_success = True, rsp_value = encodeChunkDataRequestToBytes pb
        \<lparr>cdq_filename = filename, cdq_chunk = chunk\<rparr>\<rparr>"

definition private_text :: "pb_lib \<Rightarrow> client \<Rightarrow> bytes \<Rightarrow> IMResponse" where
  "private_text pb s message =
     encodeTextToIMResponse pb (fmt_s (loggedInUserName s) @ '' (private): '' @ message) True"

text \<open>The scanned file name has to fit its array of \<open>BUFSIZ\<close> bytes.\<close>

definition cmd_private_client :: "pb_lib \<Rightarrow> client \<Rightarrow> bytes \<Rightarrow> command_result" where
  "cmd_private_client pb s req =
     (case split_word (drop 8 req) of
        None \<Rightarrow> Some (None, s)
      | Some (username, message) \<Rightarrow>
          (case findUser s username of
             None \<Rightarrow> Some (None, s)
           | Some u \<Rightarrow> do {
               us \<leftarrow> users s u;
               (case u_client us of
                  None \<Rightarrow> Some (None, s)
                | Some c \<Rightarrow>
                    if take 9 message = ''download '' then
                      (case scan_s (drop 9 message) of
                         None \<Rightarrow> Some (None, s)
                       | Some (filename, rest) \<Rightarrow>
                           if BUFSIZ \<le> length filename then None
                           else (case scan_u rest of
                              None \<Rightarrow> Some (None, s)
                            | Some chunk \<Rightarrow> do {
                                s' \<leftarrow> send_response_to_client pb s c (private_chunk_request pb filename chunk);
                                Some (None, s') }))
                    else do {
                      s' \<leftarrow> send_response_to_client pb s c (private_text pb s message);
                      Some (None, s') }) }))"

definition cmd_stopprivate_client :: "pb_lib \<Rightarrow> client \<Rightarrow> bytes \<Rightarrow> command_result" where
  "cmd_stopprivate_client pb s req =
     (let username = drop 12 req in
      case findUser s username of
        None \<Rightarrow> Some (None, s)
      | Some u \<Rightarrow> do {
          us \<leftarrow> users s u;
          (case u_client us of
             None \<Rightarrow> Some (None, s)
           | Some c \<Rightarrow> do {
               cl \<leftarrow> client_store s c;
               s' \<leftarrow> close_socket pb (put_client c (cl\<lparr>c_close_prehook := None\<rparr>) s) (Some c);
               Some (None, print_line (''Ended private messaging with '' @ username) s') }) })"

section \<open>Registering a file\<close>

text \<open>A \<open>[y/n]\<close> question, asked until the answer starts with one of the letters.  \<open>buf\<close> is the line
  buffer, \<open>None\<close> while it has not been set; at the end of the input it keeps its content, so a loop
  that meets the end with another content never ends.\<close>

definition next_line :: "bytes option \<Rightarrow> client \<Rightarrow> bytes option \<times> client" where
  "next_line buf s = (case fgets BUFSIZ (cl_stdin s) of
     None \<Rightarrow> (buf, s) | Some (l, rest) \<Rightarrow> (Some l, s\<lparr>cl_stdin := rest\<rparr>))"

definition starts :: "bytes \<Rightarrow> char \<Rightarrow> char \<Rightarrow> bool" where
  "starts b lo up \<longleftrightarrow> b \<noteq> [] \<and> (hd b = lo \<or> hd b = up)"

partial_function (option) confirm ::
    "bytes \<Rightarrow> bytes \<Rightarrow> bytes option \<Rightarrow> client \<Rightarrow> (bool \<times> bytes option \<times> client) option" where
  "confirm prompt again buf s =
     (let (buf', s1) = next_line buf (print_line prompt s) in
      case buf' of
        None \<Rightarrow> None
      | Some b \<Rightarrow>
          if starts b (CHR ''y'') (CHR ''Y'') then Some (True, buf', s1)
          else if starts b (CHR ''n'') (CHR ''N'') then Some (False, buf', s1)
          else confirm prompt again buf' (print_line again s1))"

text \<open>The loop that asks for the path, until it names a regular file with at least one byte.  The
  result is the path and the content; \<open>fp\<close> is the path buffer.\<close>

partial_function (option) ask_path :: "bytes option \<Rightarrow> client \<Rightarrow> (bytes \<times> bytes \<times> client) option" where
  "ask_path fp s =
     (let (fp', s1) = next_line fp (print_line ''Path to your local file: '' s) in
      Option.bind (Option.bind fp' chop) (\<lambda>path.
        case stat (cl_files s1) path of
          None \<Rightarrow> ask_path (Some path) s1
        | Some Dir \<Rightarrow> ask_path (Some path)
            (print_line ''That's not a regular file (could be a directory, etc)... Choose another file.'' s1)
        | Some (Reg content) \<Rightarrow>
            if content = [] then ask_path (Some path)
              (print_line ''That file is empty (0 bytes)... Please choose another file.'' s1)
            else Some (path, content, s1)))"

text \<open>What follows the last slash.\<close>

definition base_name :: "bytes \<Rightarrow> bytes" where
  "base_name p = rev (takeWhile (\<lambda>c. c \<noteq> CHR ''/'') (rev p))"

text \<open>\<open>chunksize\<close>: the number typed, 1024 when it is 0 or does not fit a \<open>long\<close>.  It may be negative.\<close>

definition chunk_size :: "bytes \<Rightarrow> int" where
  "chunk_size inp =
     (let ds = takeWhile is_digit (number_start inp);
          v = (if is_negative inp then - digits_value ds else digits_value ds)
      in if ds \<noteq> [] \<and> clamp_long v \<noteq> v then 1024
         else if fst (strtol10 inp) = 0 then 1024 else fst (strtol10 inp))"

text \<open>\<open>long\<close> division rounds towards 0; the count is then rounded up.\<close>

definition div_long :: "int \<Rightarrow> int \<Rightarrow> int" where
  "div_long a b = sgn a * sgn b * (\<bar>a\<bar> div \<bar>b\<bar>)"

definition chunk_count :: "int \<Rightarrow> int \<Rightarrow> int" where
  "chunk_count bytes chunksize =
     (let n = div_long bytes chunksize in if n * chunksize < bytes then n + 1 else n)"

text \<open>The loop that writes the chunks.  A buffer of a negative size is never allocated, and reading into
  it is not defined.\<close>

fun split_loop :: "bytes \<Rightarrow> int \<Rightarrow> nat \<Rightarrow> nat \<Rightarrow> bytes \<Rightarrow> files \<Rightarrow> files option" where
  "split_loop dir chunksize 0 i content fs = Some fs"
| "split_loop dir chunksize (Suc k) i content fs =
     (if chunksize < 0 then None
      else do {
        fs' \<leftarrow> write_file fs (dir @ ''/'' @ dec i) (take (nat chunksize) content);
        split_loop dir chunksize k (Suc i) (drop (nat chunksize) content) fs' })"

definition reg_question :: bytes where
  "reg_question = ''You're trying to register a new file on our P2P network.'' @ [CHR 0x0A] @
     ''If you are trying to register only a (or few) chunks of a file, don't use this command. '' @
     ''After you download a chunk from another peer, it is automatically registered on the server.'' @ [CHR 0x0A] @
     ''This is for new files only.'' @ [CHR 0x0A] @ ''Are you sure this is what you want to do? [y/n]: ''"

definition reg_summary :: "bytes \<Rightarrow> bytes \<Rightarrow> int \<Rightarrow> int \<Rightarrow> int \<Rightarrow> bytes" where
  "reg_summary filename filepath bytes chunksize nchunks =
     [CHR 0x0A, CHR 0x0A] @ ''===P2P FILE REGISTRATION==='' @ [CHR 0x0A] @
     ''File name: '' @ filename @ [CHR 0x0A] @ ''Local file path: '' @ filepath @ [CHR 0x0A] @
     ''File size: '' @ dec_int bytes @ '' bytes'' @ [CHR 0x0A] @
     ''Chunk size: '' @ dec_int chunksize @ '' bytes'' @ [CHR 0x0A] @
     ''Total Chunks: '' @ dec_int nchunks @ [CHR 0x0A] @ [CHR 0x0A] @ ''Can you confirm? [y/n]: ''"

text \<open>From the confirmed summary on: the directory, the chunks, the request.\<close>

definition register_chunks :: "pb_lib \<Rightarrow> bytes \<Rightarrow> bytes \<Rightarrow> int \<Rightarrow> int \<Rightarrow> client \<Rightarrow> command_result" where
  "register_chunks pb filename content chunksize nchunks s =
     (let dir = datapath s @ ''/'' @ filename in
      case mkdir (cl_files s) dir of
        None \<Rightarrow> Some (None, print_line (''Error: couldn't create '' @ dir @
                  ''. Did you already register file of same name?'') s)
      | Some fs \<Rightarrow> do {
          fs' \<leftarrow> split_loop dir chunksize (nat nchunks) 0 content fs;
          mk_request 8 (encodeRegisterFileRequestToBytes pb
            \<lparr>rfr_filename = filename, rfr_chunks = word_of_int nchunks\<rparr>) (s\<lparr>cl_files := fs'\<rparr>) })"

definition cmd_regfile_client :: "pb_lib \<Rightarrow> client \<Rightarrow> bytes \<Rightarrow> command_result" where
  "cmd_regfile_client pb s req = do {
     (ok, buf, s1) \<leftarrow> confirm reg_question (''I didn't get that...'' @ [CHR 0x0A]) None s;
     if \<not> ok then Some (None, s1)
     else do {
       (filepath, content, s2) \<leftarrow> ask_path None s1;
       let filename = base_name filepath;
       let bytes = int (length content);
       let s3 = print_line (filename @ '' is a valid file with '' @ dec_int bytes @ '' bytes!'') s2;
       let (buf2, s4) = next_line buf (print_line
             ''How large do you want a chunk to be (in bytes) [default 1024]: '' s3);
       inbuffer \<leftarrow> buf2;
       let chunksize = chunk_size (cstr inbuffer);
       let nchunks = chunk_count bytes chunksize;
       (sure, _, s5) \<leftarrow> confirm (reg_summary filename filepath bytes chunksize nchunks)
                          ''I didn't get that...'' buf2 s4;
       if \<not> sure then Some (None, s5)
       else register_chunks pb filename content chunksize nchunks s5 } }"

section \<open>The table\<close>

definition enabled_commands_client :: "(bytes \<times> (pb_lib \<Rightarrow> client \<Rightarrow> bytes \<Rightarrow> command_result)) list" where
  "enabled_commands_client =
     [(''login'', cmd_login_client),
      (''message '', cmd_message_client),
      (''broadcast '', cmd_broadcast_client),
      (''block '', cmd_block_client),
      (''unblock '', cmd_unblock_client),
      (''logout'', cmd_logout_client),
      (''whoelsesince '', cmd_whoelsesince_client),
      (''whoelse'', cmd_whoelse_client),
      (''startprivate '', cmd_startprivate_client),
      (''private '', cmd_private_client),
      (''stopprivate '', cmd_stopprivate_client),
      (''register'', cmd_regfile_client),
      (''searchFile '', cmd_searchfile_client),
      (''searchChunk '', cmd_searchchunk_client)]"

definition has_prefix :: "bytes \<Rightarrow> bytes \<Rightarrow> bool" where
  "has_prefix p b \<longleftrightarrow> length p \<le> length b \<and> take (length p) b = p"

definition parse_command_client :: "pb_lib \<Rightarrow> client \<Rightarrow> cref \<Rightarrow> bytes \<Rightarrow> client option" where
  "parse_command_client pb s c command =
     (if command = [] then Some s
      else (case List.find (\<lambda>cmd. has_prefix (fst cmd) command) enabled_commands_client of
         None \<Rightarrow> Some s
       | Some cmd \<Rightarrow> do {
           (rsp, s1) \<leftarrow> snd cmd pb s command;
           (case rsp of
              None \<Rightarrow> Some s1
            | Some r \<Rightarrow> do {
                cl \<leftarrow> client_store s1 c;
                if c_locked cl then None
                else do {
                  ob \<leftarrow> send_request pb (c_outbuffer cl) r;
                  Some (put_client c (cl\<lparr>c_outbuffer := ob\<rparr>) s1) } }) }))"

end
