(* ===== verification/Client_Net.thy ===== *)
theory Client_Net
  imports Client
begin

text \<open>
  \<open>client.c\<close>: serving and storing file chunks, the responses of the server and of other clients, the
  input thread, the events of the network thread, and the start of the program.  Connection 0 of the
  table is the one to the server.
\<close>

section \<open>The connection to the server\<close>

definition server_conn :: "client \<Rightarrow> cref option" where
  "server_conn s = (case clients s of [] \<Rightarrow> None | c # _ \<Rightarrow> Some c)"

definition epoll_do_send_buffer :: "client \<Rightarrow> client option" where
  "epoll_do_send_buffer s = do {
     c \<leftarrow> server_conn s;
     cl \<leftarrow> client_store s c;
     Some (s\<lparr>epoll := epoll_mod (c_fd cl) (True, True) (epoll s)\<rparr>) }"

section \<open>Chunks\<close>

definition chunk_path :: "bytes \<Rightarrow> bytes \<Rightarrow> u32 \<Rightarrow> bytes" where
  "chunk_path dp filename chunk = dp @ ''/'' @ cstr filename @ ''/'' @ dec (unat chunk)"

text \<open>A chunk that cannot be read (\<open>stat\<close> or \<open>fopen\<close> fails) is refused with a text.\<close>

definition getChunkDataResponse :: "pb_lib \<Rightarrow> client \<Rightarrow> ChunkDataRequest \<Rightarrow> IMResponse" where
  "getChunkDataResponse pb s req =
     (case read_file (cl_files s) (chunk_path (datapath s) (cdq_filename req) (cdq_chunk req)) of
        None \<Rightarrow> encodeTextToIMResponse pb
          (fmt_s (loggedInUserName s) @ '' (private): chunk '' @ dec (unat (cdq_chunk req)) @ '' for file '' @
           cstr (cdq_filename req) @ '' does not exist on my end'') False
      | Some data \<Rightarrow>
          \<lparr>rsp_type = 6, rsp_success = True, rsp_value = encodeChunkDataResponseToBytes pb
             \<lparr>cdr_filename = cstr (cdq_filename req), cdr_chunk = cdq_chunk req, cdr_data = data\<rparr>\<rparr>)"

text \<open>\<open>writeFile\<close>: the result of \<open>mkdir\<close> is not looked at.  A stored chunk is registered with the
  server.\<close>

definition chunk_registration :: "pb_lib \<Rightarrow> ChunkDataResponse \<Rightarrow> IMRequest" where
  "chunk_registration pb cdr = \<lparr>imq_type = 9, imq_value = encodeRegisterChunkRequestToBytes pb
     \<lparr>rcr_filename = cstr (cdr_filename cdr), rcr_chunks = le_bytes 4 (unat (cdr_chunk cdr))\<rparr>\<rparr>"

definition writeFile :: "pb_lib \<Rightarrow> client \<Rightarrow> ChunkDataResponse \<Rightarrow> client option" where
  "writeFile pb s cdr =
     (let dir = datapath s @ ''/'' @ cstr (cdr_filename cdr);
          fs = (case mkdir (cl_files s) dir of None \<Rightarrow> cl_files s | Some fs \<Rightarrow> fs);
          filepath = chunk_path (datapath s) (cdr_filename cdr) (cdr_chunk cdr)
      in case write_file fs filepath (cdr_data cdr) of
           None \<Rightarrow> Some (s\<lparr>cl_files := fs\<rparr>)
         | Some fs' \<Rightarrow> do {
             let s1 = print_line (''Stored file at '' @ filepath) (s\<lparr>cl_files := fs'\<rparr>);
             c \<leftarrow> server_conn s1;
             cl \<leftarrow> client_store s1 c;
             if c_locked cl then None
             else do {
               ob \<leftarrow> send_request pb (c_outbuffer cl) (chunk_registration pb cdr);
               epoll_do_send_buffer (put_client c (cl\<lparr>c_outbuffer := ob\<rparr>) s1) } })"

section \<open>Private sessions\<close>

text \<open>The first 16 bytes of an address; fewer are read past their end.\<close>

definition sockaddr_of :: "bytes \<Rightarrow> sockaddr_in option" where
  "sockaddr_of b = (if length b < 16 then None
     else Some \<lparr>sin_family = word_of_nat (of_le (take 2 b)), sin_port = word_of_nat (of_le (take 2 (drop 2 b))),
                sin_addr = word_of_nat (of_le (take 4 (drop 4 b)))\<rparr>)"

text \<open>The two links of a private session, and the hook that reports its end.\<close>

definition link_private :: "uref \<Rightarrow> cref \<Rightarrow> client \<Rightarrow> client option" where
  "link_private u c s = do {
     us \<leftarrow> users s u;
     cl \<leftarrow> client_store s c;
     Some (put_client c (cl\<lparr>c_user := Some u, c_close_prehook := Some Pm_Close_Connection\<rparr>)
             (put_user u (us\<lparr>u_client := Some c\<rparr>) s)) }"

definition registration_response :: "pb_lib \<Rightarrow> client \<Rightarrow> IMResponse" where
  "registration_response pb s =
     \<lparr>rsp_type = 4, rsp_success = True, rsp_value = encodePrivateRegistrationResponseToBytes pb
        \<lparr>prr_username = fmt_s (loggedInUserName s)\<rparr>\<rparr>"

text \<open>A \<open>GetIPResponse\<close>: connect to the address and introduce ourselves.  \<open>connects\<close> holds what
  \<open>socket\<close> and \<open>connect\<close> give: a descriptor, or a failure.\<close>

definition start_private :: "pb_lib \<Rightarrow> client \<Rightarrow> GetIPResponse \<Rightarrow> client option" where
  "start_private pb s gr = do {
     addr \<leftarrow> sockaddr_of (gip_addr gr);
     let s0 = s\<lparr>connects := tl (connects s)\<rparr>;
     (case (case connects s of [] \<Rightarrow> None | r # _ \<Rightarrow> r) of
        None \<Rightarrow> Some s0
      | Some sock \<Rightarrow> do {
          (c, s1) \<leftarrow> add_client s0 sock addr;
          let s2 = print_line (''Start private messaging with '' @ cstr (gip_username gr)) s1;
          let (nu, s3) = findOrAddUser s2 (gip_username gr);
          s4 \<leftarrow> link_private nu c s3;
          send_response_to_client pb s4 c (registration_response pb s4) }) }"

definition private_started :: "client \<Rightarrow> cref \<Rightarrow> PrivateRegistrationResponse \<Rightarrow> client option" where
  "private_started s c prr =
     (let (u, s1) = findOrAddUser s (prr_username prr);
          s2 = print_line (cstr (prr_username prr) @ '' has started a private messaging session with you'') s1
      in link_private u c s2)"

section \<open>Responses\<close>

text \<open>One case of the switch over the type.  \<open>exit(0)\<close> sets \<open>exited\<close>.\<close>

definition response_case :: "pb_lib \<Rightarrow> client \<Rightarrow> cref \<Rightarrow> IMResponse \<Rightarrow> client option" where
  "response_case pb s c r =
     (if rsp_type r = 1 then do {
        (tr, _) \<leftarrow> parseTextResponseFromBytes pb (rsp_value r);
        Some (print_line (cstr (txt_msg tr)) s) }
      else if rsp_type r = 2 then do {
        (er, _) \<leftarrow> parseExitResponseFromBytes pb (rsp_value r);
        Some ((print_line (cstr (ext_msg er)) s)\<lparr>exited := True\<rparr>) }
      else if rsp_type r = 3 then do {
        (gr, _) \<leftarrow> parseGetIPResponseFromBytes pb (rsp_value r);
        start_private pb s gr }
      else if rsp_type r = 4 then do {
        (prr, _) \<leftarrow> parsePrivateRegistrationResponseFromBytes pb (rsp_value r);
        private_started s c prr }
      else if rsp_type r = 5 then do {
        (req, _) \<leftarrow> parseChunkDataRequestFromBytes pb (rsp_value r);
        send_response_to_client pb s c (getChunkDataResponse pb s req) }
      else if rsp_type r = 6 then do {
        (cdata, _) \<leftarrow> parseChunkDataResponseFromBytes pb (rsp_value r);
        writeFile pb s cdata }
      else Some s)"

text \<open>After \<open>exit(0)\<close> nothing more is done: consuming no bytes ends the loop around it.\<close>

definition parse_response :: "pb_lib \<Rightarrow> client \<Rightarrow> cref \<Rightarrow> bytes \<Rightarrow> (client \<times> nat \<times> IMResponse option) option" where
  "parse_response pb s c cmd =
     (case ac_decode_protobuf_msg_with_n_fields pb cmd 3 of
        None \<Rightarrow> Some (s, 0, None)
      | Some (msg, ret) \<Rightarrow> do {
          imrsp \<leftarrow> parseIMResponseFromProtobufMsg pb msg;
          s' \<leftarrow> response_case pb (s\<lparr>lastresponse := rsp_success imrsp\<rparr>) c imrsp;
          Some (s', if exited s' then 0 else ret, None) })"

section \<open>The input thread\<close>

definition got_command :: "pb_lib \<Rightarrow> client \<Rightarrow> bytes \<Rightarrow> client option" where
  "got_command pb s buf = do {
     c \<leftarrow> server_conn s;
     s1 \<leftarrow> parse_command_client pb s c buf;
     epoll_do_send_buffer s1 }"

text \<open>One round of the login loop, run when the \<open>loginlock\<close> can be taken: \<open>True\<close> leaves the loop.\<close>

definition login_round :: "pb_lib \<Rightarrow> client \<Rightarrow> (bool \<times> client) option" where
  "login_round pb s =
     (let s1 = s\<lparr>loginlock := True\<rparr> in
      if lastresponse s1 then Some (True, s1)
      else do { s2 \<leftarrow> got_command pb s1 ''login''; Some (False, s2) })"

definition MAX_COMMAND :: nat where
  "MAX_COMMAND = 32768"

text \<open>One round of the command loop; at the end of the input it only goes round.\<close>

definition input_round :: "pb_lib \<Rightarrow> client \<Rightarrow> client option" where
  "input_round pb s =
     (case fgets MAX_COMMAND (cl_stdin s) of
        None \<Rightarrow> Some s
      | Some (buf, rest) \<Rightarrow> do {
          command \<leftarrow> chop buf;
          got_command pb (s\<lparr>cl_stdin := rest\<rparr>) command })"

section \<open>The network thread\<close>

text \<open>The body of the loop over the events, as on the server, with the client's handler, without the
  user's buffer, and with the \<open>loginlock\<close> released after every input.\<close>

definition handle_event_client :: "pb_lib \<Rightarrow> client \<Rightarrow> net_event \<Rightarrow> (bool \<times> (int \<times> bytes) list \<times> client) option" where
  "handle_event_client pb s ev =
     (if ev_err ev then do {
        j \<leftarrow> lookup_client s (ev_fd ev);
        (case j of None \<Rightarrow> Some (False, [], s)
         | Some i \<Rightarrow> do { s' \<leftarrow> close_socket pb s (Some (clients s ! i)); Some (True, [], s') }) }
      else if ev_fd ev = listen_fd s then
        (case ev_accept ev of None \<Rightarrow> Some (True, [], s)
         | Some (fd, addr) \<Rightarrow> do { (c, s') \<leftarrow> add_client s fd addr; Some (True, [], s') })
      else if ev_in ev then do {
        j \<leftarrow> lookup_client s (ev_fd ev);
        (case j of None \<Rightarrow> Some (False, [], s)
         | Some i \<Rightarrow> do {
             s' \<leftarrow> im_receive_command pb (parse_response pb) s (clients s ! i) (ev_recv ev);
             Some (False, [], s'\<lparr>loginlock := False\<rparr>) }) }
      else if ev_out ev then do {
        j \<leftarrow> lookup_client s (ev_fd ev);
        (case j of None \<Rightarrow> Some (False, [], s)
         | Some i \<Rightarrow> do {
             cl \<leftarrow> client_store s (clients s ! i);
             if c_locked cl then None
             else (let t = im_send_buffer (c_fd cl) (c_outbuffer cl) (ev_sent ev) (epoll s)
                   in Some (False, [(ev_fd ev, fst t)],
                        (put_client (clients s ! i) (cl\<lparr>c_outbuffer := fst (snd t)\<rparr>) s)
                          \<lparr>epoll := snd (snd t)\<rparr>)) }) }
      else Some (True, [], s))"

section \<open>Start-up\<close>

text \<open>\<open>main\<close> after the sockets are there: \<open>sock\<close> is connected to the server at \<open>addr\<close>, \<open>mfd\<close> listens on
  \<open>port\<close>, and \<open>dir\<close> is the name of the data directory; not being able to create it is fatal.\<close>

definition client_start :: "int \<Rightarrow> sockaddr_in \<Rightarrow> int \<Rightarrow> u32 \<Rightarrow> bytes \<Rightarrow> files \<Rightarrow> bytes \<Rightarrow> int option list \<Rightarrow> int \<Rightarrow> client option" where
  "client_start sock addr mfd port dir fs inp conns t =
     (let s0 = \<lparr>is_server = False, users = Map.empty, next_user = 0, client_store = Map.empty, next_client = 0,
           udb = newUserDb 0 0, clients = [], epoll = [mfd \<mapsto> (True, False)], open_fds = {mfd, sock}, now = t,
           stdout = [], fatal = False, lastresponse = False, loginlock = False, loggedInUserName = None,
           listen_port = port, datapath = dir, listen_fd = mfd, cl_files = fs, cl_stdin = inp,
           connects = conns, exited = False\<rparr>;
          (c, s1) = im_connection_accept s0 sock addr
      in do {
        cl \<leftarrow> client_store s1 c;
        let s2 = (put_client c (cl\<lparr>c_close_callback := Some Server_Close_Connection\<rparr>) s1)\<lparr>clients := [c]\<rparr>;
        (case mkdir fs dir of
           None \<Rightarrow> Some (s2\<lparr>fatal := True\<rparr>)
         | Some fs' \<Rightarrow> Some (print_line (''Using storage path for p2p files: '' @ dir) (s2\<lparr>cl_files := fs'\<rparr>))) })"

end
