(* ===== verification/Client_Demo.thy ===== *)
theory Client_Demo
  imports Client_Net Demo
begin

text \<open>
  Concrete clients: one connected to the server by descriptor 4, with a data directory, and one that
  has a private session with \<open>bob\<close> on descriptor 8 as well.  The witnesses of the client's properties
  run on them.
\<close>

definition demo_cl :: "bytes \<Rightarrow> files \<Rightarrow> int option list \<Rightarrow> client" where
  "demo_cl name fs conns = \<lparr>is_server = False, users = Map.empty, next_user = 0,
     client_store = [0 \<mapsto> demo_client 4 None, 1 \<mapsto> demo_client 8 None], next_client = 2, udb = newUserDb 0 0,
     clients = [0, 1], epoll = [3 \<mapsto> (True, False), 4 \<mapsto> (True, False), 8 \<mapsto> (True, False)],
     open_fds = {3, 4, 8}, now = 100, stdout = [], fatal = False,
     lastresponse = True, loginlock = False, loggedInUserName = Some name, listen_port = 9000,
     datapath = ''data'', listen_fd = 3, cl_files = fs, cl_stdin = [], connects = conns, exited = False\<rparr>"

text \<open>The data directory, empty, and with chunk 0 of the file \<open>song\<close>.\<close>

definition demo_dir :: files where
  "demo_dir = [[] \<mapsto> Dir, [''data''] \<mapsto> Dir]"

definition demo_song :: files where
  "demo_song = demo_dir([''data'', ''song''] \<mapsto> Dir, [''data'', ''song'', dec 0] \<mapsto> Reg ''la la'')"

lemma demo_cl_fields [simp]:
  "users (demo_cl n fs cs) = Map.empty" "next_user (demo_cl n fs cs) = 0" "clients (demo_cl n fs cs) = [0, 1]"
  "client_store (demo_cl n fs cs) = [0 \<mapsto> demo_client 4 None, 1 \<mapsto> demo_client 8 None]"
  "udb (demo_cl n fs cs) = newUserDb 0 0" "stdout (demo_cl n fs cs) = []" "\<not> exited (demo_cl n fs cs)"
  "loggedInUserName (demo_cl n fs cs) = Some n" "datapath (demo_cl n fs cs) = ''data''"
  "cl_files (demo_cl n fs cs) = fs" "connects (demo_cl n fs cs) = cs" "server_conn (demo_cl n fs cs) = Some 0"
  by (simp_all add: demo_cl_def server_conn_def)

lemma demo_cl_db: "db_ok (demo_cl n fs cs)"
  by (simp add: db_ok_def newUserDb_def)

lemma demo_cl_inv: "heap_inv {} (demo_cl n fs cs)"
proof -
  have "client_ok {} (demo_cl n fs cs) c k" if "client_store (demo_cl n fs cs) c = Some k" for c k
    using that by (auto simp: client_ok_def init_buffer_ok OUT_BUFFER_DEFAULT_SIZE_def MSG_LIMIT_def split: if_splits)
  then show ?thesis using demo_cl_db by (simp add: heap_inv_def)
qed

lemma demo_dir_fields [simp]:
  "demo_dir [] = Some Dir" "demo_dir [''data''] = Some Dir" "demo_dir (a # b # p) = None"
  "demo_song [] = Some Dir" "demo_song [''data''] = Some Dir" "demo_song [''data'', ''song''] = Some Dir"
  "demo_song [''data'', ''song'', dec 0] = Some (Reg ''la la'')"
  by (simp_all add: demo_song_def demo_dir_def)

lemma demo_plain [simp]: "plain ''data''" "plain ''song''"
  by (simp_all add: plain_def)

text \<open>The client of \<open>ann\<close>, in a private session with \<open>bob\<close>.\<close>

definition demo_session :: client where
  "demo_session = (demo_cl ''ann'' demo_dir [])\<lparr>users := [0 \<mapsto> (new_user ''bob'' [])\<lparr>u_client := Some 1\<rparr>], next_user := 1,
     udb := (newUserDb 0 0)\<lparr>db_first := [0], db_root := trie_put newTrieUserNode ''bob'' 0\<rparr>,
     client_store := [0 \<mapsto> demo_client 4 None,
       1 \<mapsto> (demo_client 8 (Some 0))\<lparr>c_close_prehook := Some Pm_Close_Connection\<rparr>]\<rparr>"

lemma demo_session_find: "findUser demo_session ''bob'' = Some 0"
  by (simp add: findUser_def demo_session_def trie_find_put del: trie_put.simps trie_find.simps)

lemmas encodings =
  encodeTextResponseToBytes_def encodeTextResponseToProtobufMsg_def
  encodeGetIPResponseToBytes_def encodeGetIPResponseToProtobufMsg_def
  encodePrivateRegistrationResponseToBytes_def encodePrivateRegistrationResponseToProtobufMsg_def
  encodeChunkDataRequestToBytes_def encodeChunkDataRequestToProtobufMsg_def
  encodeChunkDataResponseToBytes_def encodeChunkDataResponseToProtobufMsg_def

end
