(* ===== verification/Client_Facts.thy ===== *)
theory Client_Facts
  imports Client_Demo Dispatch
begin

text \<open>
  What the client's commands and responses do: a typed line sends exactly the request it describes, a
  registered file is split so that its chunks put together are the file, a downloaded chunk is stored
  as the other side has it, and the two sides of a private session are linked.
\<close>

section \<open>Typed commands\<close>

text \<open>The line a user types for a request, and the requests there is a line for.  A login and the
  registration of a file are dialogues, and chunks are registered when they have been stored.\<close>

fun line_of :: "request \<Rightarrow> bytes" where
  "line_of (Message q) = (if mr_broadcast q then ''broadcast '' @ mr_msg q
     else ''message '' @ mr_username q @ '' '' @ mr_msg q)"
| "line_of (WhoElse q) = (if wr_limitTime q then ''whoelsesince '' @ dec (unat (wr_pastSeconds q)) else ''whoelse'')"
| "line_of (Block q) = ''block '' @ br_username q"
| "line_of (UnBlock q) = ''unblock '' @ ubr_username q"
| "line_of LogOut = ''logout''"
| "line_of (GetIP q) = ''startprivate '' @ giq_username q"
| "line_of (SearchFile q) =
     (if sfr_chunks q = [] then ''searchFile '' @ sfr_filename q
      else ''searchChunk '' @ sfr_filename q @ print_chunks (parse_packed_uint32 (sfr_chunks q)))"
| "line_of _ = []"

fun typable :: "request \<Rightarrow> bool" where
  "typable (Message q) \<longleftrightarrow> (if mr_broadcast q then mr_username q = [] else CHR '' '' \<notin> set (mr_username q))"
| "typable (WhoElse q) \<longleftrightarrow> (if wr_limitTime q then \<not> wr_currentlyOnline q
     else wr_pastSeconds q = 0 \<and> wr_currentlyOnline q)"
| "typable (SearchFile q) \<longleftrightarrow> sfr_chunks q = [] \<or> CHR '' '' \<notin> set (sfr_filename q)
     \<and> (\<exists>ks :: u32 list. ks \<noteq> [] \<and> sfr_chunks q = concat (map (\<lambda>k. le_bytes 4 (unat k)) ks))"
| "typable (Login q) \<longleftrightarrow> False"
| "typable (RegisterFile q) \<longleftrightarrow> False"
| "typable (RegisterChunk q) \<longleftrightarrow> False"
| "typable _ \<longleftrightarrow> True"

text \<open>\<open>whoelsesince\<close> echoes its number.\<close>

definition echo :: "request \<Rightarrow> client \<Rightarrow> client" where
  "echo r s = (case r of WhoElse q \<Rightarrow> if wr_limitTime q then print_line (dec_int (sint (wr_pastSeconds q))) s else s
     | _ \<Rightarrow> s)"

lemma split_word_word: "CHR '' '' \<notin> set w \<Longrightarrow> split_word (w @ CHR '' '' # r) = Some (w, r)"
  by (induction w) auto

lemma split_word_none: "CHR '' '' \<notin> set w \<Longrightarrow> split_word w = None"
  by (induction w) auto

lemma print_chunks_tl: "ks \<noteq> [] \<Longrightarrow> print_chunks ks = CHR '' '' # tl (print_chunks ks)"
  by (cases ks) (simp_all add: print_chunks_Cons)

lemma typed_search:
  assumes "CHR '' '' \<notin> set f" and "ks \<noteq> []"
  shows "cmd_searchchunk_client pb s (''searchChunk '' @ f @ print_chunks ks) =
    mk_request 10 (encodeSearchFileRequestToBytes pb
      \<lparr>sfr_filename = f, sfr_chunks = concat (map (\<lambda>k. le_bytes 4 (unat k)) ks)\<rparr>) s"
proof -
  have "split_word (f @ print_chunks ks) = Some (f, tl (print_chunks ks))"
    using split_word_word [OF assms(1)] print_chunks_tl [OF assms(2)] by metis
  with assms(2) pack_print [OF assms(2), of "tl (print_chunks ks)"] show ?thesis
    by (simp add: cmd_searchchunk_client_def)
qed

lemma typed_since: "word_of_int (fst (strtol10 (dec (unat (w :: u32))))) = w"
  using strtol10_dec [of "[]" "unat w" "dec (unat w)"] unat_u32_less [of w] by simp

lemma typed_run:
  assumes "typable r"
  shows "\<exists>cmd. List.find (\<lambda>cmd. has_prefix (fst cmd) (line_of r)) enabled_commands_client = Some cmd
    \<and> snd cmd pb s (line_of r) = mk_request (request_type r) (request_value pb r) (echo r s)"
proof (cases r)
  case (Message q)
  obtain b u m where q: "q = \<lparr>mr_broadcast = b, mr_username = u, mr_msg = m\<rparr>" by (cases q)
  with Message assms split_word_word [of u m] show ?thesis
    by (auto simp: enabled_commands_client_def has_prefix_def cmd_message_client_def cmd_broadcast_client_def echo_def)
next
  case (WhoElse q)
  obtain b p o' where q: "q = \<lparr>wr_limitTime = b, wr_pastSeconds = p, wr_currentlyOnline = o'\<rparr>" by (cases q)
  with WhoElse assms typed_since [of p] show ?thesis
    by (auto simp: enabled_commands_client_def has_prefix_def cmd_whoelse_client_def cmd_whoelsesince_client_def
        echo_def Let_def)
next
  case (Block q)
  then show ?thesis by (cases q) (simp add: enabled_commands_client_def has_prefix_def cmd_block_client_def echo_def)
next
  case (UnBlock q)
  then show ?thesis by (cases q) (simp add: enabled_commands_client_def has_prefix_def cmd_unblock_client_def echo_def)
next
  case LogOut
  then show ?thesis by (simp add: enabled_commands_client_def has_prefix_def cmd_logout_client_def echo_def)
next
  case (GetIP q)
  then show ?thesis by (cases q) (simp add: enabled_commands_client_def has_prefix_def cmd_startprivate_client_def echo_def)
next
  case (SearchFile q)
  obtain f ch where q: "q = \<lparr>sfr_filename = f, sfr_chunks = ch\<rparr>" by (cases q)
  show ?thesis
  proof (cases "ch = []")
    case True
    with SearchFile q show ?thesis
      by (simp add: enabled_commands_client_def has_prefix_def cmd_searchfile_client_def echo_def)
  next
    case False
    with SearchFile q assms have
      "CHR '' '' \<notin> set f \<and> (\<exists>ks :: u32 list. ks \<noteq> [] \<and> ch = concat (map (\<lambda>k. le_bytes 4 (unat k)) ks))" by simp
    then obtain ks :: "u32 list" where ks: "CHR '' '' \<notin> set f" "ks \<noteq> []"
      "ch = concat (map (\<lambda>k. le_bytes 4 (unat k)) ks)" by blast
    have "parse_packed_uint32 ch = ks" by (simp add: ks(3) parse_packed_pack)
    with SearchFile q False typed_search [OF ks(1,2), of pb s, folded ks(3)] show ?thesis
      by (simp add: enabled_commands_client_def has_prefix_def echo_def)
  qed
qed (use assms in simp_all)

lemma typed_line_sends:
  assumes "typable r" and "client_store s c = Some cl" and "\<not> c_locked cl" and "buf_ok (c_outbuffer cl)"
  shows "returns (parse_command_client pb s c (line_of r)) (\<lambda>t. \<exists>ob. buf_ok ob
    \<and> pending ob = pending (c_outbuffer cl) @ request_bytes pb r
    \<and> t = put_client c (cl\<lparr>c_outbuffer := ob\<rparr>) (echo r s))"
proof -
  obtain cmd where cmd: "List.find (\<lambda>cmd. has_prefix (fst cmd) (line_of r)) enabled_commands_client = Some cmd"
    "snd cmd pb s (line_of r) = mk_request (request_type r) (request_value pb r) (echo r s)"
    using typed_run [OF assms(1)] by blast
  have ne: "line_of r \<noteq> []" using assms(1) by (cases r) auto
  have c: "client_store (echo r s) c = Some cl"
    using assms(2) by (simp add: echo_def print_line_fields split: request.splits)
  from append_ok [OF assms(4), of "request_bytes pb r"] show ?thesis
    using assms(3) c ne
    by (auto simp: parse_command_client_def cmd mk_request_def send_request_def request_bytes_def elim!: returns_mono)
qed

lemma typed_line_to_server:
  assumes "typable r" and "client_store s c = Some cl" and "\<not> c_locked cl" and "buf_ok (c_outbuffer cl)"
  shows "returns (parse_command_client pb s c (line_of r)) (\<lambda>t. cout t c = cout s c @ request_bytes pb r)"
  using typed_line_sends [OF assms, of pb] assms(2) by (auto simp: cout_def heap_simps elim!: returns_mono)

text \<open>C30. A line typed for a request puts exactly the bytes of that request behind what waits for the
  server, and changes nothing else (but for the number \<open>whoelsesince\<close> prints).\<close>

theorem typed_line_sends_request:
  assumes "typable r" and "client_store s c = Some cl" and "\<not> c_locked cl" and "buf_ok (c_outbuffer cl)"
  shows "returns (parse_command_client pb s c (line_of r)) (\<lambda>t. \<exists>ob. buf_ok ob
    \<and> pending ob = pending (c_outbuffer cl) @ request_bytes pb r
    \<and> t = put_client c (cl\<lparr>c_outbuffer := ob\<rparr>) (echo r s))"
  using assms by (rule typed_line_sends)

lemma typed_line_sends_request_witness:
  "returns (parse_command_client wire_pb (demo_cl ''ann'' demo_dir []) 0 ''message bob hi'') (\<lambda>t.
    cout t 0 = request_bytes wire_pb (Message \<lparr>mr_broadcast = False, mr_username = ''bob'', mr_msg = ''hi''\<rparr>)
    \<and> stdout t = [])"
  using typed_line_sends_request [where r = "Message \<lparr>mr_broadcast = False, mr_username = ''bob'', mr_msg = ''hi''\<rparr>"
      and s = "demo_cl ''ann'' demo_dir []" and c = 0 and cl = "demo_client 4 None" and pb = wire_pb]
  by (auto simp: echo_def init_buffer_ok OUT_BUFFER_DEFAULT_SIZE_def cout_def put_client_def elim!: returns_mono)

section \<open>The data directory\<close>

text \<open>Directory \<open>n\<close> of the data directory \<open>d\<close> is there.\<close>

definition has_dir :: "files \<Rightarrow> bytes \<Rightarrow> bytes \<Rightarrow> bool" where
  "has_dir fs d n \<longleftrightarrow> plain d \<and> plain n \<and> fs [] = Some Dir \<and> fs [d] = Some Dir \<and> fs [d, n] = Some Dir"

lemma less_3_cases: "k < Suc (Suc (Suc 0)) \<longleftrightarrow> k = 0 \<or> k = 1 \<or> k = 2"
  by auto

lemma resolve_entry:
  assumes "has_dir fs d n" and "plain k"
  shows "resolve fs (d @ ''/'' @ n @ ''/'' @ k) = Some [d, n, k]"
  using resolve_slashed [of "[d, n, k]" fs] assms by (auto simp: has_dir_def less_3_cases)

lemma resolve_dir:
  assumes "plain d" and "plain n" and "fs [] = Some Dir" and "fs [d] = Some Dir"
  shows "resolve fs (d @ ''/'' @ n) = Some [d, n]"
  using resolve_slashed [of "[d, n]" fs] assms by (auto simp: less_Suc_eq)

lemma write_entry:
  assumes "has_dir fs d n" and "plain k" and "fs [d, n, k] \<noteq> Some Dir"
  shows "write_file fs (d @ ''/'' @ n @ ''/'' @ k) data = Some (put_reg [d, n, k] data fs)"
  using resolve_entry [OF assms(1,2)] assms(3) by (simp add: write_file_def put_reg_def)

lemma read_entry:
  assumes "has_dir fs d n" and "plain k" and "get_reg fs [d, n, k] = Some data"
  shows "read_file fs (d @ ''/'' @ n @ ''/'' @ k) = Some data"
  using resolve_entry [OF assms(1,2)] assms(3)
  by (auto simp: read_file_def stat_def get_reg_def split: option.splits fnode.splits)

lemma trailing_slash:
  assumes "plain d" and "plain n"
  shows "rev (dropWhile (\<lambda>c. c = CHR ''/'') (rev (cstr (d @ ''/'' @ n)))) = d @ ''/'' @ n"
proof -
  have "NUL \<notin> set (d @ ''/'' @ n)" "CHR ''/'' \<notin> set n" "n \<noteq> []" using assms by (auto simp: plain_def)
  then show ?thesis by (cases n rule: rev_cases) (auto simp: cstr_id)
qed

lemma mkdir_fresh:
  assumes "plain d" and "plain n" and "fs [] = Some Dir" and "fs [d] = Some Dir" and "fs [d, n] = None"
  shows "mkdir fs (d @ ''/'' @ n) = Some (fs([d, n] \<mapsto> Dir))" "has_dir (fs([d, n] \<mapsto> Dir)) d n"
proof -
  show "mkdir fs (d @ ''/'' @ n) = Some (fs([d, n] \<mapsto> Dir))"
    using resolve_dir [OF assms(1-4)] assms(5) trailing_slash [OF assms(1,2)] by (simp only: mkdir_def) simp
  show "has_dir (fs([d, n] \<mapsto> Dir)) d n" using assms by (simp add: has_dir_def)
qed

lemma mkdir_existing:
  assumes "plain d" and "plain n" and "fs [] = Some Dir" and "fs [d] = Some Dir" and "fs [d, n] = Some Dir"
  shows "mkdir fs (d @ ''/'' @ n) = None"
  using resolve_dir [OF assms(1-4)] assms(5) trailing_slash [OF assms(1,2)] by (simp only: mkdir_def) simp

section \<open>Splitting a file\<close>

definition piece :: "nat \<Rightarrow> bytes \<Rightarrow> nat \<Rightarrow> bytes" where
  "piece cs content j = take cs (drop (j * cs) content)"

definition pieces :: "bytes \<Rightarrow> bytes \<Rightarrow> nat \<Rightarrow> nat \<Rightarrow> nat \<Rightarrow> bytes \<Rightarrow> (path \<times> bytes) list" where
  "pieces d n cs k i content = map (\<lambda>j. ([d, n, dec (i + j)], piece cs content j)) [0..<k]"

lemma pieces_Suc:
  "pieces d n cs (Suc k) i content = ([d, n, dec i], take cs content) # pieces d n cs k (Suc i) (drop cs content)"
proof -
  have "[0..<Suc k] = 0 # map Suc [0..<k]" by (simp add: map_Suc_upt upt_conv_Cons del: upt_Suc)
  then show ?thesis by (simp add: pieces_def piece_def comp_def add.commute del: upt_Suc)
qed

lemma split_loop_pieces:
  assumes "has_dir fs d n" and "\<forall>j. fs [d, n, dec j] \<noteq> Some Dir" and "0 \<le> cs"
  shows "split_loop (d @ ''/'' @ n) cs k i content fs =
    Some (fold (\<lambda>(p, b). put_reg p b) (pieces d n (nat cs) k i content) fs)"
  using assms(1,2)
proof (induction k arbitrary: i content fs)
  case 0
  then show ?case by (simp add: pieces_def)
next
  case (Suc k)
  let ?fs = "put_reg [d, n, dec i] (take (nat cs) content) fs"
  have "has_dir ?fs d n" "\<forall>j. ?fs [d, n, dec j] \<noteq> Some Dir"
    using Suc.prems by (simp_all add: has_dir_def put_reg_def)
  from Suc.IH [OF this, of "Suc i" "drop (nat cs) content"] show ?case
    using write_entry [OF Suc.prems(1) plain_dec, of i "take (nat cs) content"] Suc.prems(2) assms(3)
    by (simp add: pieces_Suc)
qed

lemma concat_pieces: "concat (map (piece cs content) [0..<k]) = take (k * cs) content"
proof (induction k)
  case (Suc k)
  have "take (cs + k * cs) content = take (k * cs) content @ take cs (drop (k * cs) content)"
    by (metis add.commute take_add)
  with Suc show ?case by (simp add: piece_def)
qed simp

lemma fold_put_other: "p \<notin> fst ` set qs \<Longrightarrow> fold (\<lambda>(p, b). put_reg p b) qs fs p = fs p"
  by (induction qs arbitrary: fs) (auto simp: put_reg_def)

text \<open>The number of chunks is the quotient rounded up, for a chunk size the user may mean.\<close>

lemma chunk_count_up:
  assumes "0 < cs" and "0 \<le> len"
  shows "chunk_count len cs = (len + cs - 1) div cs" "len \<le> chunk_count len cs * cs" "0 \<le> chunk_count len cs"
    "chunk_count len cs * cs < len + cs"
proof -
  define q r where "q = len div cs" and "r = len mod cs"
  have len: "len = q * cs + r" "0 \<le> r" "r < cs" "0 \<le> q"
    using assms by (simp_all add: q_def r_def div_mult_mod_eq pos_imp_zdiv_nonneg_iff)
  have "div_long len cs = q" using assms by (auto simp: div_long_def sgn_if q_def)
  then have n: "chunk_count len cs = (if r = 0 then q else q + 1)"
    using len(1,2) by (simp add: chunk_count_def Let_def)
  show "len \<le> chunk_count len cs * cs" "0 \<le> chunk_count len cs" "chunk_count len cs * cs < len + cs"
    unfolding n using len by (auto simp: algebra_simps)
  then show "chunk_count len cs = (len + cs - 1) div cs"
  proof -
    have "(len + cs - 1 - chunk_count len cs * cs) div cs = 0"
      using \<open>len \<le> chunk_count len cs * cs\<close> \<open>chunk_count len cs * cs < len + cs\<close> by (intro div_pos_pos_trivial) auto
    moreover have "(len + cs - 1) div cs = (len + cs - 1 - chunk_count len cs * cs) div cs + chunk_count len cs"
      using assms(1) div_mult_self1 [of cs "len + cs - 1 - chunk_count len cs * cs" "chunk_count len cs"]
      by (simp add: algebra_simps)
    ultimately show ?thesis by simp
  qed
qed

text \<open>The chunks of a file are in files of a new directory of the file's name, put together in order they
  are the file again, and no other file is touched.\<close>

lemma chunks_registered:
  fixes s :: client
  defines "d \<equiv> datapath s"
  assumes "plain d" and "plain f" and "cl_files s [] = Some Dir" and "cl_files s [d] = Some Dir"
    and "cl_files s [d, f] = None" and "\<forall>j. cl_files s [d, f, dec j] = None" and "content \<noteq> []" and "0 < cs"
  shows "returns (register_chunks pb f content cs (chunk_count (int (length content)) cs) s) (\<lambda>(req, t). \<exists>n.
      int n = (int (length content) + cs - 1) div cs
    \<and> req = Some \<lparr>imq_type = 8, imq_value = encodeRegisterFileRequestToBytes pb
        \<lparr>rfr_filename = f, rfr_chunks = word_of_nat n\<rparr>\<rparr>
    \<and> (\<forall>i < n. \<exists>b. get_reg (cl_files t) [d, f, dec i] = Some b \<and> b \<noteq> [] \<and> int (length b) \<le> cs)
    \<and> concat (map (\<lambda>i. the (get_reg (cl_files t) [d, f, dec i])) [0..<n]) = content
    \<and> (\<forall>p. p \<noteq> [d, f] \<longrightarrow> (\<forall>i. p \<noteq> [d, f, dec i]) \<longrightarrow> cl_files t p = cl_files s p))"
proof -
  let ?len = "int (length content)" and ?fs = "(cl_files s)([d, f] \<mapsto> Dir)"
  define n where "n = nat (chunk_count ?len cs)"
  note up = chunk_count_up [OF assms(9), of ?len]
  have n: "int n = chunk_count ?len cs" using up(3) by (simp add: n_def)
  note dir = mkdir_fresh [OF assms(2-6)]
  have fresh: "\<forall>j. ?fs [d, f, dec j] \<noteq> Some Dir" using assms(7) by simp
  let ?ps = "pieces d f (nat cs) n 0 content" and ?all = "fold (\<lambda>(p, b). put_reg p b)"
  let ?t = "s\<lparr>cl_files := ?all ?ps ?fs\<rparr>"
  have run: "register_chunks pb f content cs (chunk_count ?len cs) s = Some (Some \<lparr>imq_type = 8,
      imq_value = encodeRegisterFileRequestToBytes pb \<lparr>rfr_filename = f, rfr_chunks = word_of_nat n\<rparr>\<rparr>, ?t)"
  proof -
    have sl: "split_loop (d @ ''/'' @ f) cs n 0 content ?fs = Some (?all ?ps ?fs)"
      using dir(2) fresh less_imp_le [OF assms(9)] by (rule split_loop_pieces)
    have "word_of_int (chunk_count ?len cs) = (word_of_nat n :: u32)" unfolding n [symmetric] by simp
    then show ?thesis
      unfolding register_chunks_def Let_def d_def [symmetric] dir(1) option.case n_def [symmetric] sl mk_request_def
      by simp
  qed
  have dist: "distinct (map fst ?ps)" by (simp add: pieces_def comp_def distinct_map inj_on_def)
  have got: "get_reg (?all ?ps ?fs) [d, f, dec i] = Some (piece (nat cs) content i)" if "i < n" for i
    by (rule disk.get_put_all [OF dist]) (use that in \<open>auto simp: pieces_def\<close>)
  have piece: "piece (nat cs) content i \<noteq> []" "int (length (piece (nat cs) content i)) \<le> cs" if "i < n" for i
  proof -
    have "int i * cs \<le> (int n - 1) * cs" using that assms(9) by (intro mult_right_mono) auto
    also have "\<dots> < ?len" using up(4) n by (simp add: algebra_simps)
    finally have "int i * cs < ?len" .
    moreover have "int (i * nat cs) = int i * cs" using assms(9) by simp
    ultimately have "i * nat cs < length content" by linarith
    then show "piece (nat cs) content i \<noteq> []" using assms(9) by (simp add: piece_def)
    show "int (length (piece (nat cs) content i)) \<le> cs" using assms(9) by (simp add: piece_def)
  qed
  have "int (length content) \<le> int (n * nat cs)" using up(2) n assms(9) by simp
  then have "length content \<le> n * nat cs" by linarith
  then have "concat (map (piece (nat cs) content) [0..<n]) = content" by (simp add: concat_pieces)
  moreover have "map (\<lambda>i. the (get_reg (?all ?ps ?fs) [d, f, dec i])) [0..<n] = map (piece (nat cs) content) [0..<n]"
    using got by (intro map_cong refl) simp
  ultimately have "concat (map (\<lambda>i. the (get_reg (?all ?ps ?fs) [d, f, dec i])) [0..<n]) = content" by (simp only:)
  moreover have "?all ?ps ?fs p = cl_files s p" if p: "p \<noteq> [d, f]" "\<forall>i. p \<noteq> [d, f, dec i]" for p
  proof -
    have "p \<notin> fst ` set ?ps" using p by (auto simp: pieces_def)
    then have "?all ?ps ?fs p = ?fs p" by (rule fold_put_other)
    with p(1) show ?thesis by simp
  qed
  moreover have "int n = (?len + cs - 1) div cs" using n up(1) by simp
  ultimately show ?thesis unfolding run returns_simps prod.case using got piece by (intro exI [of _ n]) simp
qed

section \<open>Responses\<close>

context pb_codec
begin

lemma parse_response_of:
  assumes "small_bytes (rsp_value r)"
  shows "parse_response pb s c (encodeIMResponseToBytes pb r @ rest) =
    map_option (\<lambda>t. (t, if exited t then 0 else length (encodeIMResponseToBytes pb r), None))
      (response_case pb (s\<lparr>lastresponse := rsp_success r\<rparr>) c r)"
proof -
  have "\<exists>m. ac_decode_protobuf_msg_with_n_fields pb (encodeIMResponseToBytes pb r @ rest) 3
      = Some (m, length (encodeIMResponseToBytes pb r)) \<and> parseIMResponseFromProtobufMsg pb m = Some r"
    unfolding encodeIMResponseToBytes_def
    by (rule decode_n_then)
      (use assms in \<open>simp_all add: codec_simps IMResponse_decoded\<close>, simp add: encodeIMResponseToProtobufMsg_def)
  then obtain m where "ac_decode_protobuf_msg_with_n_fields pb (encodeIMResponseToBytes pb r @ rest) 3
      = Some (m, length (encodeIMResponseToBytes pb r))" "parseIMResponseFromProtobufMsg pb m = Some r" by blast
  then show ?thesis
    by (cases "response_case pb (s\<lparr>lastresponse := rsp_success r\<rparr>) c r") (simp_all add: parse_response_def)
qed

end

text \<open>A text the server or a peer sends is printed, once, exactly as it was sent (up to its first
  NUL), and its success flag is kept for the login loop; exactly its bytes are consumed.\<close>

lemma text_printed:
  assumes "pb_codec pb" and "small_bytes m" and "small_bytes (encodeTextResponseToBytes pb \<lparr>txt_msg = m\<rparr>)"
    and "\<not> exited s"
  shows "parse_response pb s c (encodeIMResponseToBytes pb
      (encodeTextResponseToIMResponseAndFree pb \<lparr>txt_msg = m\<rparr> ok) @ rest) =
    Some (print_line (cstr m) (s\<lparr>lastresponse := ok\<rparr>),
      length (encodeIMResponseToBytes pb (encodeTextResponseToIMResponseAndFree pb \<lparr>txt_msg = m\<rparr> ok)), None)"
proof -
  let ?r = "encodeTextResponseToIMResponseAndFree pb \<lparr>txt_msg = m\<rparr> ok"
  have "small_bytes (rsp_value ?r)" using assms(3) by (simp add: encodeTextResponseToIMResponseAndFree_def)
  note parse = pb_codec.parse_response_of [OF assms(1) this, of s c rest]
  have "parseTextResponseFromBytes pb (encodeTextResponseToBytes pb \<lparr>txt_msg = m\<rparr>)
      = Some (\<lparr>txt_msg = m\<rparr>, length (encodeTextResponseToBytes pb \<lparr>txt_msg = m\<rparr>))"
    using pb_codec.TextResponse_roundtrip [OF assms(1), of "\<lparr>txt_msg = m\<rparr>"] assms(2) by simp
  then have "response_case pb (s\<lparr>lastresponse := ok\<rparr>) c ?r = Some (print_line (cstr m) (s\<lparr>lastresponse := ok\<rparr>))"
    by (simp add: response_case_def encodeTextResponseToIMResponseAndFree_def)
  moreover have "rsp_success ?r = ok" by (simp add: encodeTextResponseToIMResponseAndFree_def)
  moreover have "\<not> exited (print_line (cstr m) (s\<lparr>lastresponse := ok\<rparr>))" using assms(4) by (simp add: print_line_def)
  ultimately show ?thesis using parse by simp
qed

section \<open>Downloading a chunk\<close>

text \<open>The response to a request for a chunk that is there.\<close>

lemma chunk_served:
  assumes "has_dir (cl_files s) (datapath s) f" and "get_reg (cl_files s) [datapath s, f, dec (unat k)] = Some data"
  shows "getChunkDataResponse pb s \<lparr>cdq_filename = f, cdq_chunk = k\<rparr> = \<lparr>rsp_type = 6, rsp_success = True,
    rsp_value = encodeChunkDataResponseToBytes pb \<lparr>cdr_filename = f, cdr_chunk = k, cdr_data = data\<rparr>\<rparr>"
proof -
  have "cstr f = f" using assms(1) by (auto simp: has_dir_def plain_def cstr_id)
  with read_entry [OF assms(1) plain_dec assms(2)] show ?thesis
    by (simp add: getChunkDataResponse_def chunk_path_def)
qed

text \<open>Storing it on the other side.\<close>

lemma chunk_stored:
  assumes d: "plain (datapath t)" "plain f" "cl_files t [] = Some Dir" "cl_files t [datapath t] = Some Dir"
      "cl_files t [datapath t, f] = None \<or> cl_files t [datapath t, f] = Some Dir"
      "cl_files t [datapath t, f, dec (unat k)] \<noteq> Some Dir"
    and c: "server_conn t = Some c" "client_store t c = Some cl" "\<not> c_locked cl" "buf_ok (c_outbuffer cl)"
  shows "returns (writeFile pb t \<lparr>cdr_filename = f, cdr_chunk = k, cdr_data = data\<rparr>) (\<lambda>t'.
    get_reg (cl_files t') [datapath t, f, dec (unat k)] = Some data
    \<and> (\<forall>p. p \<noteq> [datapath t, f] \<longrightarrow> p \<noteq> [datapath t, f, dec (unat k)] \<longrightarrow> cl_files t' p = cl_files t p)
    \<and> cout t' c = cout t c @ request_bytes pb (RegisterChunk \<lparr>rcr_filename = f, rcr_chunks = le_bytes 4 (unat k)\<rparr>)
    \<and> stdout t' = stdout t @ [''Stored file at '' @ chunk_path (datapath t) f k] \<and> exited t' = exited t)"
proof -
  let ?d = "datapath t" and ?cdr = "\<lparr>cdr_filename = f, cdr_chunk = k, cdr_data = data\<rparr>"
  let ?fs = "case mkdir (cl_files t) (?d @ ''/'' @ f) of None \<Rightarrow> cl_files t | Some fs \<Rightarrow> fs"
  have f: "cstr f = f" using d(2) by (auto simp: plain_def cstr_id)
  have dir: "has_dir ?fs ?d f" "\<forall>p. p \<noteq> [?d, f] \<longrightarrow> ?fs p = cl_files t p"
  proof -
    have "has_dir ?fs ?d f \<and> (\<forall>p. p \<noteq> [?d, f] \<longrightarrow> ?fs p = cl_files t p)"
    proof (cases "cl_files t [?d, f] = None")
      case True
      with mkdir_fresh [OF d(1-4)] show ?thesis by simp
    next
      case False
      with d(5) have e: "cl_files t [?d, f] = Some Dir" by (elim disjE) simp_all
      have "mkdir (cl_files t) (?d @ ''/'' @ f) = None \<or> mkdir (cl_files t) (?d @ ''/'' @ f) = Some (cl_files t)"
        using mkdir_existing [OF d(1-4) e] by simp
      with d e show ?thesis by (auto simp: has_dir_def)
    qed
    then show "has_dir ?fs ?d f" "\<forall>p. p \<noteq> [?d, f] \<longrightarrow> ?fs p = cl_files t p" by auto
  qed
  have "?fs [?d, f, dec (unat k)] \<noteq> Some Dir" using dir(2) d(6) by simp
  note w = write_entry [OF dir(1) plain_dec this, of data]
  let ?fs' = "put_reg [?d, f, dec (unat k)] data ?fs"
  have req: "encodeIMRequestToBytes pb (chunk_registration pb ?cdr) =
      request_bytes pb (RegisterChunk \<lparr>rcr_filename = f, rcr_chunks = le_bytes 4 (unat k)\<rparr>)"
    by (simp add: chunk_registration_def request_bytes_def f)
  from append_ok [OF c(4), of "encodeIMRequestToBytes pb (chunk_registration pb ?cdr)"] obtain ob where
    ob: "send_request pb (c_outbuffer cl) (chunk_registration pb ?cdr) = Some ob"
      "pending ob = pending (c_outbuffer cl) @ encodeIMRequestToBytes pb (chunk_registration pb ?cdr)"
    by (auto simp: send_request_def elim!: returnsE)
  let ?t1 = "print_line (''Stored file at '' @ chunk_path ?d f k) (t\<lparr>cl_files := ?fs'\<rparr>)"
  have sc: "server_conn ?t1 = Some c" "client_store ?t1 c = Some cl"
    using c by (simp_all add: server_conn_def print_line_def)
  let ?t2 = "put_client c (cl\<lparr>c_outbuffer := ob\<rparr>) ?t1"
  have "server_conn ?t2 = Some c" using sc(1) by (simp add: server_conn_def heap_simps)
  then have "writeFile pb t ?cdr = Some (?t2\<lparr>epoll := epoll_mod (c_fd cl) (True, True) (epoll ?t2)\<rparr>)"
    using w sc c(3) ob(1)
    by (simp add: writeFile_def Let_def chunk_path_def f epoll_do_send_buffer_def heap_simps)
  moreover have "get_reg ?fs' [?d, f, dec (unat k)] = Some data" by (rule disk.get_put)
  moreover have "?fs' p = cl_files t p" if "p \<noteq> [?d, f]" "p \<noteq> [?d, f, dec (unat k)]" for p
    using that dir(2) by (simp add: put_reg_def)
  ultimately show ?thesis
    using ob(2) req c(2) by (simp add: cout_def heap_simps) (simp add: put_client_def print_line_def)
qed

text \<open>The peer that is asked answers on the connection the question came over.\<close>

lemma chunk_answered:
  assumes "pb_codec pb" and "heap_inv {} s" and "client_store s ps = Some pcl" and "\<not> exited s" and "small_bytes f"
    and "small_bytes (rsp_value (private_chunk_request pb f k))"
  shows "\<exists>s'. parse_response pb s ps (encodeIMResponseToBytes pb (private_chunk_request pb f k)) =
      Some (s', length (encodeIMResponseToBytes pb (private_chunk_request pb f k)), None) \<and> cl_files s' = cl_files s
    \<and> cout s' ps = cout s ps @ encodeIMResponseToBytes pb (getChunkDataResponse pb s \<lparr>cdq_filename = f, cdq_chunk = k\<rparr>)"
proof -
  let ?q = "\<lparr>cdq_filename = f, cdq_chunk = k\<rparr>" and ?ask = "private_chunk_request pb f k" and ?s = "s\<lparr>lastresponse := True\<rparr>"
  let ?ans = "getChunkDataResponse pb s ?q"
  have ask: "rsp_type ?ask = 5" "rsp_success ?ask"
    "parseChunkDataRequestFromBytes pb (rsp_value ?ask) = Some (?q, length (rsp_value ?ask))"
    using pb_codec.ChunkDataRequest_roundtrip [OF assms(1), of ?q] assms(5) by (simp_all add: private_chunk_request_def)
  have same: "getChunkDataResponse pb ?s ?q = ?ans" by (simp add: getChunkDataResponse_def cong: option.case_cong)
  have "heap_inv {} ?s" using assms(2) by (simp add: heap_inv_cong [of ?s s])
  from send_response_to_client_spec [OF this, of ps pcl pb ?ans] assms(3) obtain s' where
    s': "send_response_to_client pb ?s ps ?ans = Some s'" "sent_client ps (encodeIMResponseToBytes pb ?ans) ?s s'"
    by (auto elim!: returnsE)
  have "exited s' = exited s \<and> cl_files s' = cl_files s"
    using s'(1) by (auto simp: send_response_to_client_def bind_eq_Some_conv put_client_def split: if_splits)
  moreover from this have "parse_response pb s ps (encodeIMResponseToBytes pb ?ask) =
      Some (s', length (encodeIMResponseToBytes pb ?ask), None)"
    using pb_codec.parse_response_of [OF assms(1,6), of s ps "[]"] ask s'(1) same assms(4) by (simp add: response_case_def)
  ultimately show ?thesis using s'(2) by (simp add: sent_client_def cout_def)
qed

text \<open>C33. A chunk downloaded from a peer is the peer's chunk: the request that reaches the peer is
  answered with the bytes of its file, the one who asked stores exactly these bytes under the same
  name, touches no other file, and tells the server that it has the chunk now.\<close>

theorem chunk_transferred:
  assumes "pb_codec pb"
    and peer: "has_dir (cl_files s) (datapath s) f" "get_reg (cl_files s) [datapath s, f, dec (unat k)] = Some data"
      "heap_inv {} s" "client_store s ps = Some pcl"
    and mine: "plain (datapath t)" "cl_files t [] = Some Dir" "cl_files t [datapath t] = Some Dir"
      "cl_files t [datapath t, f] \<in> {None, Some Dir}" "cl_files t [datapath t, f, dec (unat k)] \<noteq> Some Dir"
      "server_conn t = Some c0" "client_store t c0 = Some cl0" "\<not> c_locked cl0" "buf_ok (c_outbuffer cl0)"
    and live: "\<not> exited s" "\<not> exited t"
    and sizes: "small_bytes f" "small_bytes data" "small_bytes (rsp_value (private_chunk_request pb f k))"
      "small_bytes (rsp_value (getChunkDataResponse pb s \<lparr>cdq_filename = f, cdq_chunk = k\<rparr>))"
  shows "returns (parse_response pb s ps (encodeIMResponseToBytes pb (private_chunk_request pb f k))) (\<lambda>(s', n, _).
      n = length (encodeIMResponseToBytes pb (private_chunk_request pb f k)) \<and> cl_files s' = cl_files s
    \<and> (\<exists>answer. cout s' ps = cout s ps @ answer
      \<and> returns (parse_response pb t ct answer) (\<lambda>(t', m, _). m = length answer
        \<and> get_reg (cl_files t') [datapath t, f, dec (unat k)] = Some data
        \<and> (\<forall>p. p \<noteq> [datapath t, f] \<longrightarrow> p \<noteq> [datapath t, f, dec (unat k)] \<longrightarrow> cl_files t' p = cl_files t p)
        \<and> cout t' c0 = cout t c0 @
            request_bytes pb (RegisterChunk \<lparr>rcr_filename = f, rcr_chunks = le_bytes 4 (unat k)\<rparr>))))"
proof -
  let ?cdr = "\<lparr>cdr_filename = f, cdr_chunk = k, cdr_data = data\<rparr>" and ?t = "t\<lparr>lastresponse := True\<rparr>"
  let ?ans = "getChunkDataResponse pb s \<lparr>cdq_filename = f, cdq_chunk = k\<rparr>"
  have f: "plain f" using peer(1) by (simp add: has_dir_def)
  from chunk_answered [OF assms(1) peer(3,4) live(1) sizes(1,3)] obtain s' where
    s': "parse_response pb s ps (encodeIMResponseToBytes pb (private_chunk_request pb f k)) =
      Some (s', length (encodeIMResponseToBytes pb (private_chunk_request pb f k)), None)" "cl_files s' = cl_files s"
    "cout s' ps = cout s ps @ encodeIMResponseToBytes pb ?ans" by blast
  note served = chunk_served [OF peer(1,2), of pb]
  have ans: "rsp_type ?ans = 6" "rsp_success ?ans"
    "parseChunkDataResponseFromBytes pb (rsp_value ?ans) = Some (?cdr, length (rsp_value ?ans))"
    using pb_codec.ChunkDataResponse_roundtrip [OF assms(1), of ?cdr] sizes(1,2) by (simp_all add: served)
  have dir: "cl_files ?t [datapath ?t, f] = None \<or> cl_files ?t [datapath ?t, f] = Some Dir"
    using mine(4) by simp
  have "server_conn ?t = Some c0" using mine(6) by (simp add: server_conn_def)
  from chunk_stored [of ?t f k c0 cl0 pb data, OF _ f _ _ dir _ this] mine obtain t' where
    t': "writeFile pb ?t ?cdr = Some t'" "get_reg (cl_files t') [datapath t, f, dec (unat k)] = Some data"
      "\<forall>p. p \<noteq> [datapath t, f] \<longrightarrow> p \<noteq> [datapath t, f, dec (unat k)] \<longrightarrow> cl_files t' p = cl_files t p"
      "cout t' c0 = cout ?t c0 @ request_bytes pb (RegisterChunk \<lparr>rcr_filename = f, rcr_chunks = le_bytes 4 (unat k)\<rparr>)"
      "exited t' = exited t"
    by (auto elim!: returnsE)
  have 2: "parse_response pb t ct (encodeIMResponseToBytes pb ?ans) =
      Some (t', length (encodeIMResponseToBytes pb ?ans), None)"
    using pb_codec.parse_response_of [OF assms(1) sizes(4), of t ct "[]"] ans t'(1,5) live(2) by (simp add: response_case_def)
  have "cout ?t c0 = cout t c0" by (simp add: cout_def)
  with t' 2 have "returns (parse_response pb t ct (encodeIMResponseToBytes pb ?ans)) (\<lambda>(t', m, _).
        m = length (encodeIMResponseToBytes pb ?ans)
        \<and> get_reg (cl_files t') [datapath t, f, dec (unat k)] = Some data
        \<and> (\<forall>p. p \<noteq> [datapath t, f] \<longrightarrow> p \<noteq> [datapath t, f, dec (unat k)] \<longrightarrow> cl_files t' p = cl_files t p)
        \<and> cout t' c0 = cout t c0 @
            request_bytes pb (RegisterChunk \<lparr>rcr_filename = f, rcr_chunks = le_bytes 4 (unat k)\<rparr>))" by simp
  with s'(2,3) show ?thesis unfolding s'(1) returns_simps prod.case by blast
qed

lemma chunk_transferred_witness:
  "returns (parse_response wire_pb (demo_cl ''ann'' demo_song []) 1
      (encodeIMResponseToBytes wire_pb (private_chunk_request wire_pb ''song'' 0))) (\<lambda>(s', _, _).
    \<exists>answer. cout s' 1 = answer \<and> returns (parse_response wire_pb (demo_cl ''bob'' demo_dir []) 1 answer) (\<lambda>(t', _, _).
      get_reg (cl_files t') [''data'', ''song'', dec 0] = Some ''la la''))"
proof -
  let ?s = "demo_cl ''ann'' demo_song []" and ?t = "demo_cl ''bob'' demo_dir []"
  have dir: "has_dir (cl_files ?s) (datapath ?s) ''song''" by (simp add: has_dir_def)
  have stored: "get_reg (cl_files ?s) [datapath ?s, ''song'', dec (unat 0)] = Some ''la la''" by (simp add: get_reg_def)
  have small: "small_bytes (rsp_value (private_chunk_request wire_pb ''song'' 0))"
    by (simp add: private_chunk_request_def encodings small_wire)
  have "small_bytes (rsp_value (getChunkDataResponse wire_pb ?s \<lparr>cdq_filename = ''song'', cdq_chunk = 0\<rparr>))"
    unfolding chunk_served [OF dir stored] by (simp add: encodings small_wire)
  from chunk_transferred [OF wire.pb_codec_axioms dir stored demo_cl_inv, where ps = 1 and pcl = "demo_client 8 None"
      and t = ?t and ?c0.0 = 0 and ?cl0.0 = "demo_client 4 None" and ct = 1, OF _ _ _ _ _ _ _ _ _ _ _ _ _ _ small this]
  show ?thesis
    by (rule returns_mono) (auto simp: init_buffer_ok OUT_BUFFER_DEFAULT_SIZE_def cout_def small_bytes_def elim!: returns_mono)
qed

end
