(* ===== verification/Private.thy ===== *)
theory Private
  imports Client_Facts
begin

text \<open>
  Private sessions between two clients: how the server's answer to \<open>startprivate\<close> becomes a connection
  that both sides have linked to the other's name, and how a private message gets across.
\<close>

section \<open>Pieces\<close>

lemma word_le_bytes:
  "word_of_nat (of_le (le_bytes 2 (unat w))) = (w :: u16)" "word_of_nat (of_le (le_bytes 4 (unat v))) = (v :: u32)"
proof -
  have "unat w < 256 ^ 2" using unsigned_less [of w] by simp
  then show "word_of_nat (of_le (le_bytes 2 (unat w))) = w" unfolding of_le_le_bytes by (simp only: mod_less) simp
  have "unat v < 256 ^ 4" using unsigned_less [of v] by simp
  then show "word_of_nat (of_le (le_bytes 4 (unat v))) = v" unfolding of_le_le_bytes by (simp only: mod_less) simp
qed

lemma sockaddr_roundtrip: "sockaddr_of (sockaddr_bytes a) = Some a"
proof (cases a)
  case (fields f p h)
  let ?b = "le_bytes 2 (unat f) @ le_bytes 2 (unat p) @ le_bytes 4 (unat h) @ replicate 8 NUL"
  have "take 2 ?b = le_bytes 2 (unat f)" "take 2 (drop 2 ?b) = le_bytes 2 (unat p)"
    "take 4 (drop 4 ?b) = le_bytes 4 (unat h)" "length ?b = 16"
    by (simp_all del: le_bytes.simps)
  then show ?thesis unfolding fields sockaddr_of_def sockaddr_bytes_def sockaddr_in.select_convs
    by (simp only: word_le_bytes) simp
qed

text \<open>Sending needs no invariant but of the buffer.\<close>

lemma send_ok:
  assumes "client_store s c = Some cl" and "\<not> c_locked cl" and "buf_ok (c_outbuffer cl)"
  shows "\<exists>ob. send_response_to_client pb s c m = Some ((put_client c (cl\<lparr>c_outbuffer := ob\<rparr>) s)
      \<lparr>epoll := epoll_mod (c_fd cl) (True, True) (epoll s)\<rparr>)
    \<and> pending ob = pending (c_outbuffer cl) @ encodeIMResponseToBytes pb m"
  using append_ok [OF assms(3), of "encodeIMResponseToBytes pb m"] assms(1,2)
  by (auto simp: send_response_to_client_def send_response_def elim!: returnsE)

lemma add_fresh:
  assumes "lookup_client s fd = Some None" and "length (clients s) < MAX_CLIENTS"
  shows "add_client s fd a = Some (next_client s, s\<lparr>client_store := (client_store s)(next_client s \<mapsto> new_client fd a),
      next_client := Suc (next_client s), epoll := (if epoll s fd = None then (epoll s)(fd \<mapsto> (True, False)) else epoll s),
      open_fds := insert fd (open_fds s), clients := clients s @ [next_client s]\<rparr>)"
  using assms by (simp add: add_client_def im_connection_accept_def Let_def)

lemma addUser_store [simp]:
  "client_store (snd (addUser s n pw)) = client_store s" "clients (snd (addUser s n pw)) = clients s"
  "epoll (snd (addUser s n pw)) = epoll s"
  by (simp_all add: addUser_def Let_def)

lemma findOrAddUser_spec:
  assumes "db_ok s"
  shows "\<exists>u t x. findOrAddUser s name = (u, t) \<and> findUser t name = Some u \<and> users t u = Some x
    \<and> u_username x = cstr name \<and> client_store t = client_store s \<and> (t = s \<or> t = snd (addUser s name []))"
proof (cases "findUser s name")
  case None
  have "findOrAddUser s name = (next_user s, snd (addUser s name []))"
    using None by (simp add: findOrAddUser_def) (simp add: addUser_def Let_def)
  moreover have "u_username (new_user name []) = cstr name" by (simp add: new_user_def)
  ultimately show ?thesis using findUser_addUser [of s name "[]"] by auto
next
  case (Some u)
  from findUser_SomeD [OF assms this] obtain x where "users s u = Some x" "u_username x = cstr name" by blast
  with Some show ?thesis by (auto simp: findOrAddUser_def)
qed

section \<open>Both ends of a session\<close>

text \<open>Connection \<open>c\<close> is the private session with the user called \<open>name\<close>, both links in place.\<close>

definition session_with :: "client \<Rightarrow> bytes \<Rightarrow> cref \<Rightarrow> im_client \<Rightarrow> bool" where
  "session_with s name c cl \<longleftrightarrow> (\<exists>u x. findUser s name = Some u \<and> users s u = Some x \<and> u_client x = Some c
     \<and> u_username x = cstr name \<and> client_store s c = Some cl \<and> c_user cl = Some u
     \<and> c_close_prehook cl = Some Pm_Close_Connection)"

lemma link_private_ok:
  assumes "findUser s name = Some u" and "users s u = Some x" and "u_username x = cstr name"
    and "client_store s c = Some cl"
  shows "\<exists>t cl'. link_private u c s = Some t \<and> session_with t name c cl'
    \<and> cl' = cl\<lparr>c_user := Some u, c_close_prehook := Some Pm_Close_Connection\<rparr> \<and> exited t = exited s
    \<and> loggedInUserName t = loggedInUserName s"
proof -
  let ?cl = "cl\<lparr>c_user := Some u, c_close_prehook := Some Pm_Close_Connection\<rparr>"
  let ?t = "put_client c ?cl (put_user u (x\<lparr>u_client := Some c\<rparr>) s)"
  have "link_private u c s = Some ?t" using assms by (simp add: link_private_def)
  moreover have "session_with ?t name c ?cl"
    using assms by (simp add: session_with_def heap_simps findUser_def)
  moreover have "exited ?t = exited s \<and> loggedInUserName ?t = loggedInUserName s"
    by (simp add: put_client_def put_user_def)
  ultimately show ?thesis by blast
qed

lemma addUser_more [simp]:
  "exited (snd (addUser s n pw)) = exited s" "loggedInUserName (snd (addUser s n pw)) = loggedInUserName s"
  by (simp_all add: addUser_def Let_def)

lemma private_started_ok:
  assumes "db_ok s" and "client_store s c = Some cl"
  shows "\<exists>t cl'. private_started s c \<lparr>prr_username = name\<rparr> = Some t \<and> session_with t name c cl' \<and> exited t = exited s"
proof -
  from findOrAddUser_spec [OF assms(1), of name] obtain u s1 x where
    s1: "findOrAddUser s name = (u, s1)" "findUser s1 name = Some u" "users s1 u = Some x" "u_username x = cstr name"
      "client_store s1 = client_store s" "s1 = s \<or> s1 = snd (addUser s name [])" by blast
  let ?l = "cstr name @ '' has started a private messaging session with you''"
  have "findUser (print_line ?l s1) name = Some u" using s1(2) by (simp add: findUser_def print_line_fields)
  from link_private_ok [OF this, of x c cl] s1(3-5) assms(2) obtain t cl' where
    "link_private u c (print_line ?l s1) = Some t" "session_with t name c cl'" "exited t = exited (print_line ?l s1)"
    by (auto simp: print_line_fields)
  moreover have "exited (print_line ?l s1) = exited s" using s1(6) by (auto simp: print_line_def)
  ultimately show ?thesis by (auto simp: private_started_def s1(1) Let_def)
qed

lemma start_private_ok:
  assumes db: "db_ok s" and sock: "connects s = Some fd # later" "lookup_client s fd = Some None"
      "length (clients s) < MAX_CLIENTS"
  shows "\<exists>t d k. start_private pb s \<lparr>gip_username = name, gip_addr = sockaddr_bytes a\<rparr> = Some t
    \<and> session_with t name d k \<and> c_fd k = fd \<and> c_addr k = a \<and> d \<in> set (clients t)
    \<and> pending (c_outbuffer k) = encodeIMResponseToBytes pb (registration_response pb s) \<and> exited t = exited s"
proof -
  let ?s0 = "s\<lparr>connects := tl (connects s)\<rparr>"
  have "find_fd ?s0 cs f = find_fd s cs f" for cs f
    by (induction cs) (simp_all cong: Option.bind_cong if_cong)
  then have look: "lookup_client ?s0 fd = Some None" using sock(2) by (simp add: lookup_client_def)
  let ?d = "next_client s" and ?n = "new_client fd a"
  from add_fresh [OF look, of a] sock(3) obtain s1 where s1: "add_client ?s0 fd a = Some (?d, s1)"
    "client_store s1 ?d = Some ?n" "users s1 = users s" "udb s1 = udb s" "next_user s1 = next_user s"
    "clients s1 = clients s @ [?d]" "exited s1 = exited s" "loggedInUserName s1 = loggedInUserName s"
    by simp
  let ?l = "''Start private messaging with '' @ cstr name"
  let ?s2 = "print_line ?l s1"
  have "db_ok ?s2"
    using db s1(3-5) db_ok_cong [of ?s2 s] by (simp add: print_line_def)
  from findOrAddUser_spec [OF this, of name] obtain u s3 x where
    s3: "findOrAddUser ?s2 name = (u, s3)" "findUser s3 name = Some u" "users s3 u = Some x" "u_username x = cstr name"
      "client_store s3 = client_store ?s2" "s3 = ?s2 \<or> s3 = snd (addUser ?s2 name [])" by blast
  have keep: "exited s3 = exited s" "loggedInUserName s3 = loggedInUserName s" "clients s3 = clients s @ [?d]"
    using s3(6) s1(6-8) by (auto simp: print_line_def)
  have "client_store s3 ?d = Some ?n" using s3(5) s1(2) by (simp add: print_line_fields)
  from link_private_ok [OF s3(2-4) this] obtain t k where
    t: "link_private u ?d s3 = Some t" "session_with t name ?d k"
      "k = ?n\<lparr>c_user := Some u, c_close_prehook := Some Pm_Close_Connection\<rparr>" "exited t = exited s3"
      "loggedInUserName t = loggedInUserName s3" by blast
  have k: "client_store t ?d = Some k" using t(2) by (auto simp: session_with_def)
  have "\<not> c_locked k" "buf_ok (c_outbuffer k)" "pending (c_outbuffer k) = []"
    by (simp_all add: t(3) new_client_def init_buffer_ok OUT_BUFFER_DEFAULT_SIZE_def)
  with send_ok [OF k, of pb "registration_response pb t"] obtain ob where
    ob: "send_response_to_client pb t ?d (registration_response pb t) = Some ((put_client ?d (k\<lparr>c_outbuffer := ob\<rparr>) t)
        \<lparr>epoll := epoll_mod (c_fd k) (True, True) (epoll t)\<rparr>)"
      "pending ob = encodeIMResponseToBytes pb (registration_response pb t)" by auto
  let ?t = "(put_client ?d (k\<lparr>c_outbuffer := ob\<rparr>) t)\<lparr>epoll := epoll_mod (c_fd k) (True, True) (epoll t)\<rparr>"
  have "clients t = clients s3"
    using t(1) by (auto simp: link_private_def bind_eq_Some_conv heap_simps)
  then have "?d \<in> set (clients ?t)" using keep(3) by (simp add: heap_simps)
  moreover have "session_with ?t name ?d (k\<lparr>c_outbuffer := ob\<rparr>)"
    using t(2) by (auto simp: session_with_def heap_simps findUser_def)
  moreover have "registration_response pb t = registration_response pb s"
    using t(5) keep(2) by (simp add: registration_response_def)
  moreover have "start_private pb s \<lparr>gip_username = name, gip_addr = sockaddr_bytes a\<rparr> = Some ?t"
    using s1(1) s3(1) t(1) ob(1) sock(1) by (simp add: start_private_def sockaddr_roundtrip Let_def)
  moreover have "exited ?t = exited s" using t(4) keep(1) by (simp add: put_client_def)
  moreover have "c_fd k = fd" "c_addr k = a" by (simp_all add: t(3) new_client_def)
  ultimately show ?thesis using ob(2) by (intro exI [of _ ?t] exI [of _ ?d] exI [of _ "k\<lparr>c_outbuffer := ob\<rparr>"]) simp
qed

section \<open>From the server's answer to a session\<close>

lemma small_sockaddr [simp]: "small_bytes (sockaddr_bytes a)"
  by (simp add: small_bytes_def sockaddr_bytes_def del: le_bytes.simps)

text \<open>C34. The server's answer to \<open>startprivate\<close> opens a session: the client connects to exactly the
  address in the answer, links that connection to the user asked for, and sends its own name first;
  the other client, parsing these bytes, links its end to that name.\<close>

theorem private_session_links:
  assumes "pb_codec pb" and "db_ok s" and "db_ok p" and "client_store p pc = Some pcl"
    and sock: "connects s = Some fd # later" "lookup_client s fd = Some None" "length (clients s) < MAX_CLIENTS"
    and names: "NUL \<notin> set peer" "NUL \<notin> set me" "loggedInUserName s = Some me"
    and sizes: "small_bytes peer" "small_bytes me" "small_bytes (rsp_value (getip_reply pb peer cl))"
      "small_bytes (rsp_value (registration_response pb s))"
    and live: "\<not> exited s" "\<not> exited p"
  shows "returns (parse_response pb s c (encodeIMResponseToBytes pb (getip_reply pb peer cl))) (\<lambda>(t, n, _).
      n = length (encodeIMResponseToBytes pb (getip_reply pb peer cl))
    \<and> (\<exists>d k. session_with t peer d k \<and> c_fd k = fd \<and> c_addr k = c_addr cl \<and> d \<in> set (clients t)
      \<and> returns (parse_response pb p pc (pending (c_outbuffer k))) (\<lambda>(q, m, _).
          m = length (pending (c_outbuffer k)) \<and> (\<exists>k'. session_with q me pc k'))))"
proof -
  let ?s = "s\<lparr>lastresponse := True\<rparr>" and ?p = "p\<lparr>lastresponse := True\<rparr>"
  let ?r = "getip_reply pb peer cl" and ?q = "registration_response pb s"
  let ?gr = "\<lparr>gip_username = peer, gip_addr = sockaddr_bytes (c_addr cl)\<rparr>"
  note codec = pb_codec.parse_response_of [OF assms(1)]
  have r: "rsp_type ?r = 3" "rsp_success ?r"
    "parseGetIPResponseFromBytes pb (rsp_value ?r) = Some (?gr, length (rsp_value ?r))"
    using pb_codec.GetIPResponse_roundtrip [OF assms(1), of ?gr] sizes(1) names(1)
    by (simp_all add: getip_reply_def cstr_id)
  have q: "rsp_type ?q = 4" "rsp_success ?q"
    "parsePrivateRegistrationResponseFromBytes pb (rsp_value ?q) = Some (\<lparr>prr_username = me\<rparr>, length (rsp_value ?q))"
    using pb_codec.PrivateRegistrationResponse_roundtrip [OF assms(1), of "\<lparr>prr_username = me\<rparr>"] sizes(2) names(2,3)
    by (simp_all add: registration_response_def fmt_s_def cstr_id)
  have db: "db_ok ?s" "db_ok ?p" using assms(2,3) by (simp_all add: db_ok_cong [of ?s s] db_ok_cong [of ?p p])
  have "find_fd ?s cs f = find_fd s cs f" for cs f
    by (induction cs) (simp_all cong: Option.bind_cong if_cong)
  then have "lookup_client ?s fd = Some None" using sock(2) by (simp add: lookup_client_def)
  from start_private_ok [OF db(1) _ this, of later pb peer "c_addr cl"] sock(1,3) obtain t d k where
    t: "start_private pb ?s ?gr = Some t" "session_with t peer d k" "c_fd k = fd" "c_addr k = c_addr cl"
      "d \<in> set (clients t)" "pending (c_outbuffer k) = encodeIMResponseToBytes pb (registration_response pb ?s)"
      "exited t = exited s" by auto
  have same: "registration_response pb ?s = ?q" by (simp add: registration_response_def)
  from private_started_ok [OF db(2), of pc pcl me] assms(4) obtain q' k' where
    q': "private_started ?p pc \<lparr>prr_username = me\<rparr> = Some q'" "session_with q' me pc k'" "exited q' = exited p" by auto
  have 1: "parse_response pb s c (encodeIMResponseToBytes pb ?r) = Some (t, length (encodeIMResponseToBytes pb ?r), None)"
    using codec [OF sizes(3), of s c "[]"] r t(1,7) live(1) by (simp add: response_case_def)
  have 2: "parse_response pb p pc (encodeIMResponseToBytes pb ?q) =
      Some (q', length (encodeIMResponseToBytes pb ?q), None)"
    using codec [OF sizes(4), of p pc "[]"] q q'(1,3) live(2) by (simp add: response_case_def)
  have "\<exists>d k. session_with t peer d k \<and> c_fd k = fd \<and> c_addr k = c_addr cl \<and> d \<in> set (clients t)
      \<and> returns (parse_response pb p pc (pending (c_outbuffer k))) (\<lambda>(q, m, _).
          m = length (pending (c_outbuffer k)) \<and> (\<exists>k'. session_with q me pc k'))"
    using t(2-5) q'(2) by (intro exI [of _ d] exI [of _ k]) (auto simp: t(6) same 2)
  then show ?thesis unfolding 1 by simp
qed

lemma private_session_links_witness:
  "returns (parse_response wire_pb (demo_cl ''ann'' demo_dir [Some 9]) 0
      (encodeIMResponseToBytes wire_pb (getip_reply wire_pb ''bob'' (demo_client 6 (Some 1))))) (\<lambda>(t, _, _).
    \<exists>d k. session_with t ''bob'' d k \<and> c_fd k = 9 \<and> c_addr k = c_addr (demo_client 6 (Some 1))
      \<and> returns (parse_response wire_pb (demo_cl ''bob'' demo_dir []) 1 (pending (c_outbuffer k)))
          (\<lambda>(q, _, _). \<exists>k'. session_with q ''ann'' 1 k'))"
proof -
  let ?s = "demo_cl ''ann'' demo_dir [Some 9]" and ?p = "demo_cl ''bob'' demo_dir []"
  have "lookup_client ?s 9 = Some None" by (simp add: lookup_client_def)
  from private_session_links [where pc = 1 and pcl = "demo_client 8 None" and p = ?p and peer = "''bob''"
      and me = "''ann''" and cl = "demo_client 6 (Some 1)" and c = 0,
      OF wire.pb_codec_axioms demo_cl_db demo_cl_db _ _ this]
  show ?thesis
    by (rule returns_mono)
      (auto simp: MAX_CLIENTS_def getip_reply_def registration_response_def fmt_s_def encodings small_wire
        small_short sockaddr_bytes_def simp del: le_bytes.simps elim!: returns_mono)
qed

section \<open>Private messages\<close>

text \<open>C35. A private message typed in a session goes over that session's connection and no other: exactly
  one response is put behind what waits there, and the other client, parsing it, prints the sender's
  name and the text.\<close>

theorem private_message_delivered:
  assumes "pb_codec pb" and "session_with s peer c cl" and "\<not> c_locked cl" and "buf_ok (c_outbuffer cl)"
    and "CHR '' '' \<notin> set peer" and "take 9 m \<noteq> ''download ''" and "loggedInUserName s = Some me"
    and line: "line = cstr (cstr me @ '' (private): '' @ m)" and "small_bytes line"
    and "small_bytes (encodeTextResponseToBytes pb \<lparr>txt_msg = line\<rparr>)" and "\<not> exited p"
  shows "returns (parse_command_client pb s sc (''private '' @ peer @ '' '' @ m)) (\<lambda>t.
      stdout t = stdout s \<and> users t = users s \<and> (\<forall>d. d \<noteq> c \<longrightarrow> client_store t d = client_store s d)
    \<and> (\<exists>bytes. cout t c = cout s c @ bytes \<and> parse_response pb p pc bytes =
         Some (print_line line (p\<lparr>lastresponse := True\<rparr>), length bytes, None)))"
proof -
  from assms(2) obtain u x where
    u: "findUser s peer = Some u" "users s u = Some x" "u_client x = Some c" "client_store s c = Some cl"
    by (auto simp: session_with_def)
  let ?m = "private_text pb s m"
  from send_ok [OF u(4) assms(3,4), of pb ?m] obtain ob where
    ob: "send_response_to_client pb s c ?m = Some ((put_client c (cl\<lparr>c_outbuffer := ob\<rparr>) s)
      \<lparr>epoll := epoll_mod (c_fd cl) (True, True) (epoll s)\<rparr>)"
      "pending ob = pending (c_outbuffer cl) @ encodeIMResponseToBytes pb ?m" by blast
  let ?t = "(put_client c (cl\<lparr>c_outbuffer := ob\<rparr>) s)\<lparr>epoll := epoll_mod (c_fd cl) (True, True) (epoll s)\<rparr>"
  have "split_word (peer @ CHR '' '' # m) = Some (peer, m)" using assms(5) by (rule split_word_word)
  then have run: "parse_command_client pb s sc (''private '' @ peer @ '' '' @ m) = Some ?t"
    using u assms(6) ob(1)
    by (simp add: parse_command_client_def enabled_commands_client_def has_prefix_def cmd_private_client_def)
  have msg: "?m = encodeTextResponseToIMResponseAndFree pb \<lparr>txt_msg = line\<rparr> True"
    using assms(7) by (simp add: private_text_def encodeTextToIMResponse_def fmt_s_def line)
  have "cstr line = line" by (simp add: line)
  then have "parse_response pb p pc (encodeIMResponseToBytes pb ?m) =
      Some (print_line line (p\<lparr>lastresponse := True\<rparr>), length (encodeIMResponseToBytes pb ?m), None)"
    using text_printed [OF assms(1) assms(9-11), of pc True "[]"] by (simp add: msg)
  then have "\<exists>bytes. cout ?t c = cout s c @ bytes \<and> parse_response pb p pc bytes =
         Some (print_line line (p\<lparr>lastresponse := True\<rparr>), length bytes, None)"
    using u(4) ob(2) by (intro exI [of _ "encodeIMResponseToBytes pb ?m"]) (simp add: cout_def heap_simps)
  then show ?thesis unfolding run by (simp add: heap_simps)
qed

lemma private_message_delivered_witness:
  "returns (parse_command_client wire_pb demo_session 0 ''private bob hi'') (\<lambda>t. client_store t 0 = client_store demo_session 0
    \<and> (\<exists>bytes. cout t 1 = bytes \<and> parse_response wire_pb (demo_cl ''bob'' demo_dir []) 1 bytes =
         Some (print_line ''ann (private): hi'' ((demo_cl ''bob'' demo_dir [])\<lparr>lastresponse := True\<rparr>), length bytes, None)))"
proof -
  let ?cl = "(demo_client 8 (Some 0))\<lparr>c_close_prehook := Some Pm_Close_Connection\<rparr>" and ?line = "''ann (private): hi''"
  have s: "session_with demo_session ''bob'' 1 ?cl"
    by (simp add: session_with_def demo_session_find) (simp add: demo_session_def)
  have "cstr (cstr ''ann'' @ '' (private): '' @ ''hi'') = ?line" by (simp add: cstr_def)
  moreover have "small_bytes ?line" "small_bytes (encodeTextResponseToBytes wire_pb \<lparr>txt_msg = ?line\<rparr>)"
    by (simp_all add: encodings small_wire) (simp add: small_bytes_def)
  ultimately show ?thesis
    using private_message_delivered [OF wire.pb_codec_axioms s, where m = "''hi''" and me = "''ann''" and line = ?line
        and p = "demo_cl ''bob'' demo_dir []" and pc = 1 and sc = 0]
    by (auto simp: init_buffer_ok OUT_BUFFER_DEFAULT_SIZE_def demo_session_def cout_def elim!: returns_mono)
qed

end
