(* ===== verification/Chat.thy ===== *)
theory Chat
  imports Dispatch
begin

text \<open>
  What the server promises, without buffers, descriptors, references between records, or time: who is on
  which connection, who has blocked whom, the mail that has ever been put on a connection or kept
  for a user who was away, and the bytes of it that have left.  The relation \<open>chat_rel\<close> says that a state
  of the server is such a chat: what has left, followed by what waits, is the encoded mail, byte for byte.
  The simulation: serving any request does to the chat what \<open>chat_serves\<close> says.
\<close>

section \<open>The chat\<close>

text \<open>A text somebody has written to somebody, the notice that a user came or went, and any other
  response of the server.\<close>

datatype mail = Said uref uref bytes | Came uref | Gone uref | Note IMResponse

text \<open>\<open>flown c\<close> has been written to the descriptor of connection \<open>c\<close> out of what was put on it, \<open>fetched u\<close> has
  been written to the connection of \<open>u\<close> out of what was kept for \<open>u\<close>, and \<open>spoilt c\<close> was still unsent when the
  record of the closed connection \<open>c\<close> was freed.\<close>

record chat =
  owner :: "cref \<Rightarrow> uref option"
  live :: "uref \<Rightarrow> bool"
  blocks :: "uref \<Rightarrow> uref set"
  wire :: "cref \<Rightarrow> mail list"
  stash :: "uref \<Rightarrow> mail list"
  flown :: "cref \<Rightarrow> bytes"
  spoilt :: "cref \<Rightarrow> bytes"
  fetched :: "uref \<Rightarrow> bytes"

text \<open>Mail for everybody in \<open>P\<close>: on the wire of who is live, kept for who is not.\<close>

definition post :: "(uref \<Rightarrow> bool) \<Rightarrow> (uref \<Rightarrow> mail) \<Rightarrow> chat \<Rightarrow> chat" where
  "post P e ch = ch\<lparr>
     wire := (\<lambda>c. wire ch c @ (case owner ch c of None \<Rightarrow> [] | Some v \<Rightarrow> if P v \<and> live ch v then [e v] else [])),
     stash := (\<lambda>v. stash ch v @ (if P v \<and> \<not> live ch v then [e v] else []))\<rparr>"

definition audience :: "uref \<Rightarrow> chat \<Rightarrow> uref \<Rightarrow> bool" where
  "audience u ch v \<longleftrightarrow> v \<noteq> u \<and> live ch v \<and> v \<notin> blocks ch u"

definition enter :: "cref \<Rightarrow> uref \<Rightarrow> chat \<Rightarrow> chat" where
  "enter c u ch = (post (audience u ch) (\<lambda>_. Came u) ch)\<lparr>owner := (owner ch)(c := Some u), live := (live ch)(u := True)\<rparr>"

definition leave :: "cref \<Rightarrow> uref \<Rightarrow> chat \<Rightarrow> chat" where
  "leave c u ch = (post (audience u ch) (\<lambda>_. Gone u) ch)\<lparr>owner := (owner ch)(c := None), live := (live ch)(u := False)\<rparr>"

text \<open>The effect of a request of the live user \<open>me\<close> on connection \<open>c\<close>; \<open>dir\<close> is the directory of names.\<close>

fun chat_effect :: "(bytes \<Rightarrow> uref option) \<Rightarrow> cref \<Rightarrow> uref \<Rightarrow> request \<Rightarrow> chat \<Rightarrow> chat" where
  "chat_effect dir c me (Message q) ch =
     (let e = (\<lambda>v. Said me v (cstr (mr_msg q))) in
      if mr_broadcast q then post (\<lambda>v. v \<noteq> me \<and> live ch v \<and> me \<notin> blocks ch v) e ch
      else (case dir (mr_username q) of None \<Rightarrow> ch
            | Some u \<Rightarrow> if me \<in> blocks ch u then ch else post (\<lambda>v. v = u) e ch))"
| "chat_effect dir c me (Block q) ch = (case dir (br_username q) of None \<Rightarrow> ch
     | Some u \<Rightarrow> if u = me then ch else ch\<lparr>blocks := (blocks ch)(me := insert u (blocks ch me))\<rparr>)"
| "chat_effect dir c me (UnBlock q) ch = (case dir (ubr_username q) of None \<Rightarrow> ch
     | Some u \<Rightarrow> if u = me then ch else ch\<lparr>blocks := (blocks ch)(me := blocks ch me - {u})\<rparr>)"
| "chat_effect dir c me LogOut ch = leave c me ch"
| "chat_effect dir c me r ch = ch"

definition replied :: "cref \<Rightarrow> IMResponse option \<Rightarrow> chat \<Rightarrow> chat" where
  "replied c rsp ch = (case rsp of None \<Rightarrow> ch | Some r \<Rightarrow> ch\<lparr>wire := (wire ch)(c := wire ch c @ [Note r])\<rparr>)"

text \<open>Serving a request: its effect when a live user asks; nothing when nobody is logged in, unless it
  is a login for a user nobody is linked to, which may be accepted.  Either may be answered.\<close>

inductive chat_does :: "(bytes \<Rightarrow> uref option) \<Rightarrow> cref \<Rightarrow> request \<Rightarrow> chat \<Rightarrow> chat \<Rightarrow> bool" for dir c where
  asked: "owner ch c = Some me \<Longrightarrow> live ch me \<Longrightarrow> chat_does dir c r ch (chat_effect dir c me r ch)"
| refused: "(\<forall>me. owner ch c = Some me \<longrightarrow> \<not> live ch me) \<Longrightarrow> chat_does dir c r ch ch"
| entered: "dir (lr_username q) = Some u \<Longrightarrow> \<not> live ch u \<Longrightarrow> owner ch c = None \<Longrightarrow> (\<forall>d. owner ch d \<noteq> Some u) \<Longrightarrow>
    chat_does dir c (Login q) ch (enter c u ch)"

definition chat_serves :: "(bytes \<Rightarrow> uref option) \<Rightarrow> cref \<Rightarrow> request \<Rightarrow> chat \<Rightarrow> chat \<Rightarrow> bool" where
  "chat_serves dir c r ch ch' \<longleftrightarrow> (\<exists>ch1 rsp. chat_does dir c r ch ch1 \<and> ch' = replied c rsp ch1)"

section \<open>The relation\<close>

definition owner_of :: "'a proc_scheme \<Rightarrow> cref \<Rightarrow> uref option" where
  "owner_of s c = Option.bind (client_store s c) c_user"

definition online :: "'a proc_scheme \<Rightarrow> uref \<Rightarrow> bool" where
  "online s u \<longleftrightarrow> (\<exists>x. users s u = Some x \<and> session_live s x)"

definition blocked_by :: "'a proc_scheme \<Rightarrow> uref \<Rightarrow> uref set" where
  "blocked_by s u = (case users s u of None \<Rightarrow> {} | Some x \<Rightarrow> set (u_blocked x))"

definition stored :: "'a proc_scheme \<Rightarrow> uref \<Rightarrow> bytes" where
  "stored s u = (case users s u of None \<Rightarrow> [] | Some x \<Rightarrow> pending (u_buffer x))"

fun mail_bytes :: "pb_lib \<Rightarrow> (uref \<Rightarrow> bytes) \<Rightarrow> mail \<Rightarrow> bytes" where
  "mail_bytes pb nm (Said a b m) = encodeIMResponseToBytes pb
     (encodeTextResponseToIMResponseAndFree pb \<lparr>txt_msg = nm a @ '': '' @ m\<rparr> True)"
| "mail_bytes pb nm (Came u) = encodeIMResponseToBytes pb
     (encodeTextResponseToIMResponseAndFree pb \<lparr>txt_msg = nm u @ '' has logged in''\<rparr> True)"
| "mail_bytes pb nm (Gone u) = encodeIMResponseToBytes pb
     (encodeTextResponseToIMResponseAndFree pb \<lparr>txt_msg = nm u @ '' has logged out''\<rparr> True)"
| "mail_bytes pb nm (Note r) = encodeIMResponseToBytes pb r"

definition mails :: "pb_lib \<Rightarrow> (uref \<Rightarrow> bytes) \<Rightarrow> mail list \<Rightarrow> bytes" where
  "mails pb nm es = concat (map (mail_bytes pb nm) es)"

text \<open>Every byte of the mail is somewhere, in order, and there are no others: written, or lost with the record of
  a closed connection, or waiting.\<close>

definition carries :: "pb_lib \<Rightarrow> 'a proc_scheme \<Rightarrow> chat \<Rightarrow> bool" where
  "carries pb s ch \<longleftrightarrow> (\<forall>c. mails pb (name_of s) (wire ch c) = flown ch c @ spoilt ch c @ cout s c)
     \<and> (\<forall>c \<in> dom (client_store s). spoilt ch c = [])
     \<and> (\<forall>u. mails pb (name_of s) (stash ch u) = fetched ch u @ stored s u)
     \<and> (\<forall>c \<ge> next_client s. wire ch c = [])"

definition chat_rel :: "pb_lib \<Rightarrow> 'a proc_scheme \<Rightarrow> chat \<Rightarrow> bool" where
  "chat_rel pb s ch \<longleftrightarrow> owner ch = owner_of s \<and> live ch = online s \<and> blocks ch = blocked_by s
     \<and> carries pb s ch"

lemma mails_append [simp]: "mails pb nm (xs @ ys) = mails pb nm xs @ mails pb nm ys"
  by (simp add: mails_def)

lemma mails_simps [simp]: "mails pb nm [] = []" "mails pb nm (e # es) = mail_bytes pb nm e @ mails pb nm es"
  by (simp_all add: mails_def)

lemma owner_of_iff: "owner_of s c = Some u \<longleftrightarrow> (\<exists>cl. client_store s c = Some cl \<and> c_user cl = Some u)"
  by (auto simp: owner_of_def bind_eq_Some_conv)

lemma owner_of_link:
  assumes "heap_inv L s"
  shows "owner_of s c = Some u \<longleftrightarrow> (\<exists>x. users s u = Some x \<and> u_client x = Some c)"
  using heap_inv_user(5) [OF assms] heap_inv_client(5) [OF assms] by (fastforce simp: owner_of_iff)

lemma owner_of_users:
  assumes "heap_inv L s" and "heap_inv L' t" and "\<And>u. map_option u_client (users t u) = map_option u_client (users s u)"
  shows "owner_of t = owner_of s"
proof
  fix c
  have "owner_of t c = Some u \<longleftrightarrow> owner_of s c = Some u" for u
    unfolding owner_of_link [OF assms(1)] owner_of_link [OF assms(2)] using assms(3) [of u]
    by (cases "users s u"; cases "users t u") auto
  then show "owner_of t c = owner_of s c" by (metis not_None_eq)
qed

lemma online_logged: "owner_of s c = Some me \<and> online s me \<longleftrightarrow> (\<exists>x. logged s c me x)"
  by (auto simp: owner_of_iff online_def logged_def)

section \<open>Mail on its way\<close>

text \<open>The users are the same and have the same sessions and blocked lists.\<close>

definition same_people :: "'a proc_scheme \<Rightarrow> 'a proc_scheme \<Rightarrow> bool" where
  "same_people s t \<longleftrightarrow> owner_of t = owner_of s \<and> online t = online s \<and> blocked_by t = blocked_by s"

text \<open>The same bytes for everybody in \<open>G\<close>, and nothing for anybody else.\<close>

definition mailed :: "(uref \<Rightarrow> bool) \<Rightarrow> bytes \<Rightarrow> 'a proc_scheme \<Rightarrow> 'a proc_scheme \<Rightarrow> bool" where
  "mailed G bs s t \<longleftrightarrow> name_of t = name_of s \<and> next_client t = next_client s
     \<and> dom (client_store t) = dom (client_store s) \<and> (\<forall>c. cout t c = cout s c @ (case owner_of s c of None \<Rightarrow> [] | Some v \<Rightarrow> if G v \<and> online s v then bs else []))
     \<and> (\<forall>u. stored t u = stored s u @ (if G u \<and> \<not> online s u then bs else []))"

lemma owner_fresh: "srv_inv s \<Longrightarrow> next_client s \<le> c \<Longrightarrow> owner_of s c = None"
  using conns_okD(3) [OF srv_invD(3), of s c] by (cases "client_store s c") (auto simp: owner_of_def)

lemma carriesD:
  assumes "carries pb s ch"
  shows "mails pb (name_of s) (wire ch c) = flown ch c @ spoilt ch c @ cout s c"
    "client_store s c = Some cl \<Longrightarrow> spoilt ch c = []"
    "mails pb (name_of s) (stash ch u) = fetched ch u @ stored s u"
    "next_client s \<le> c \<Longrightarrow> wire ch c = []"
  using assms by (auto simp: carries_def)

lemma carries_upd [simp]:
  "carries pb s (ch\<lparr>owner := w\<rparr>) = carries pb s ch" "carries pb s (ch\<lparr>live := l\<rparr>) = carries pb s ch"
  "carries pb s (ch\<lparr>blocks := b\<rparr>) = carries pb s ch" "carries pb s (ch\<lparr>owner := w, live := l\<rparr>) = carries pb s ch"
  by (simp_all add: carries_def)

lemma post_fields [simp]:
  "owner (post P e ch) = owner ch" "live (post P e ch) = live ch" "blocks (post P e ch) = blocks ch"
  "flown (post P e ch) = flown ch" "spoilt (post P e ch) = spoilt ch" "fetched (post P e ch) = fetched ch"
  by (simp_all add: post_def)

lemma carries_mailed:
  assumes ch: "carries pb s ch" "owner ch = owner_of s" "live ch = online s" and inv: "srv_inv s"
    and m: "mailed G bs s t" and e: "\<And>v. G v \<Longrightarrow> mail_bytes pb (name_of s) (e v) = bs"
  shows "carries pb t (post G e ch)"
proof -
  let ?ch = "post G e ch" and ?m = "mails pb (name_of s)"
  have same: "name_of t = name_of s" "next_client t = next_client s" "dom (client_store t) = dom (client_store s)"
    using m by (simp_all add: mailed_def)
  have "?m (wire ?ch c) = flown ?ch c @ spoilt ?ch c @ cout t c" for c
    using carriesD(1) [OF ch(1), of c] m e by (auto simp: post_def mailed_def ch(2,3) split: option.split)
  moreover have "?m (stash ?ch u) = fetched ?ch u @ stored t u" for u
    using carriesD(3) [OF ch(1), of u] m e by (auto simp: post_def mailed_def ch(2,3))
  moreover have "wire ?ch c = []" if "next_client s \<le> c" for c
    using carriesD(4) [OF ch(1) that] owner_fresh [OF inv that] by (simp add: post_def ch(2))
  moreover have "\<forall>c \<in> dom (client_store s). spoilt ?ch c = []" using ch(1) by (simp add: carries_def)
  ultimately show ?thesis by (simp add: carries_def same)
qed

lemma chat_rel_mailed:
  assumes "chat_rel pb s ch" and "srv_inv s" and "mailed G bs s t" and "same_people s t"
    and "\<And>v. G v \<Longrightarrow> mail_bytes pb (name_of s) (e v) = bs"
  shows "chat_rel pb t (post G e ch)"
  using assms carries_mailed [of pb s ch G bs t e] by (simp add: chat_rel_def same_people_def)

text \<open>Nothing for anybody.\<close>

definition quiet :: "'a proc_scheme \<Rightarrow> 'a proc_scheme \<Rightarrow> bool" where
  "quiet s t \<longleftrightarrow> same_people s t \<and> mailed (\<lambda>_. False) [] s t"

lemma post_nobody: "post (\<lambda>_. False) e ch = ch"
  by (simp add: post_def cong: option.case_cong) (simp add: option.case_eq_if)

lemma quiet_mailed:
  "mailed (\<lambda>_. False) bs s t \<longleftrightarrow> name_of t = name_of s \<and> next_client t = next_client s
     \<and> dom (client_store t) = dom (client_store s)
     \<and> (\<forall>c. cout t c = cout s c) \<and> (\<forall>u. stored t u = stored s u)"
  by (simp add: mailed_def split: option.split) blast

lemma chat_rel_quiet: "chat_rel pb s ch \<Longrightarrow> srv_inv s \<Longrightarrow> quiet s t \<Longrightarrow> chat_rel pb t ch"
  using chat_rel_mailed [of pb s ch "\<lambda>_. False" "[]" t] by (simp add: quiet_def post_nobody)

lemma quiet_refl [simp]: "quiet s s"
  by (simp add: quiet_def same_people_def quiet_mailed)

text \<open>Output buffers are nothing one sees.\<close>

lemma buffers_only_people:
  assumes b: "buffers_only s t"
  shows "same_people s t" "name_of t = name_of s" "next_client t = next_client s"
proof -
  have *: "users t u = None \<and> users s u = None
      \<or> (\<exists>x b. users s u = Some x \<and> users t u = Some (x\<lparr>u_buffer := b\<rparr>))" for u
    using buffers_only_dom(1) [OF b] by (cases "users s u") (auto elim: buffers_only_user [OF b])
  have **: "client_store t c = None \<and> client_store s c = None
      \<or> (\<exists>k b. client_store s c = Some k \<and> client_store t c = Some (k\<lparr>c_outbuffer := b\<rparr>))" for c
    using buffers_only_dom(2) [OF b] by (cases "client_store s c") (auto elim: buffers_only_client [OF b])
  have "owner_of t c = owner_of s c" for c using ** [of c] by (auto simp: owner_of_def)
  moreover have "online t u = online s u" for u
    using * [of u] by (auto simp: online_def buffers_only_live [OF b])
  moreover have "blocked_by t u = blocked_by s u" for u using * [of u] by (auto simp: blocked_by_def)
  ultimately show "same_people s t" by (auto simp: same_people_def)
  show "name_of t = name_of s" 
  proof
    fix u
    show "name_of t u = name_of s u" using * [of u] by (auto simp: name_of_def)
  qed
  show "next_client t = next_client s" by (rule buffers_only_fields [OF b])
qed

lemma sent_user_mailed:
  assumes inv: "heap_inv L s" and x: "users s u = Some x" and t: "sent_user u bs s t"
  shows "mailed (\<lambda>v. v = u) bs s t" "same_people s t"
proof -
  have b: "buffers_only s t" using t by (simp add: sent_user_def)
  note people = buffers_only_people [OF b]
  show "same_people s t" by (rule people)
  have live: "session_live t y = session_live s y" for y by (simp add: buffers_only_live [OF b])
  obtain bx where xt: "users t u = Some (x\<lparr>u_buffer := bx\<rparr>)" using b x by (rule buffers_only_user)
  have out: "outbox t u = outbox s u @ bs" using t by (simp add: sent_user_def)
  have other: "users t v = users s v" if "v \<noteq> u \<or> session_live s x" for v
    using t x that by (auto simp: sent_user_def)
  have "cout t c = cout s c @ (case owner_of s c of None \<Rightarrow> [] | Some v \<Rightarrow> if v = u \<and> online s v then bs else [])" for c
  proof (cases "owner_of s c = Some u \<and> online s u")
    case True
    then have c: "u_client x = Some c" "session_live s x"
      using x by (auto simp: owner_of_link [OF inv] online_def)
    then have "cout t c = cout s c @ bs" using out x other [of u] live by (simp add: outbox_def)
    with True show ?thesis by simp
  next
    case False
    then have "\<not> (session_live s x \<and> u_client x = Some c)" using x by (auto simp: owner_of_link [OF inv] online_def)
    then have "client_store t c = client_store s c" using t x by (auto simp: sent_user_def)
    then have "cout t c = cout s c" by (simp add: cout_def)
    with False show ?thesis by (auto split: option.split)
  qed
  moreover have "stored t v = stored s v @ (if v = u \<and> \<not> online s v then bs else [])" for v
  proof (cases "v = u \<and> \<not> online s v")
    case True
    then have "\<not> session_live s x" using x by (auto simp: online_def)
    moreover from this have "\<not> session_live t (x\<lparr>u_buffer := bx\<rparr>)" using live [of "x\<lparr>u_buffer := bx\<rparr>"]
      by (simp add: session_live_def)
    ultimately have "stored t u = stored s u @ bs"
      using out x xt by (simp add: outbox_def stored_def split: option.splits)
    with True show ?thesis by auto
  next
    case False
    then have "users t v = users s v" using x by (intro other) (auto simp: online_def)
    then have "stored t v = stored s v" by (simp add: stored_def)
    with False show ?thesis by auto
  qed
  ultimately show "mailed (\<lambda>v. v = u) bs s t" using people buffers_only_dom(2) [OF b] by (simp add: mailed_def)
qed

lemma cout_told_owner:
  assumes "heap_inv L s" and "\<And>v. G v \<Longrightarrow> online s v"
  shows "cout_told G bs s c = cout s c @ (case owner_of s c of None \<Rightarrow> [] | Some v \<Rightarrow> if G v \<and> online s v then bs else [])"
proof (cases "\<exists>v. G v \<and> owner_of s c = Some v")
  case True
  then obtain v where v: "G v" "owner_of s c = Some v" by blast
  then have "\<exists>v x. G v \<and> users s v = Some x \<and> u_client x = Some c"
    by (auto simp: owner_of_link [OF assms(1)])
  with v assms(2) show ?thesis by (simp add: cout_told_def)
next
  case False
  then have "\<not> (\<exists>v x. G v \<and> users s v = Some x \<and> u_client x = Some c)"
    by (auto simp: owner_of_link [OF assms(1)])
  with False show ?thesis unfolding cout_told_def by (auto split: option.split)
qed

lemma told_mailed:
  assumes inv: "heap_inv L s" and t: "told G bs s t" and live: "\<And>v. G v \<Longrightarrow> online s v"
  shows "mailed G bs s t" "same_people s t"
proof -
  have b: "buffers_only s t" using t by (simp add: told_def)
  note people = buffers_only_people [OF b]
  show "same_people s t" by (rule people)
  have "cout t c = cout_told G bs s c" for c
    using t by (rule told_cout) (use live in \<open>auto simp: online_def\<close>)
  moreover have "stored t u = stored s u @ (if G u \<and> \<not> online s u then bs else [])" for u
    using t live by (cases "G u") (simp_all add: told_def stored_def)
  ultimately show "mailed G bs s t"
    using people buffers_only_dom(2) [OF b] unfolding mailed_def by (simp only: cout_told_owner [OF inv live] simp_thms)
qed

lemma chat_rel_replied:
  assumes rel: "chat_rel pb s ch" and inv: "srv_inv s" and cl: "client_store s c = Some cl"
    and t: "respond pb c rsp s = Some t"
  shows "chat_rel pb t (replied c rsp ch)"
proof (cases rsp)
  case None
  with rel t show ?thesis by (simp add: respond_def replied_def)
next
  case (Some m)
  from send_response_to_client_spec [OF srv_invD(1) [OF inv] cl, of pb m] t Some have
    s: "sent_client c (encodeIMResponseToBytes pb m) s t" by (auto simp: respond_def)
  then have b: "buffers_only s t" by (simp add: sent_client_def)
  note people = buffers_only_people [OF b]
  have c: "c < next_client s" using conns_okD(3) [OF srv_invD(3) [OF inv], of c] cl by auto
  have ch: "carries pb s ch" using rel by (simp add: chat_rel_def)
  have "carries pb t (ch\<lparr>wire := (wire ch)(c := wire ch c @ [Note m])\<rparr>)"
    unfolding carries_def people(2,3) buffers_only_dom(2) [OF b]
  proof (intro conjI allI impI ballI)
    fix d
    have "cout t d = cout s d @ (if d = c then encodeIMResponseToBytes pb m else [])"
      using s by (auto simp: sent_client_def cout_def)
    with carriesD(1) [OF ch, of d] show "mails pb (name_of s) (wire (ch\<lparr>wire := (wire ch)(c := wire ch c @ [Note m])\<rparr>) d) =
        flown (ch\<lparr>wire := (wire ch)(c := wire ch c @ [Note m])\<rparr>) d @ spoilt (ch\<lparr>wire := (wire ch)(c := wire ch c @ [Note m])\<rparr>) d @ cout t d"
      by (cases "d = c") simp_all
  next
    fix u
    show "mails pb (name_of s) (stash (ch\<lparr>wire := (wire ch)(c := wire ch c @ [Note m])\<rparr>) u) =
        fetched (ch\<lparr>wire := (wire ch)(c := wire ch c @ [Note m])\<rparr>) u @ stored t u"
      using carriesD(3) [OF ch, of u] s by (auto simp: sent_client_def stored_def)
  qed (use c ch in \<open>auto simp: carries_def\<close>)
  then show ?thesis
    using rel people(1) by (simp add: chat_rel_def replied_def Some same_people_def)
qed

end
