(* ===== verification/Refine.thy ===== *)
theory Refine
  imports Chat
begin

text \<open>
  The simulation of the chat by the server: every handler, then the dispatcher and the response, then
  whole runs of requests over any connections.
\<close>

section \<open>Steps nobody sees\<close>

text \<open>Whoever is touched now is not idle: the idle time is positive and does not overflow.\<close>

definition clock_ok :: "'a proc_scheme \<Rightarrow> bool" where
  "clock_ok s \<longleftrightarrow> now s < int32 (now s + login_timeout (udb s))"

definition same_world :: "'a proc_scheme \<Rightarrow> 'a proc_scheme \<Rightarrow> bool" where
  "same_world s t \<longleftrightarrow> udb t = udb s \<and> now t = now s \<and> name_of t = name_of s"

lemma same_world_refl [simp]: "same_world s s"
  by (simp add: same_world_def)

lemma same_world_trans: "same_world r s \<Longrightarrow> same_world s t \<Longrightarrow> same_world r t"
  by (simp add: same_world_def)

lemma same_worldD:
  assumes "same_world s t"
  shows "findUser t = findUser s" "clock_ok t = clock_ok s" "name_of t = name_of s"
  using assms by (auto simp: same_world_def findUser_def clock_ok_def)

lemma quiet_put_user:
  assumes "users s u = Some x" and "u_username y = u_username x" and "u_client y = u_client x"
    and "session_live s y = session_live s x" and "u_blocked y = u_blocked x" and "u_buffer y = u_buffer x"
  shows "quiet s (put_user u y s)" "same_world s (put_user u y s)"
proof -
  let ?t = "put_user u y s"
  have live: "session_live ?t z = session_live s z" for z by (simp add: session_live_def heap_simps)
  have "owner_of ?t = owner_of s" by (simp add: owner_of_def heap_simps fun_eq_iff)
  moreover have "online ?t = online s" using assms(1,4) by (auto simp: online_def heap_simps live fun_eq_iff)
  moreover have "blocked_by ?t = blocked_by s" using assms(1,5) by (auto simp: blocked_by_def heap_simps fun_eq_iff)
  moreover have n: "name_of ?t = name_of s" using assms(1,2) by (auto simp: name_of_def heap_simps fun_eq_iff)
  moreover have "stored ?t v = stored s v" for v using assms(1,6) by (simp add: stored_def heap_simps)
  moreover have "cout ?t c = cout s c" for c by (simp add: cout_def heap_simps)
  moreover have "dom (client_store ?t) = dom (client_store s)" by (simp add: heap_simps)
  ultimately show "quiet s ?t" by (simp add: quiet_def same_people_def quiet_mailed heap_simps)
  show "same_world s ?t" using n by (simp add: same_world_def heap_simps)
qed

lemma quiet_users:
  assumes "users t = users s" and "\<And>c. cout t c = cout s c"
    and "\<And>c. map_option c_user (client_store t c) = map_option c_user (client_store s c)"
    and "udb t = udb s" and "now t = now s" and "next_client t = next_client s"
  shows "quiet s t" "same_world s t"
proof -
  have c: "owner_of t c = owner_of s c" "c \<in> dom (client_store t) \<longleftrightarrow> c \<in> dom (client_store s)" for c
    using assms(3) [of c] by (cases "client_store s c"; cases "client_store t c"; auto simp: owner_of_def)+
  have "owner_of t = owner_of s" "dom (client_store t) = dom (client_store s)" by (rule ext, rule c(1)) (rule set_eqI, rule c(2))
  moreover have "online t = online s" by (simp add: online_def assms session_live_def fun_eq_iff)
  moreover have "blocked_by t = blocked_by s" "name_of t = name_of s"
    by (simp_all add: blocked_by_def name_of_def assms(1) fun_eq_iff)
  ultimately show "quiet s t" "same_world s t"
    using assms by (simp_all add: quiet_def same_people_def quiet_mailed stored_def same_world_def)
qed

lemma quiet_chunks:
  assumes "chunks_added c ks s t"
  shows "quiet s t" "same_world s t"
proof -
  have "map_option c_user (client_store t d) = map_option c_user (client_store s d)" for d
    using assms by (cases "d = c") (simp_all add: chunks_added_def)
  with assms show "quiet s t" "same_world s t" by (auto simp: chunks_added_def intro: quiet_users)
qed

lemma quiet_put_input:
  assumes "client_store s c = Some cl"
  shows "quiet s (put_client c (cl\<lparr>c_inbuffer := b\<rparr>) s)" "same_world s (put_client c (cl\<lparr>c_inbuffer := b\<rparr>) s)"
  using assms by (auto simp: heap_simps cout_def intro!: quiet_users)

section \<open>What a request does\<close>

abbreviation does :: "pb_lib \<Rightarrow> server \<Rightarrow> cref \<Rightarrow> request \<Rightarrow> chat \<Rightarrow> IMResponse option \<times> server \<Rightarrow> bool" where
  "does pb s c r ch \<equiv> \<lambda>(rsp, t). same_world s t
     \<and> (\<exists>ch1. chat_does (findUser s) c r ch ch1 \<and> chat_rel pb t ch1)"

text \<open>A request that has no effect on the chat.\<close>

lemma does_quiet:
  assumes "chat_rel pb s ch" and "srv_inv s" and "chat_does (findUser s) c r ch ch"
    and "returns res (\<lambda>(rsp, t). quiet s t \<and> same_world s t)"
  shows "returns res (does pb s c r ch)"
  using assms(4) by (rule returns_mono) (use assms(1-3) chat_rel_quiet in blast)

text \<open>The user who asks, seen from the chat.\<close>

lemma rel_logged:
  assumes "chat_rel pb s ch" and "srv_inv s" and "logged s c me x"
  shows "owner ch c = Some me" "live ch me" "blocks ch me = set (u_blocked x)" "name_of s me = u_username x"
proof -
  have o: "owner_of s c = Some me \<and> online s me" using assms(3) online_logged by blast
  show "owner ch c = Some me" "live ch me" using o assms(1) by (simp_all add: chat_rel_def)
  show "blocks ch me = set (u_blocked x)" "name_of s me = u_username x"
    using assms(1) logged_user(1) [OF assms(2,3)] by (simp_all add: chat_rel_def blocked_by_def name_of_def)
qed

lemma rel_unlogged:
  assumes "chat_rel pb s ch" and "\<nexists>me x. logged s c me x"
  shows "\<forall>me. owner ch c = Some me \<longrightarrow> \<not> live ch me"
proof -
  have "\<not> (owner_of s c = Some me \<and> online s me)" for me using assms(2) online_logged by blast
  then show ?thesis using assms(1) by (auto simp: chat_rel_def)
qed

lemma message_does:
  assumes rel: "chat_rel pb s ch" and inv: "srv_inv s" and me: "logged s c me x"
  shows "returns (cmd_message_impl pb s c q) (does pb s c (Message q) ch)"
proof -
  note r = rel_logged [OF rel inv me]
  let ?e = "\<lambda>v. Said me v (cstr (mr_msg q))"
  have bs: "mail_bytes pb (name_of s) (?e v) = message_bytes pb x (mr_msg q)" for v
    by (simp add: r(4) message_bytes_def)
  have ch: "live ch = online s" "blocks ch = blocked_by s" using rel by (simp_all add: chat_rel_def)
  show ?thesis
  proof (cases "mr_broadcast q")
    case True
    let ?G = "gets_broadcast s me"
    have G: "(\<lambda>v. v \<noteq> me \<and> live ch v \<and> me \<notin> blocks ch v) = ?G"
      by (auto simp: ch gets_broadcast_def online_def blocked_by_def fun_eq_iff)
    have "chat_does (findUser s) c (Message q) ch (post ?G ?e ch)"
      using chat_does.asked [OF r(1,2), of "findUser s" "Message q"] True by (simp add: G)
    moreover have "chat_rel pb t (post ?G ?e ch) \<and> same_world s t"
      if t: "told ?G (message_bytes pb x (mr_msg q)) s t" for t
    proof -
      note m = told_mailed [OF srv_invD(1) [OF inv] t]
      have m': "mailed ?G (message_bytes pb x (mr_msg q)) s t" "same_people s t"
        using m by (auto simp: gets_broadcast_def online_def)
      moreover have "chat_rel pb t (post ?G ?e ch)" using rel inv m' bs by (rule chat_rel_mailed)
      moreover have "udb t = udb s" "now t = now s" using t by (auto simp: told_def buffers_only_fields)
      ultimately show ?thesis by (simp add: same_world_def mailed_def)
    qed
    ultimately show ?thesis using cmd_message_broadcast [OF inv me True, of pb] by (elim returns_mono) auto
  next
    case False
    note asked = chat_does.asked [OF r(1,2), of "findUser s" "Message q"] and direct = cmd_message_direct [OF inv me False]
    show ?thesis
    proof (cases "findUser s (mr_username q)")
      case None
      with False asked rel direct(1) show ?thesis by (auto simp: text_reply_def)
    next
      case (Some u)
      from findUser_SomeD [OF srv_invD(5) [OF inv] this] obtain y where y: "users s u = Some y" by blast
      then have b: "blocks ch u = set (u_blocked y)" by (simp add: ch blocked_by_def)
      show ?thesis
      proof (cases "me \<in> set (u_blocked y)")
        case True
        with False Some asked rel direct(2) [OF Some y] b show ?thesis by (auto simp: text_reply_def)
      next
        case nb: False
        have "chat_does (findUser s) c (Message q) ch (post (\<lambda>v. v = u) ?e ch)"
          using asked False Some nb b by simp
        moreover have "chat_rel pb t (post (\<lambda>v. v = u) ?e ch) \<and> same_world s t"
          if t: "sent_user u (message_bytes pb x (mr_msg q)) s t" for t
        proof -
          note m = sent_user_mailed [OF srv_invD(1) [OF inv] y t]
          have "chat_rel pb t (post (\<lambda>v. v = u) ?e ch)" using rel inv m bs by (rule chat_rel_mailed)
          moreover have "udb t = udb s" "now t = now s" using t by (auto simp: sent_user_def buffers_only_fields)
          ultimately show ?thesis using m(1) by (simp add: same_world_def mailed_def)
        qed
        ultimately show ?thesis using direct(3) [OF Some y nb, of pb] by (elim returns_mono) auto
      qed
    qed
  qed
qed

text \<open>A blocked list.\<close>

lemma rel_blocks:
  assumes rel: "chat_rel pb s ch" and x: "users s me = Some x"
  shows "chat_rel pb (put_user me (x\<lparr>u_blocked := bl\<rparr>) s) (ch\<lparr>blocks := (blocks ch)(me := set bl)\<rparr>)"
    "same_world s (put_user me (x\<lparr>u_blocked := bl\<rparr>) s)"
proof -
  let ?t = "put_user me (x\<lparr>u_blocked := bl\<rparr>) s"
  have live: "session_live ?t z = session_live s z" for z by (simp add: session_live_def heap_simps)
  have "session_live s (x\<lparr>u_blocked := bl\<rparr>) = session_live s x" by (simp add: session_live_def)
  then have "online ?t = online s" using x by (auto simp: online_def heap_simps live fun_eq_iff)
  moreover have "owner_of ?t = owner_of s" by (simp add: owner_of_def heap_simps fun_eq_iff)
  moreover have "blocked_by ?t = (blocked_by s)(me := set bl)" by (simp add: blocked_by_def heap_simps fun_eq_iff)
  moreover have n: "name_of ?t = name_of s" using x by (auto simp: name_of_def heap_simps fun_eq_iff)
  moreover have "stored ?t v = stored s v" "cout ?t c = cout s c" for v c
    using x by (simp_all add: stored_def cout_def heap_simps)
  then have "carries pb ?t ch' = carries pb s ch'" for ch' by (simp add: carries_def n heap_simps)
  ultimately show "chat_rel pb ?t (ch\<lparr>blocks := (blocks ch)(me := set bl)\<rparr>)"
    using rel by (simp add: chat_rel_def)
  show "same_world s ?t" using n by (simp add: same_world_def heap_simps)
qed

lemma block_does:
  assumes rel: "chat_rel pb s ch" and inv: "srv_inv s" and me: "logged s c me x"
  shows "returns (cmd_block_impl pb s c q) (does pb s c (Block q) ch)"
    "returns (cmd_unblock_impl pb s c uq) (does pb s c (UnBlock uq) ch)"
proof -
  note r = rel_logged [OF rel inv me] and x = logged_user(1) [OF inv me]
  note asked = chat_does.asked [OF r(1,2), of "findUser s"]
  have same: "ch\<lparr>blocks := (blocks ch)(me := set (u_blocked x))\<rparr> = ch" using r(3) by (simp add: fun_upd_idem)
  note ok = heap_inv_user [OF srv_invD(1) [OF inv] x]
  obtain m k bl where a: "block_answer (cstr (br_username q)) (findUser s (br_username q)) me (u_blocked x) = (m, k, bl)"
    by (metis prod_cases3)
  have "chat_effect (findUser s) c me (Block q) ch = ch\<lparr>blocks := (blocks ch)(me := set bl)\<rparr>"
    using a same r(3) by (auto simp: block_answer_def insert_absorb split: option.splits if_splits)
  then show "returns (cmd_block_impl pb s c q) (does pb s c (Block q) ch)"
    using cmd_block_spec [OF inv me, where req = q and pb = pb] a asked [of "Block q"] rel_blocks [OF rel x, of bl]
    by (auto simp: text_reply_def)
  obtain m k bl where a: "unblock_answer (cstr (ubr_username uq)) (findUser s (ubr_username uq)) me (u_blocked x) = (m, k, bl)"
    by (metis prod_cases3)
  have "chat_effect (findUser s) c me (UnBlock uq) ch = ch\<lparr>blocks := (blocks ch)(me := set bl)\<rparr>"
    using a same r(3) ok(2) by (auto simp: unblock_answer_def split: option.splits if_splits)
  then show "returns (cmd_unblock_impl pb s c uq) (does pb s c (UnBlock uq) ch)"
    using cmd_unblock_spec [OF inv me, where req = uq and pb = pb] a asked [of "UnBlock uq"] rel_blocks [OF rel x, of bl]
    by (auto simp: text_reply_def)
qed

text \<open>The questions, and the registrations of files and chunks.\<close>

lemma others_quiet:
  assumes inv: "srv_inv s" and me: "logged s c me x" and adm: "admissible s c r"
    and r: "(\<exists>q. r = WhoElse q) \<or> (\<exists>q. r = GetIP q) \<or> (\<exists>q. r = SearchFile q) \<or> (\<exists>q. r = RegisterFile q)
      \<or> (\<exists>q. r = RegisterChunk q)"
  shows "returns (request_run pb s c r) (\<lambda>(rsp, t). quiet s t \<and> same_world s t)"
proof -
  obtain cl where cl: "client_store s c = Some cl" using me by (auto simp: logged_def)
  consider q where "r = WhoElse q" | q where "r = GetIP q" | q where "r = SearchFile q"
    | q where "r = RegisterFile q" | q where "r = RegisterChunk q" using r by blast
  then show ?thesis
  proof cases
    case (1 q)
    then show ?thesis by (simp add: cmd_whoelse_spec [OF inv me] text_reply_def Let_def)
  next
    case (2 q)
    then show ?thesis by (simp add: cmd_getip_spec [OF inv me] text_reply_def Let_def split: option.split)
  next
    case (3 q)
    show ?thesis
    proof (cases "findFile (file_root s) (sfr_filename q)")
      case None
      with 3 show ?thesis by (simp add: cmd_searchfile_impl_def require_login_ok [OF me] text_reply_def Let_def)
    next
      case (Some f)
      with 3 cmd_searchfile_spec [OF inv me Some, of pb] show ?thesis by (simp add: text_reply_def)
    qed
  next
    case (4 q)
    show ?thesis
    proof (cases "find_range (file_root s) (cstr (rfr_filename q))")
      case None
      from 4 cmd_regfile_new [OF inv me cl None, of pb] adm cl show ?thesis
        by (auto intro: quiet_chunks elim!: returns_mono)
    next
      case (Some w)
      from 4 cmd_regfile_taken [OF inv me Some, of pb] show ?thesis
        by (auto simp: cout_def intro: quiet_users elim!: returns_mono)
    qed
  next
    case (5 q)
    note spec = cmd_regchunk_spec [OF inv me cl, where req = q and pb = pb]
    show ?thesis
    proof (cases "findFile (file_root s) (rcr_filename q)")
      case None
      with 5 spec(1) show ?thesis by (simp add: text_reply_def)
    next
      case (Some f)
      from 5 spec(2) [OF Some] adm cl show ?thesis by (auto intro: quiet_chunks elim!: returns_mono)
    qed
  qed
qed

lemma others_does:
  assumes "chat_rel pb s ch" and "srv_inv s" and "logged s c me x" and "admissible s c r"
    and r: "(\<exists>q. r = WhoElse q) \<or> (\<exists>q. r = GetIP q) \<or> (\<exists>q. r = SearchFile q) \<or> (\<exists>q. r = RegisterFile q)
      \<or> (\<exists>q. r = RegisterChunk q)"
  shows "returns (request_run pb s c r) (does pb s c r ch)"
proof (rule does_quiet [OF assms(1,2)])
  have "chat_effect (findUser s) c me r ch = ch" using r by auto
  with chat_does.asked [OF rel_logged(1,2) [OF assms(1-3)], of "findUser s" r]
  show "chat_does (findUser s) c r ch ch" by simp
  show "returns (request_run pb s c r) (\<lambda>(rsp, t). quiet s t \<and> same_world s t)"
    using assms(2-5) by (rule others_quiet)
qed

text \<open>Coming and going.\<close>

lemma audience_hears:
  assumes "chat_rel pb s ch" and "users s u = Some x"
  shows "audience u ch = hears s u"
  using assms by (auto simp: chat_rel_def audience_def hears_def online_def blocked_by_def fun_eq_iff)

lemma mailed_told:
  assumes inv: "heap_inv L s" and "name_of t = name_of s" and "next_client t = next_client s"
    and "dom (client_store t) = dom (client_store s)" and "\<And>c. cout t c = cout_told (hears s u) bs s c" and "\<And>v. stored t v = stored s v"
  shows "mailed (hears s u) bs s t"
proof -
  have live: "online s v" if "hears s u v" for v using hears_live [OF that] by (simp add: online_def)
  show ?thesis
    using assms(2-6) live by (auto simp: mailed_def cout_told_owner [OF inv, of "hears s u", OF live])
qed

lemma leave_rel:
  assumes rel: "chat_rel pb s ch" and inv: "srv_inv s" and x: "users s u = Some x" "u_client x = Some c"
    and t: "srv_inv t" "net_frame s t" "users t = (users s)(u \<mapsto> x\<lparr>u_client := None\<rparr>)"
      "\<And>d. cout t d = cout_told (hears s u) (logout_notice pb x) s d"
  shows "chat_rel pb t (leave c u ch)" "same_world s t"
proof -
  have g: "udb t = udb s" "now t = now s" "next_client t = next_client s" using t(2) by (simp_all add: net_frame_def)
  have live: "session_live t z = session_live s z" for z by (simp add: session_live_def g)
  have n: "name_of t = name_of s" using t(3) x(1) by (auto simp: name_of_def fun_eq_iff)
  then show "same_world s t" using g by (simp add: same_world_def)
  have "stored t v = stored s v" for v using t(3) x(1) by (simp add: stored_def)
  with mailed_told [OF srv_invD(1) [OF inv] n g(3) net_frame_dom(2) [OF t(2)]] t(4)
  have m: "mailed (hears s u) (logout_notice pb x) s t" by blast
  have "mail_bytes pb (name_of s) (Gone u) = logout_notice pb x" using x(1) by (simp add: name_of_def logout_notice_def)
  with carries_mailed [of pb s ch "hears s u" _ t "\<lambda>_. Gone u", OF _ _ _ inv m] rel
  have "carries pb t (leave c u ch)"
    by (simp add: chat_rel_def leave_def audience_hears [OF rel x(1)])
  moreover have "owner_of t = (owner_of s)(c := None)"
  proof
    fix d
    note link = owner_of_link [OF srv_invD(1) [OF inv]]
    have "owner_of s d = Some u \<longleftrightarrow> d = c" "owner_of s c = Some u" unfolding link using x by auto
    moreover have "owner_of t d = Some v \<longleftrightarrow> v \<noteq> u \<and> owner_of s d = Some v" for v
      unfolding owner_of_link [OF srv_invD(1) [OF t(1)]] link t(3) by auto
    ultimately have "owner_of t d = Some v \<longleftrightarrow> ((owner_of s)(c := None)) d = Some v" for v by auto
    then show "owner_of t d = ((owner_of s)(c := None)) d" by (metis not_None_eq)
  qed
  moreover have "online t = (online s)(u := False)"
    by (auto simp: online_def t(3) live fun_eq_iff) (auto simp: session_live_def)
  moreover have "blocked_by t = blocked_by s" using t(3) x(1) by (auto simp: blocked_by_def fun_eq_iff)
  ultimately show "chat_rel pb t (leave c u ch)" using rel by (simp add: chat_rel_def leave_def)
qed

lemma logout_does:
  assumes rel: "chat_rel pb s ch" and inv: "srv_inv s" and me: "logged s c me x"
  shows "returns (cmd_logout_impl pb s c ()) (does pb s c LogOut ch)"
proof -
  note r = rel_logged [OF rel inv me] and x = logged_user [OF inv me]
  have "chat_does (findUser s) c LogOut ch (leave c me ch)"
    using chat_does.asked [OF r(1,2), of "findUser s" LogOut] by simp
  with cmd_logout_spec [OF inv me, of pb "()"] show ?thesis
    by (elim returns_mono) (use leave_rel [OF rel inv x(1,3)] in auto)
qed

text \<open>Whoever asks, a request without effect is idle.\<close>

lemma chat_idle:
  assumes "\<And>me. chat_effect dir c me r ch = ch"
  shows "chat_does dir c r ch ch"
proof (cases "\<exists>me. owner ch c = Some me \<and> live ch me")
  case True
  then obtain me where "owner ch c = Some me" "live ch me" by blast
  from chat_does.asked [OF this, of dir r] show ?thesis by (simp add: assms)
next
  case False
  then show ?thesis by (intro chat_does.refused) auto
qed

lemma enter_rel:
  assumes rel: "chat_rel pb s ch" and inv: "srv_inv s" and x: "users s u = Some x" "u_client x = None"
    and free: "owner_of s c = None" and clock: "clock_ok s" and name: "u_username x = cstr n"
    and t: "srv_inv t" "users t = (users s)(u \<mapsto> (after_login s x)\<lparr>u_client := Some c\<rparr>)"
      "\<And>d. cout t d = cout_told (hears s u) (login_notice pb n) s d"
      "udb t = udb s" "now t = now s" "next_client t = next_client s" "dom (client_store t) = dom (client_store s)"
  shows "chat_rel pb t (enter c u ch)" "same_world s t"
proof -
  have live: "session_live t z = session_live s z" for z by (simp add: session_live_def t(4,5))
  have nm: "name_of t = name_of s" using t(2) x(1) by (auto simp: name_of_def fun_eq_iff)
  then show "same_world s t" using t(4,5) by (simp add: same_world_def)
  have "stored t v = stored s v" for v using t(2) x(1) by (simp add: stored_def after_login_def)
  with mailed_told [OF srv_invD(1) [OF inv] nm t(6,7)] t(3)
  have m: "mailed (hears s u) (login_notice pb n) s t" by blast
  have "mail_bytes pb (name_of s) (Came u) = login_notice pb n"
    using x(1) name by (simp add: name_of_def login_notice_def)
  with carries_mailed [of pb s ch "hears s u" _ t "\<lambda>_. Came u", OF _ _ _ inv m] rel
  have "carries pb t (enter c u ch)"
    by (simp add: chat_rel_def enter_def audience_hears [OF rel x(1)])
  moreover have "owner_of t = (owner_of s)(c := Some u)"
  proof
    fix d
    note link = owner_of_link [OF srv_invD(1) [OF inv]]
    have "owner_of s d \<noteq> Some u" unfolding link using x by auto
    moreover have "owner_of t d = Some v \<longleftrightarrow> (if v = u then d = c else owner_of s d = Some v)" for v
      unfolding owner_of_link [OF srv_invD(1) [OF t(1)]] link t(2) by (auto simp: after_login_def)
    ultimately have "owner_of t d = Some v \<longleftrightarrow> ((owner_of s)(c := Some u)) d = Some v" for v using free by auto
    then show "owner_of t d = ((owner_of s)(c := Some u)) d" by (metis not_None_eq)
  qed
  moreover have "online t = (online s)(u := True)"
    using clock by (auto simp: online_def t(2) live fun_eq_iff)
      (auto simp: session_live_def clock_ok_def after_login_def)
  moreover have "blocked_by t = blocked_by s"
    using t(2) x(1) by (auto simp: blocked_by_def after_login_def fun_eq_iff)
  ultimately show "chat_rel pb t (enter c u ch)" using rel by (simp add: chat_rel_def enter_def)
qed

lemma login_does:
  assumes rel: "chat_rel pb s ch" and inv: "srv_inv s" and cl: "client_store s c = Some cl"
    and adm: "admissible s c (Login q)" and clock: "clock_ok s"
  shows "returns (cmd_login_impl pb s c q) (does pb s c (Login q) ch)"
proof -
  have idle: "chat_does (findUser s) c (Login q) ch ch" by (rule chat_idle) simp
  note quiet = does_quiet [OF rel inv idle]
  show ?thesis
  proof (cases "findUser s (lr_username q)")
    case None
    show ?thesis by (rule quiet) (simp add: cmd_login_refused(1) [OF inv None] exit_reply_def)
  next
    case (Some u)
    from findUser_SomeD [OF srv_invD(5) [OF inv] this] obtain x where
      x: "users s u = Some x" "u_username x = cstr (lr_username q)" by blast
    note refused = cmd_login_refused(2-4) [OF inv Some x(1)]
    consider "now s < u_last_blocked x" | "\<not> now s < u_last_blocked x" "u_password x \<noteq> cstr (lr_password q)"
      | "\<not> now s < u_last_blocked x" "u_password x = cstr (lr_password q)" "session_live s x"
      | "\<not> now s < u_last_blocked x" "u_password x = cstr (lr_password q)" "\<not> session_live s x" by blast
    then show ?thesis
    proof cases
      case 1
      then show ?thesis by (intro quiet) (simp add: refused(1) exit_reply_def)
    next
      case 2
      have "session_live s (after_wrong s x) = session_live s x"
        "u_blocked (after_wrong s x) = u_blocked x" "u_buffer (after_wrong s x) = u_buffer x"
        by (simp_all add: session_live_def after_wrong_def)
      with quiet_put_user [OF x(1), of "after_wrong s x"] 2 show ?thesis
        by (intro quiet) (simp add: refused(2) exit_reply_def)
    next
      case 3
      then show ?thesis by (intro quiet) (simp add: refused(3) exit_reply_def)
    next
      case 4
      with adm Some x cl have ok: "u_client x = None" "c_user cl = None" "c_fd cl \<in> open_fds s" by auto
      have free: "owner_of s c = None" using cl ok(2) by (simp add: owner_of_def)
      have "owner_of s d \<noteq> Some u" for d unfolding owner_of_link [OF srv_invD(1) [OF inv]] using x(1) ok(1) by auto
      moreover have "\<not> online s u" using 4(3) x(1) by (simp add: online_def)
      ultimately have does: "chat_does (findUser s) c (Login q) ch (enter c u ch)"
        using rel free Some by (intro chat_does.entered) (auto simp: chat_rel_def)
      from cmd_login_accepted [OF inv Some x(1) 4(1,2) ok(1) cl ok(2,3), of pb] does show ?thesis
        by (elim returns_mono) (use enter_rel [OF rel inv x(1) ok(1) free clock x(2)] in auto)
    qed
  qed
qed

lemma request_run_unlogged:
  assumes "srv_inv s" and "client_store s c = Some cl" and "\<nexists>me x. logged s c me x" and "\<nexists>q. r = Login q"
  shows "request_run pb s c r = text_reply pb ''You are not logged in'' False s"
  using require_login_no [OF assms(1-3)] assms(4)
  by (cases r) (auto simp: cmd_message_impl_def cmd_whoelse_impl_def cmd_block_impl_def cmd_unblock_impl_def
      cmd_logout_impl_def cmd_getip_impl_def cmd_regfile_impl_def cmd_regchunk_impl_def cmd_searchfile_impl_def)

lemma request_run_does:
  assumes rel: "chat_rel pb s ch" and inv: "srv_inv s" and cl: "client_store s c = Some cl"
    and adm: "admissible s c r" and clock: "clock_ok s"
  shows "returns (request_run pb s c r) (does pb s c r ch)"
proof (cases "\<exists>q. r = Login q")
  case True
  then obtain q where q: "r = Login q" by blast
  show ?thesis unfolding q request_run.simps using rel inv cl adm [unfolded q] clock by (rule login_does)
next
  case nl: False
  show ?thesis
  proof (cases "\<exists>me x. logged s c me x")
    case True
    then obtain me x where me: "logged s c me x" by blast
    show ?thesis
    proof (cases r)
      case (Message q)
      show ?thesis unfolding Message request_run.simps using rel inv me by (rule message_does)
    next
      case (Block q)
      show ?thesis unfolding Block request_run.simps using rel inv me by (rule block_does)
    next
      case (UnBlock q)
      show ?thesis unfolding UnBlock request_run.simps using rel inv me by (rule block_does)
    next
      case LogOut
      show ?thesis unfolding LogOut request_run.simps using rel inv me by (rule logout_does)
    next
      case (Login q)
      with nl show ?thesis by simp
    qed (rule others_does [OF rel inv me adm], simp)+
  next
    case False
    have "chat_does (findUser s) c r ch ch" by (rule chat_does.refused [OF rel_unlogged [OF rel False]])
    with rel request_run_unlogged [OF inv cl False nl, of pb] show ?thesis by (auto simp: text_reply_def)
  qed
qed

section \<open>One request\<close>

lemma refresh_quiet:
  assumes inv: "srv_inv s" and cl: "client_store s c = Some cl" and clock: "clock_ok s"
  shows "returns (refresh c (rsp, s)) (\<lambda>(t, rsp'). rsp' = rsp \<and> quiet s t \<and> same_world s t)"
proof (cases "c_user cl")
  case None
  with cl show ?thesis by (simp add: refresh_def)
next
  case (Some u)
  with heap_inv_client(5) [OF srv_invD(1) [OF inv] cl, of u] obtain x where x: "users s u = Some x" by auto
  let ?x = "x\<lparr>u_last_active := now s\<rparr>"
  have "quiet s (put_user u ?x s)" "same_world s (put_user u ?x s)" if "session_live s x"
  proof -
    have "session_live s ?x = session_live s x" using that clock by (auto simp: session_live_def clock_ok_def)
    then show "quiet s (put_user u ?x s)" "same_world s (put_user u ?x s)"
      by (intro quiet_put_user [OF x]; simp)+
  qed
  with cl x Some show ?thesis
    by (cases "session_live s x") (simp_all add: refresh_def put_user_def)
qed

lemma serve_one_sim:
  assumes rel: "chat_rel pb s ch" and inv: "srv_inv s" and cl: "client_store s c = Some cl"
    and adm: "admissible s c r" and clock: "clock_ok s"
  shows "returns (serve_one pb c r s) (\<lambda>t. same_world s t
    \<and> (\<exists>ch'. chat_serves (findUser s) c r ch ch' \<and> chat_rel pb t ch'))"
proof -
  from request_run_safe [OF inv cl adm, of pb] request_run_does [OF rel inv cl adm clock] obtain rsp s1 ch1 where
    run: "request_run pb s c r = Some (rsp, s1)" "srv_inv s1" "keeps_input s s1" "same_world s s1"
      "chat_does (findUser s) c r ch ch1" "chat_rel pb s1 ch1" by (auto elim!: returnsE)
  obtain cl1 where cl1: "client_store s1 c = Some cl1" using run(3) cl by (rule keeps_input_client)
  have clock1: "clock_ok s1" using clock same_worldD(2) [OF run(4)] by simp
  from refresh_safe [of "(rsp, s1)" c cl1] refresh_quiet [OF run(2) cl1 clock1, of rsp] run(2) cl1 obtain s2 where
    ref: "refresh c (rsp, s1) = Some (s2, rsp)" "srv_inv s2" "keeps_input s1 s2" "quiet s1 s2" "same_world s1 s2"
    by (auto elim!: returnsE)
  have rel2: "chat_rel pb s2 ch1" using run(6,2) ref(4) by (rule chat_rel_quiet)
  obtain cl2 where cl2: "client_store s2 c = Some cl2" using ref(3) cl1 by (rule keeps_input_client)
  from respond_safe [OF ref(2) cl2, of pb rsp] obtain s3 where
    rsp: "respond pb c rsp s2 = Some s3" "srv_inv s3" "buffers_only s2 s3" by (auto elim!: returnsE)
  have rel3: "chat_rel pb s3 (replied c rsp ch1)" using rel2 ref(2) cl2 rsp(1) by (rule chat_rel_replied)
  have w3: "same_world s2 s3"
    using buffers_only_people(2) [OF rsp(3)] buffers_only_fields(1,2) [OF rsp(3)] by (simp add: same_world_def)
  obtain cl3 where cl3: "client_store s3 c = Some cl3"
    using keeps_input_buffers [OF rsp(3)] cl2 by (rule keeps_input_client)
  let ?t = "put_client c (cl3\<lparr>c_inbuffer := advance_start (length (request_bytes pb r)) (c_inbuffer cl3)\<rparr>) s3"
  have "serve_one pb c r s = Some ?t" using run(1) ref(1) rsp(1) cl3 by (simp add: serve_one_def serve_message_def serve_def)
  moreover have "chat_rel pb ?t (replied c rsp ch1)"
    using rel3 rsp(2) quiet_put_input(1) [OF cl3] by (rule chat_rel_quiet)
  moreover have "same_world s ?t"
    using same_world_trans [OF run(4) same_world_trans [OF ref(5) same_world_trans [OF w3 quiet_put_input(2) [OF cl3]]]] .
  ultimately show ?thesis using run(5) by (auto simp: chat_serves_def)
qed

text \<open>A login that is accepted puts its user on the connection.\<close>

lemma serve_login_links:
  assumes inv: "srv_inv s" and cl: "client_store s c = Some cl" "c_user cl = None" "c_fd cl \<in> open_fds s"
    and u: "findUser s (lr_username q) = Some u" "users s u = Some x" "\<not> now s < u_last_blocked x"
      "u_password x = cstr (lr_password q)" "u_client x = None" and clock: "clock_ok s"
  shows "returns (serve_one pb c (Login q) s) (\<lambda>t. owner_of t c = Some u \<and> clock_ok t)"
proof -
  from cmd_login_accepted [OF inv u cl(1-3), of pb] obtain rsp s1 cl1 where
    s1: "request_run pb s c (Login q) = Some (rsp, s1)" "srv_inv s1" "client_store s1 c = Some cl1" "c_user cl1 = Some u"
      "udb s1 = udb s" "now s1 = now s" by (auto elim!: returnsE)
  then have c1: "clock_ok s1" using clock by (simp add: clock_ok_def)
  from refresh_safe [of "(rsp, s1)" c cl1] refresh_quiet [OF s1(2,3) c1, of rsp] s1(2,3) obtain s2 where
    s2: "refresh c (rsp, s1) = Some (s2, rsp)" "srv_inv s2" "keeps_input s1 s2" "quiet s1 s2" "same_world s1 s2" by (auto elim!: returnsE)
  obtain cl2 where cl2: "client_store s2 c = Some cl2" using s2(3) s1(3) by (rule keeps_input_client)
  from respond_safe [OF s2(2) cl2, of pb rsp] obtain s3 where
    s3: "respond pb c rsp s2 = Some s3" "buffers_only s2 s3" by (auto elim!: returnsE)
  obtain cl3 where cl3: "client_store s3 c = Some cl3"
    using keeps_input_buffers [OF s3(2)] cl2 by (rule keeps_input_client)
  have "owner_of s1 c = Some u" using s1(3,4) by (simp add: owner_of_def)
  moreover have "owner_of s3 = owner_of s1"
    using s2(4) buffers_only_people(1) [OF s3(2)] by (simp add: quiet_def same_people_def)
  moreover have "owner_of (put_client c (cl3\<lparr>c_inbuffer := b\<rparr>) s3) = owner_of s3" for b
    using cl3 by (auto simp: owner_of_def heap_simps fun_eq_iff)
  moreover have "clock_ok (put_client c k s3)" for k
    using c1 same_worldD(2) [OF s2(5)] buffers_only_fields(1,2) [OF s3(2)] by (simp add: clock_ok_def heap_simps)
  ultimately show ?thesis
    using s1(1) s2(1) s3(1) cl3 by (simp add: serve_one_def serve_message_def serve_def)
qed

end
