(* ===== verification/Chat_Run.thy ===== *)
theory Chat_Run
  imports Chat
begin

text \<open>
  Runs of the chat: what can happen to it one event after the other, and what holds of every run.
  Nothing here mentions the server; \<open>Refine_Run\<close> carries it over.
\<close>

section \<open>Events\<close>

text \<open>A request is served; a connection is closed with its user still on it; a user who has been idle
  for too long is told so and cut off; sessions run out; bytes are written to a connection, those put on it and
  then those kept for its user; the record of a closed connection is freed with what it had not sent.\<close>

datatype chat_event = Served cref request | Lost cref | Idle cref | Clock
  | Flushed cref bytes "uref option" bytes | Freed cref bytes

definition flush :: "cref \<Rightarrow> bytes \<Rightarrow> uref option \<Rightarrow> bytes \<Rightarrow> chat \<Rightarrow> chat" where
  "flush c o1 v o2 ch = ch\<lparr>flown := (\<lambda>d. flown ch d @ (if d = c then o1 else [])),
     fetched := (\<lambda>u. fetched ch u @ (if v = Some u then o2 else []))\<rparr>"

definition spoil :: "cref \<Rightarrow> bytes \<Rightarrow> chat \<Rightarrow> chat" where
  "spoil c bs ch = ch\<lparr>spoilt := (\<lambda>d. spoilt ch d @ (if d = c then bs else []))\<rparr>"

inductive chat_step :: "(bytes \<Rightarrow> uref option) \<Rightarrow> chat_event \<Rightarrow> chat \<Rightarrow> chat \<Rightarrow> bool" for dir where
  served: "chat_serves dir c r ch ch' \<Longrightarrow> chat_step dir (Served c r) ch ch'"
| lost: "owner ch c = Some u \<Longrightarrow> chat_step dir (Lost c) ch (leave c u ch)"
| idle: "owner ch c = Some u \<Longrightarrow> \<not> live ch u \<Longrightarrow> chat_step dir (Idle c) ch (replied c (Some n) (leave c u ch))"
| clock: "\<forall>u. l u \<longrightarrow> live ch u \<Longrightarrow> chat_step dir Clock ch (ch\<lparr>live := l\<rparr>)"
| flushed: "v = owner ch c \<Longrightarrow> (o2 \<noteq> [] \<longrightarrow> (\<exists>u. v = Some u \<and> live ch u)) \<Longrightarrow>
    chat_step dir (Flushed c o1 v o2) ch (flush c o1 v o2 ch)"
| freed: "owner ch c = None \<Longrightarrow> chat_step dir (Freed c bs) ch (spoil c bs ch)"

text \<open>Writing and freeing move bytes only.\<close>

lemma flush_spoil_fields [simp]:
  "owner (flush c o1 v o2 ch) = owner ch" "live (flush c o1 v o2 ch) = live ch" "blocks (flush c o1 v o2 ch) = blocks ch"
  "wire (flush c o1 v o2 ch) = wire ch" "stash (flush c o1 v o2 ch) = stash ch" "spoilt (flush c o1 v o2 ch) = spoilt ch"
  "owner (spoil c bs ch) = owner ch" "live (spoil c bs ch) = live ch" "blocks (spoil c bs ch) = blocks ch"
  "wire (spoil c bs ch) = wire ch" "stash (spoil c bs ch) = stash ch" "flown (spoil c bs ch) = flown ch"
  "fetched (spoil c bs ch) = fetched ch"
  by (simp_all add: flush_def spoil_def)

inductive_cases chat_stepE: "chat_step dir e ch ch'"
inductive_cases chat_doesE: "chat_does dir c r ch ch'"

inductive chat_run :: "(bytes \<Rightarrow> uref option) \<Rightarrow> chat_event list \<Rightarrow> chat \<Rightarrow> chat \<Rightarrow> bool" for dir where
  run_nil: "chat_run dir [] ch ch"
| run_snoc: "chat_run dir es ch ch1 \<Longrightarrow> chat_step dir e ch1 ch2 \<Longrightarrow> chat_run dir (es @ [e]) ch ch2"

lemma chat_run_one: "chat_step dir e ch ch' \<Longrightarrow> chat_run dir [e] ch ch'"
  using run_snoc [OF run_nil] by fastforce

lemma chat_run_append:
  assumes "chat_run dir fs b c" and "chat_run dir es a b"
  shows "chat_run dir (es @ fs) a c"
  using assms
proof (induction rule: chat_run.induct)
  case (run_snoc fs b c1 e c2)
  then have "chat_run dir (es @ fs) a c1" by simp
  from chat_run.run_snoc [OF this run_snoc.hyps(2)] show ?case by simp
qed simp

section \<open>What has left\<close>

text \<open>The bytes written on connection \<open>c\<close> out of what was put on it; those written on any connection out of
  what was kept for \<open>u\<close>; those that went with the record of \<open>c\<close>.\<close>

fun sent_on :: "cref \<Rightarrow> chat_event list \<Rightarrow> bytes" where
  "sent_on c [] = []"
| "sent_on c (Flushed d o1 v o2 # es) = (if d = c then o1 else []) @ sent_on c es"
| "sent_on c (_ # es) = sent_on c es"

fun sent_for :: "uref \<Rightarrow> chat_event list \<Rightarrow> bytes" where
  "sent_for u [] = []"
| "sent_for u (Flushed d o1 v o2 # es) = (if v = Some u then o2 else []) @ sent_for u es"
| "sent_for u (_ # es) = sent_for u es"

fun freed_on :: "cref \<Rightarrow> chat_event list \<Rightarrow> bytes" where
  "freed_on c [] = []"
| "freed_on c (Freed d bs # es) = (if d = c then bs else []) @ freed_on c es"
| "freed_on c (_ # es) = freed_on c es"

lemma left_append [simp]:
  "sent_on c (es @ fs) = sent_on c es @ sent_on c fs" "sent_for u (es @ fs) = sent_for u es @ sent_for u fs"
  "freed_on c (es @ fs) = freed_on c es @ freed_on c fs"
proof -
  show "sent_on c (es @ fs) = sent_on c es @ sent_on c fs" by (induction c es rule: sent_on.induct) simp_all
  show "sent_for u (es @ fs) = sent_for u es @ sent_for u fs" by (induction u es rule: sent_for.induct) simp_all
  show "freed_on c (es @ fs) = freed_on c es @ freed_on c fs" by (induction c es rule: freed_on.induct) simp_all
qed

lemma replied_left [simp]:
  "flown (replied c rsp ch) = flown ch" "fetched (replied c rsp ch) = fetched ch" "spoilt (replied c rsp ch) = spoilt ch"
  by (simp_all add: replied_def split: option.split)

lemma moves_left [simp]:
  "flown (enter c u ch) = flown ch" "fetched (enter c u ch) = fetched ch" "spoilt (enter c u ch) = spoilt ch"
  "flown (leave c u ch) = flown ch" "fetched (leave c u ch) = fetched ch" "spoilt (leave c u ch) = spoilt ch"
  by (simp_all add: enter_def leave_def)

lemma effect_left:
  "flown (chat_effect dir c me r ch) = flown ch \<and> fetched (chat_effect dir c me r ch) = fetched ch
    \<and> spoilt (chat_effect dir c me r ch) = spoilt ch"
  by (cases r) (auto simp: Let_def split: option.splits)

lemma step_left:
  assumes "chat_step dir e ch ch'"
  shows "flown ch' c = flown ch c @ sent_on c [e] \<and> fetched ch' u = fetched ch u @ sent_for u [e]
    \<and> spoilt ch' c = spoilt ch c @ freed_on c [e]"
  using assms
proof (cases rule: chat_step.cases)
  case (served d r)
  then show ?thesis by (auto simp: chat_serves_def effect_left elim!: chat_doesE)
qed (auto simp: flush_def spoil_def)

lemma run_left:
  "chat_run dir es ch ch' \<Longrightarrow> flown ch' c = flown ch c @ sent_on c es \<and> fetched ch' u = fetched ch u @ sent_for u es
    \<and> spoilt ch' c = spoilt ch c @ freed_on c es"
  by (induction rule: chat_run.induct) (use step_left in fastforce)+

section \<open>What is in the mail\<close>

text \<open>A piece of mail is somewhere in the chat.\<close>

definition in_mail :: "chat \<Rightarrow> mail \<Rightarrow> bool" where
  "in_mail ch e \<longleftrightarrow> (\<exists>c. e \<in> set (wire ch c)) \<or> (\<exists>u. e \<in> set (stash ch u))"

text \<open>The messages from \<open>a\<close> to \<open>b\<close>, in order.\<close>

definition from_to :: "uref \<Rightarrow> uref \<Rightarrow> mail list \<Rightarrow> mail list" where
  "from_to a b = filter (\<lambda>e. case e of Said x y m \<Rightarrow> x = a \<and> y = b | _ \<Rightarrow> False)"

lemma from_to_simps [simp]:
  "from_to a b [] = []" "from_to a b (Said x y m # es) = (if x = a \<and> y = b then [Said x y m] else []) @ from_to a b es"
  "from_to a b (Came u # es) = from_to a b es" "from_to a b (Gone u # es) = from_to a b es"
  "from_to a b (Note r # es) = from_to a b es" "from_to a b (es @ fs) = from_to a b es @ from_to a b fs"
  by (simp_all add: from_to_def)

definition quiet_between :: "uref \<Rightarrow> uref \<Rightarrow> chat \<Rightarrow> chat \<Rightarrow> bool" where
  "quiet_between a b ch ch' \<longleftrightarrow> (\<forall>c. from_to a b (wire ch' c) = from_to a b (wire ch c))
     \<and> (\<forall>u. from_to a b (stash ch' u) = from_to a b (stash ch u))"

lemma quiet_between_refl [simp]: "quiet_between a b ch ch"
  by (simp add: quiet_between_def)

lemma quiet_between_trans: "quiet_between a b x y \<Longrightarrow> quiet_between a b y z \<Longrightarrow> quiet_between a b x z"
  by (simp add: quiet_between_def)

lemma quiet_between_post:
  assumes "\<And>v. P v \<Longrightarrow> from_to a b [e v] = []"
  shows "quiet_between a b ch (post P e ch)"
  using assms by (auto simp: quiet_between_def post_def split: option.split)

lemma replied_fields [simp]:
  "owner (replied c rsp ch) = owner ch" "live (replied c rsp ch) = live ch" "blocks (replied c rsp ch) = blocks ch"
  "stash (replied c rsp ch) = stash ch"
  by (simp_all add: replied_def split: option.split)

lemma from_to_replied [simp]: "from_to a b (wire (replied c rsp ch) d) = from_to a b (wire ch d)"
  by (simp add: replied_def split: option.split)

lemma quiet_between_replied [simp]: "quiet_between a b x (replied c rsp y) = quiet_between a b x y"
  by (simp add: quiet_between_def)

lemma quiet_between_upd [simp]:
  "quiet_between a b x (y\<lparr>owner := o1\<rparr>) = quiet_between a b x y"
  "quiet_between a b x (y\<lparr>live := l\<rparr>) = quiet_between a b x y"
  "quiet_between a b x (y\<lparr>blocks := bl\<rparr>) = quiet_between a b x y"
  "quiet_between a b x (y\<lparr>owner := o1, live := l\<rparr>) = quiet_between a b x y"
  by (simp_all add: quiet_between_def)

lemma quiet_between_left [simp]:
  "quiet_between a b x (flush c o1 v o2 y) = quiet_between a b x y" "quiet_between a b x (spoil c bs y) = quiet_between a b x y"
  by (simp_all add: quiet_between_def)

lemma quiet_between_moves: "quiet_between a b ch (enter c u ch)" "quiet_between a b ch (leave c u ch)"
  by (simp_all add: enter_def leave_def quiet_between_post)

lemma moves_blocks [simp]: "blocks (enter c u ch) = blocks ch" "blocks (leave c u ch) = blocks ch"
  by (simp_all add: enter_def leave_def)

section \<open>Blocking lasts\<close>

definition unblocks :: "(bytes \<Rightarrow> uref option) \<Rightarrow> uref \<Rightarrow> chat_event \<Rightarrow> bool" where
  "unblocks dir a e \<longleftrightarrow> (\<exists>c q. e = Served c (UnBlock q) \<and> dir (ubr_username q) = Some a)"

lemma effect_blocked:
  assumes "a \<in> blocks ch b" and "\<not> unblocks dir a (Served c r)"
  shows "a \<in> blocks (chat_effect dir c me r ch) b \<and> quiet_between a b ch (chat_effect dir c me r ch)"
proof (cases r)
  case (Message q)
  then show ?thesis
    using assms(1) by (auto simp: Let_def intro: quiet_between_post split: option.splits)
next
  case (UnBlock q)
  then show ?thesis using assms by (auto simp: unblocks_def split: option.splits)
qed (use assms(1) quiet_between_moves in \<open>auto split: option.splits\<close>)

lemma step_blocked:
  assumes "chat_step dir e ch ch'" and "a \<in> blocks ch b" and "\<not> unblocks dir a e"
  shows "a \<in> blocks ch' b \<and> quiet_between a b ch ch'"
  using assms(1)
proof (cases rule: chat_step.cases)
  case (served c r)
  then obtain ch1 rsp where d: "chat_does dir c r ch ch1" "ch' = replied c rsp ch1" by (auto simp: chat_serves_def)
  have "a \<in> blocks ch1 b \<and> quiet_between a b ch ch1"
    using d(1) by (cases rule: chat_does.cases)
      (use assms(2,3) served(1) effect_blocked quiet_between_moves in auto)
  with d(2) show ?thesis by simp
qed (use assms(2) quiet_between_moves in auto)

lemma run_blocked:
  assumes "chat_run dir es ch ch'" and "a \<in> blocks ch b" and "\<forall>e \<in> set es. \<not> unblocks dir a e"
  shows "a \<in> blocks ch' b \<and> quiet_between a b ch ch'"
  using assms
proof (induction rule: chat_run.induct)
  case (run_snoc es ch ch1 e ch2)
  then have "a \<in> blocks ch1 b \<and> quiet_between a b ch ch1" by simp
  with step_blocked [OF run_snoc.hyps(2), of a b] run_snoc.prems(2) show ?case
    by (auto intro: quiet_between_trans)
qed simp

section \<open>Every message is accounted for\<close>

text \<open>The event \<open>e\<close> is \<open>a\<close> saying \<open>m\<close> to \<open>b\<close>, directly or in a broadcast, from a live session and
  without \<open>b\<close> having blocked \<open>a\<close>.\<close>

definition spoke :: "(bytes \<Rightarrow> uref option) \<Rightarrow> chat_event \<Rightarrow> chat \<Rightarrow> uref \<Rightarrow> uref \<Rightarrow> bytes \<Rightarrow> bool" where
  "spoke dir e ch a b m \<longleftrightarrow> (\<exists>c q. e = Served c (Message q) \<and> owner ch c = Some a \<and> live ch a
     \<and> a \<notin> blocks ch b \<and> m = cstr (mr_msg q)
     \<and> (if mr_broadcast q then b \<noteq> a \<and> live ch b else dir (mr_username q) = Some b))"

text \<open>Whoever is live is on a connection.\<close>

definition tidy :: "chat \<Rightarrow> bool" where
  "tidy ch \<longleftrightarrow> (\<forall>u. live ch u \<longrightarrow> (\<exists>c. owner ch c = Some u))"

lemma in_mail_post:
  assumes "tidy ch"
  shows "in_mail (post P e ch) x \<longleftrightarrow> in_mail ch x \<or> (\<exists>v. P v \<and> x = e v \<and> (live ch v \<longrightarrow> (\<exists>c. owner ch c = Some v)))"
proof -
  have "x \<in> set (wire (post P e ch) c) \<longleftrightarrow> x \<in> set (wire ch c) \<or> (\<exists>v. owner ch c = Some v \<and> P v \<and> live ch v \<and> x = e v)" for c
    by (cases "owner ch c") (auto simp: post_def)
  moreover have "x \<in> set (stash (post P e ch) v) \<longleftrightarrow> x \<in> set (stash ch v) \<or> P v \<and> \<not> live ch v \<and> x = e v" for v
    by (auto simp: post_def)
  ultimately show ?thesis using assms unfolding in_mail_def tidy_def by blast
qed

lemma in_mail_said:
  assumes "tidy ch"
  shows "in_mail (post P e ch) (Said a b m) \<longleftrightarrow> in_mail ch (Said a b m) \<or> (\<exists>v. P v \<and> Said a b m = e v)"
  using assms in_mail_post [OF assms, of P e "Said a b m"] by (auto simp: tidy_def)

lemma in_mail_upd [simp]:
  "in_mail (ch\<lparr>owner := o1\<rparr>) x = in_mail ch x" "in_mail (ch\<lparr>live := l\<rparr>) x = in_mail ch x"
  "in_mail (ch\<lparr>blocks := bl\<rparr>) x = in_mail ch x" "in_mail (flush c p v q ch) x = in_mail ch x"
  "in_mail (spoil c bs ch) x = in_mail ch x"
  by (simp_all add: in_mail_def)

lemma in_mail_replied [simp]: "in_mail (replied c rsp ch) (Said a b m) = in_mail ch (Said a b m)"
  by (auto simp: in_mail_def replied_def split: option.splits if_splits)

lemma in_mail_moves [simp]:
  assumes "tidy ch"
  shows "in_mail (enter c u ch) (Said a b m) = in_mail ch (Said a b m)"
    "in_mail (leave c u ch) (Said a b m) = in_mail ch (Said a b m)"
  by (simp_all add: enter_def leave_def in_mail_said [OF assms])

lemma tidy_moves:
  assumes "tidy ch"
  shows "owner ch c = None \<Longrightarrow> tidy (enter c u ch)" "owner ch c = Some u \<Longrightarrow> tidy (leave c u ch)"
proof -
  show "owner ch c = None \<Longrightarrow> tidy (enter c u ch)"
    using assms unfolding tidy_def enter_def by simp (metis option.distinct(1))
  show "owner ch c = Some u \<Longrightarrow> tidy (leave c u ch)"
    using assms unfolding tidy_def leave_def by simp (metis option.inject)
qed

lemma tidy_effect:
  assumes "tidy ch" and "owner ch c = Some me"
  shows "tidy (chat_effect dir c me r ch)"
  using assms tidy_moves(2) [OF assms]
  by (cases r) (auto simp: tidy_def Let_def split: option.splits)

lemma tidy_step:
  assumes "chat_step dir e ch ch'" and "tidy ch"
  shows "tidy ch'"
  using assms(1)
proof (cases rule: chat_step.cases)
  case (served c r)
  then obtain ch1 rsp where d: "chat_does dir c r ch ch1" "ch' = replied c rsp ch1" by (auto simp: chat_serves_def)
  have "tidy ch1"
    using d(1) by (cases rule: chat_does.cases) (use assms(2) tidy_effect tidy_moves in auto)
  with d(2) show ?thesis by (simp add: tidy_def)
next
  case (idle c u n)
  with assms(2) tidy_moves(2) [of ch c u] show ?thesis by (simp add: tidy_def)
qed (use assms(2) tidy_moves in \<open>auto simp: tidy_def\<close>)

lemma tidy_run: "chat_run dir es ch ch' \<Longrightarrow> tidy ch \<Longrightarrow> tidy ch'"
  by (induction rule: chat_run.induct) (auto intro: tidy_step)

lemma effect_said:
  assumes t: "tidy ch" and me: "owner ch c = Some me" "live ch me"
  shows "in_mail (chat_effect dir c me r ch) (Said a b m) \<longleftrightarrow>
    in_mail ch (Said a b m) \<or> spoke dir (Served c r) ch a b m"
proof (cases r)
  case (Message q)
  show ?thesis
  proof (cases "mr_broadcast q")
    case True
    with Message me show ?thesis by (auto simp: Let_def in_mail_said [OF t] spoke_def)
  next
    case False
    with Message me show ?thesis by (auto simp: Let_def in_mail_said [OF t] spoke_def split: option.split)
  qed
qed (use t in \<open>auto simp: spoke_def split: option.split\<close>)

lemma step_said:
  assumes "chat_step dir e ch ch'" and t: "tidy ch"
  shows "in_mail ch' (Said a b m) \<longleftrightarrow> in_mail ch (Said a b m) \<or> spoke dir e ch a b m"
  using assms(1)
proof (cases rule: chat_step.cases)
  case (served c r)
  then obtain ch1 rsp where d: "chat_does dir c r ch ch1" "ch' = replied c rsp ch1" by (auto simp: chat_serves_def)
  have "in_mail ch1 (Said a b m) \<longleftrightarrow> in_mail ch (Said a b m) \<or> spoke dir e ch a b m"
    using d(1)
  proof (cases rule: chat_does.cases)
    case (asked me)
    with served(1) effect_said [OF t] show ?thesis by auto
  qed (use t served(1) in \<open>auto simp: spoke_def\<close>)
  with d(2) show ?thesis by simp
qed (use t in \<open>auto simp: spoke_def\<close>)

lemma run_in_mail: "chat_run dir es ch ch' \<Longrightarrow> tidy ch \<Longrightarrow> in_mail ch (Said a b m) \<Longrightarrow> in_mail ch' (Said a b m)"
  by (induction rule: chat_run.induct) (auto simp: step_said tidy_run)

text \<open>The moment of a run at which it was said.\<close>

definition said_in :: "(bytes \<Rightarrow> uref option) \<Rightarrow> chat_event list \<Rightarrow> chat \<Rightarrow> chat \<Rightarrow> uref \<Rightarrow> uref \<Rightarrow> bytes \<Rightarrow> bool" where
  "said_in dir es ch ch' a b m \<longleftrightarrow> (\<exists>pre e rest x y. es = pre @ e # rest \<and> chat_run dir pre ch x
     \<and> spoke dir e x a b m \<and> chat_step dir e x y \<and> chat_run dir rest y ch')"

lemma said_later:
  assumes "chat_step dir e ch1 ch2" and "said_in dir es ch ch1 a b m"
  shows "said_in dir (es @ [e]) ch ch2 a b m"
proof -
  from assms(2) obtain pre f rest x y where "es = pre @ f # rest" "chat_run dir pre ch x"
    "spoke dir f x a b m" "chat_step dir f x y" "chat_run dir rest y ch1" by (auto simp: said_in_def)
  with run_snoc [OF _ assms(1)] show ?thesis unfolding said_in_def by (metis append_Cons append_assoc)
qed

lemma run_said:
  assumes "chat_run dir es ch ch'" and "tidy ch"
  shows "in_mail ch' (Said a b m) \<longleftrightarrow> in_mail ch (Said a b m) \<or> said_in dir es ch ch' a b m"
  using assms
proof (induction rule: chat_run.induct)
  case run_nil
  then show ?case by (simp add: said_in_def)
next
  case (run_snoc es ch ch1 e ch2)
  note step = step_said [OF run_snoc.hyps(2) tidy_run [OF run_snoc.hyps(1) run_snoc.prems], of a b m]
  show ?case
  proof
    assume "in_mail ch2 (Said a b m)"
    with step run_snoc.IH run_snoc.prems consider "in_mail ch (Said a b m)" | "said_in dir es ch ch1 a b m"
      | "spoke dir e ch1 a b m" by blast
    then show "in_mail ch (Said a b m) \<or> said_in dir (es @ [e]) ch ch2 a b m"
    proof cases
      case 2
      with said_later [OF run_snoc.hyps(2)] show ?thesis by blast
    next
      case 3
      with run_snoc.hyps run_nil show ?thesis unfolding said_in_def by blast
    qed simp
  next
    assume "in_mail ch (Said a b m) \<or> said_in dir (es @ [e]) ch ch2 a b m"
    then show "in_mail ch2 (Said a b m)"
    proof
      assume "in_mail ch (Said a b m)"
      with step run_snoc.IH run_snoc.prems show ?thesis by blast
    next
      assume "said_in dir (es @ [e]) ch ch2 a b m"
      then obtain pre f rest x y where s: "chat_run dir pre ch x" "spoke dir f x a b m" "chat_step dir f x y"
        "chat_run dir rest y ch2" by (auto simp: said_in_def)
      have "tidy x" using s(1) run_snoc.prems by (rule tidy_run)
      with step_said [OF s(3)] s(2,3) have "in_mail y (Said a b m)" "tidy y" by (auto intro: tidy_step)
      with run_in_mail [OF s(4)] show ?thesis by blast
    qed
  qed
qed

end
