(* ===== verification/Refine_Run.thy ===== *)
theory Refine_Run
  imports Refine Chat_Run Events
begin

text \<open>
  The simulation for whole steps of the server: an event of the network thread, a sweep of the time
  thread, the passing of time; and, lifted once and for all by the locale \<open>simulation\<close>, for runs.
\<close>

section \<open>Simulations\<close>

text \<open>The account of a run, put together from what each of its steps tells.\<close>

inductive traced :: "('s \<Rightarrow> 'e list \<Rightarrow> 's \<Rightarrow> bool) \<Rightarrow> 's \<Rightarrow> 'e list \<Rightarrow> 's \<Rightarrow> bool" for tells where
  traced_nil: "traced tells s [] s"
| traced_step: "traced tells s es t \<Longrightarrow> tells t fs u \<Longrightarrow> traced tells s (es @ fs) u"

text \<open>A system whose steps \<open>step\<close>, told as events by \<open>tells\<close>, are simulated by the runs \<open>arun\<close> of another.\<close>

locale simulation =
  fixes step :: "'s \<Rightarrow> 's \<Rightarrow> bool"
    and tells :: "'s \<Rightarrow> 'e list \<Rightarrow> 's \<Rightarrow> bool"
    and arun :: "'e list \<Rightarrow> 'a \<Rightarrow> 'a \<Rightarrow> bool"
    and rel :: "'s \<Rightarrow> 'a \<Rightarrow> bool"
  assumes arun_nil: "arun [] a a"
    and arun_append: "arun es a b \<Longrightarrow> arun fs b c \<Longrightarrow> arun (es @ fs) a c"
    and sim_step: "rel s a \<Longrightarrow> step s t \<Longrightarrow> \<exists>es b. tells s es t \<and> arun es a b \<and> rel t b"
begin

lemma sim_run:
  assumes "step\<^sup>*\<^sup>* s t" and "rel s a"
  shows "\<exists>es b. traced tells s es t \<and> arun es a b \<and> rel t b"
  using assms(1)
proof (induction rule: rtranclp_induct)
  case base
  with traced_nil arun_nil assms(2) show ?case by metis
next
  case (step t u)
  then obtain es b where "traced tells s es t" "arun es a b" "rel t b" by blast
  moreover from this sim_step step.hyps(2) obtain fs c where "tells t fs u" "arun fs b c" "rel u c" by metis
  ultimately show ?case using traced_step arun_append by metis
qed

text \<open>What every abstract run has is had by every run of the system.\<close>

lemma transfer:
  assumes "step\<^sup>*\<^sup>* s t" and "rel s a" and "\<And>es b. arun es a b \<Longrightarrow> rel t b \<Longrightarrow> Q es b"
  shows "\<exists>es b. traced tells s es t \<and> rel t b \<and> Q es b"
  using sim_run [OF assms(1,2)] assms(3) by blast

end

section \<open>Requests and hang-ups\<close>

text \<open>The chat has moved on, by some events of which \<open>A\<close> holds, and still describes the server.\<close>

definition evolves :: "(chat_event list \<Rightarrow> bool) \<Rightarrow> pb_lib \<Rightarrow> server \<Rightarrow> chat \<Rightarrow> server \<Rightarrow> bool" where
  "evolves A pb s ch t \<longleftrightarrow> findUser t = findUser s
     \<and> (\<exists>es ch'. A es \<and> chat_run (findUser s) es ch ch' \<and> chat_rel pb t ch')"

lemma evolves_mono: "evolves A pb s ch t \<Longrightarrow> (\<And>es. A es \<Longrightarrow> B es) \<Longrightarrow> evolves B pb s ch t"
  unfolding evolves_def by blast

lemma evolves_stutter: "findUser t = findUser s \<Longrightarrow> chat_rel pb t ch \<Longrightarrow> A [] \<Longrightarrow> evolves A pb s ch t"
  unfolding evolves_def using run_nil by blast

lemma evolves_quiet:
  "chat_rel pb s ch \<Longrightarrow> srv_inv s \<Longrightarrow> quiet s t \<Longrightarrow> same_world s t \<Longrightarrow> A [] \<Longrightarrow> evolves A pb s ch t"
  by (rule evolves_stutter) (simp_all add: same_worldD chat_rel_quiet)

lemma evolves_one:
  "findUser t = findUser s \<Longrightarrow> chat_step (findUser s) e ch ch' \<Longrightarrow> chat_rel pb t ch' \<Longrightarrow> A [e] \<Longrightarrow> evolves A pb s ch t"
  unfolding evolves_def using chat_run_one by blast

lemma evolves_then:
  assumes "findUser t = findUser s" and "chat_run (findUser s) es ch ch1" and "evolves (\<lambda>fs. A (es @ fs)) pb t ch1 u"
  shows "evolves A pb s ch u"
proof -
  obtain fs ch2 where "A (es @ fs)" "findUser u = findUser t" "chat_run (findUser t) fs ch1 ch2" "chat_rel pb u ch2"
    using assms(3) by (auto simp: evolves_def)
  with chat_run_append [of "findUser s" fs ch1 ch2 es ch] assms(1,2) show ?thesis by (auto simp: evolves_def)
qed

lemma evolves_from: "findUser t = findUser s \<Longrightarrow> evolves A pb t ch u \<Longrightarrow> evolves A pb s ch u"
  by (rule evolves_then [OF _ run_nil]) simp_all

lemma evolves_after:
  assumes "evolves A pb s ch t" and "\<And>es ch1. A es \<Longrightarrow> chat_rel pb t ch1 \<Longrightarrow> evolves (\<lambda>fs. B (es @ fs)) pb t ch1 u"
  shows "evolves B pb s ch u"
proof -
  obtain es ch1 where "findUser t = findUser s" "chat_run (findUser s) es ch ch1" "A es" "chat_rel pb t ch1"
    using assms(1) by (auto simp: evolves_def)
  with evolves_then assms(2) show ?thesis by metis
qed

text \<open>Requests, one after the other.\<close>

lemma serve_all_evolves:
  assumes "chat_rel pb s ch" and "srv_inv s" and "client_store s c = Some cl" and "clock_ok s"
    and "pending (c_inbuffer cl) = concat (map (request_bytes pb) rs) @ p" and "admissible_all pb c rs s"
  shows "returns (foldM (serve_one pb c) rs s) (evolves (\<lambda>es. es = map (Served c) rs) pb s ch)"
  using assms
proof (induction rs arbitrary: s cl ch)
  case Nil
  then show ?case by (simp add: evolves_quiet)
next
  case (Cons r rs)
  let ?rest = "concat (map (request_bytes pb) rs) @ p"
  have pe: "pending (c_inbuffer cl) = request_bytes pb r @ ?rest" and adm: "admissible s c r"
    using Cons.prems(5,6) by simp_all
  from serve_one_sim [OF Cons.prems(1-3) adm Cons.prems(4)] serve_one_safe [OF Cons.prems(2,3) adm pe] obtain t ch' cl' where
    t: "serve_one pb c r s = Some t" "same_world s t" "chat_serves (findUser s) c r ch ch'" "chat_rel pb t ch'"
      "srv_inv t" "client_store t c = Some cl'" "pending (c_inbuffer cl') = ?rest" by (auto elim!: returnsE)
  have clock: "clock_ok t" using Cons.prems(4) same_worldD(2) [OF t(2)] by simp
  have "admissible_all pb c rs t" using Cons.prems(6) t(1) by simp
  with Cons.IH [OF t(4-6) clock t(7)]
  have "returns (foldM (serve_one pb c) rs t) (evolves (\<lambda>fs. [Served c r] @ fs = map (Served c) (r # rs)) pb t ch')"
    by simp
  moreover have "chat_run (findUser s) [Served c r] ch ch'" using t(3) by (intro chat_run_one chat_step.served)
  ultimately show ?case
    using t(1) evolves_then [OF same_worldD(1) [OF t(2)]] by (auto elim!: returns_mono)
qed

text \<open>What the end of a connection means.\<close>

definition lost_on :: "server \<Rightarrow> cref \<Rightarrow> chat_event list" where
  "lost_on s c = (case owner_of s c of None \<Rightarrow> [] | Some _ \<Rightarrow> [Lost c])"

lemma close_evolves:
  assumes rel: "chat_rel pb s ch" and inv: "srv_inv s" and cl: "client_store s c = Some cl"
  shows "returns (close_socket pb s (Some c)) (evolves (\<lambda>es. es = lost_on s c) pb s ch)"
proof -
  from close_socket_spec [OF srv_invD(1,2) [OF inv] cl, of pb] close_socket_inv [OF inv cl, of pb] obtain t where
    t: "close_socket pb s (Some c) = Some t" "srv_inv t" "closed_from c s t" "net_frame s t"
      "case c_user cl of None \<Rightarrow> users t = users s \<and> (\<forall>d. d \<noteq> c \<longrightarrow> client_store t d = client_store s d)
       | Some u \<Rightarrow> (\<exists>x. users s u = Some x \<and> users t = (users s)(u \<mapsto> x\<lparr>u_client := None\<rparr>)
           \<and> (\<forall>d. cout t d = cout_told (hears s u) (logout_notice pb x) s d)
           \<and> (\<forall>v. outbox t v = (if v = u then pending (u_buffer x)
                 else if hears s u v then outbox s v @ logout_notice pb x else outbox s v)))"
    by (auto elim!: returnsE)
  have "evolves (\<lambda>es. es = lost_on s c) pb s ch t"
  proof (cases "c_user cl")
    case None
    have c: "client_store t c = Some (cl\<lparr>c_user := None\<rparr>)" using t(3) cl by (simp add: closed_from_def)
    have o: "client_store t d = client_store s d" if "d \<noteq> c" for d using t(5) None that by simp
    have "cout t d = cout s d" "map_option c_user (client_store t d) = map_option c_user (client_store s d)" for d
      using c o [of d] cl None by (cases "d = c"; simp add: cout_def)+
    then have "quiet s t" "same_world s t"
      using t(4,5) None by (auto simp: net_frame_def intro!: quiet_users)
    with rel inv show ?thesis using None cl by (intro evolves_quiet) (simp_all add: lost_on_def owner_of_def)
  next
    case (Some u)
    with t(5) obtain x where x: "users s u = Some x" "users t = (users s)(u \<mapsto> x\<lparr>u_client := None\<rparr>)"
      "\<forall>d. cout t d = cout_told (hears s u) (logout_notice pb x) s d" by auto
    have o: "owner_of s c = Some u" using cl Some by (simp add: owner_of_def)
    then have xc: "u_client x = Some c" using x(1) by (simp add: owner_of_link [OF srv_invD(1) [OF inv]])
    note l = leave_rel [OF rel inv x(1) xc t(2,4) x(2) x(3) [rule_format]]
    have "owner ch c = Some u" using rel o by (simp add: chat_rel_def)
    from evolves_one [OF same_worldD(1) [OF l(2)] chat_step.lost [OF this] l(1)] o show ?thesis by (simp add: lost_on_def)
  qed
  with t(1) show ?thesis by simp
qed

section \<open>The events\<close>

text \<open>The requests that have arrived with \<open>rx\<close>: all that waits and all that is new, up to the
  beginning of another.\<close>

definition arrived :: "pb_lib \<Rightarrow> im_client \<Rightarrow> recv_result \<Rightarrow> request list \<Rightarrow> bool" where
  "arrived pb cl rx rs \<longleftrightarrow> (\<exists>data p. rx = Recv data \<and> data \<noteq> []
     \<and> pending (c_inbuffer cl) @ data = concat (map (request_bytes pb) rs) @ p \<and> partial_request pb p)"

context pb_codec
begin

lemma receive_evolves:
  assumes rel: "chat_rel pb s ch" and inv: "srv_inv s" and cl: "client_store s c = Some cl"
    and clock: "clock_ok s" and fits: "input_fits pb s c rx"
  shows "returns (im_receive_command pb (parse_command pb) s c rx) (evolves (\<lambda>es.
    if rx = Recv [] then es = lost_on s c else \<exists>rs. arrived pb cl rx rs \<and> es = map (Served c) rs) pb s ch)"
    (is "returns _ (evolves ?A pb s ch)")
proof (cases "rx = Recv []")
  case True
  note ok = recv_prepare_ok(1) [OF heap_inv_client(2) [OF srv_invD(1) [OF inv] cl]]
  let ?cl = "cl\<lparr>c_inbuffer := recv_prepare (c_inbuffer cl)\<rparr>"
  note q = quiet_put_input [OF cl, of "recv_prepare (c_inbuffer cl)"]
  have "client_store (put_client c ?cl s) c = Some ?cl" by (simp add: heap_simps)
  from close_evolves [OF chat_rel_quiet [OF rel inv q(1)] srv_inv_put_input [OF inv cl ok] this]
  have "returns (close_socket pb (put_client c ?cl s) (Some c))
      (evolves (\<lambda>es. es = lost_on (put_client c ?cl s) c) pb (put_client c ?cl s) ch)" .
  moreover have "lost_on (put_client c ?cl s) c = lost_on s c" using cl by (simp add: lost_on_def owner_of_def heap_simps)
  ultimately show ?thesis
    using True cl evolves_from [OF same_worldD(1) [OF q(2)]]
    by (auto simp: im_receive_command_def Let_def elim!: returns_mono)
next
  case False
  with fits cl obtain data rs p where d: "rx = Recv data" "data \<noteq> []"
    "length data \<le> recv_room (recv_prepare (c_inbuffer cl))"
    "pending (c_inbuffer cl) @ data = concat (map (request_bytes pb) rs) @ p"
    "\<forall>r \<in> set rs. request_small pb r" "partial_request pb p"
    "admissible_all pb c rs (put_client c (cl\<lparr>c_inbuffer := recv_store (recv_prepare (c_inbuffer cl)) data\<rparr>) s)"
    by (auto simp: input_fits_def)
  let ?b = "recv_store (recv_prepare (c_inbuffer cl)) data"
  let ?s = "put_client c (cl\<lparr>c_inbuffer := ?b\<rparr>) s"
  note prep = recv_prepare_ok(1,2) [OF heap_inv_client(2) [OF srv_invD(1) [OF inv] cl]]
  have b: "buf_ok ?b" "pending ?b = concat (map (request_bytes pb) rs) @ p"
    using recv_store_ok [OF prep(1), of data] d(3,4) prep(2) by simp_all
  note q = quiet_put_input [OF cl, of ?b]
  have "client_store ?s c = Some (cl\<lparr>c_inbuffer := ?b\<rparr>)" "pending (c_inbuffer (cl\<lparr>c_inbuffer := ?b\<rparr>)) = concat (map (request_bytes pb) rs) @ p"
    using b(2) by (simp_all add: heap_simps)
  from serve_all_evolves [OF chat_rel_quiet [OF rel inv q(1)] srv_inv_put_input [OF inv cl b(1)] this(1) _ this(2) d(7)]
  have "returns (foldM (serve_one pb c) rs ?s) (evolves (\<lambda>es. es = map (Served c) rs) pb ?s ch)"
    using clock same_worldD(2) [OF q(2)] by simp
  moreover have "arrived pb cl rx rs" using d(1,2,4,6) by (auto simp: arrived_def)
  then have "es = map (Served c) rs \<Longrightarrow> ?A es" for es using False by auto
  ultimately have e: "returns (foldM (serve_one pb c) rs ?s) (evolves ?A pb s ch)"
    using evolves_from [OF same_worldD(1) [OF q(2)]] evolves_mono by (auto elim!: returns_mono)
  from receive_stream [OF inv cl d(5,2,3,4,6,7)] obtain t where
    t: "im_receive_command pb (parse_command pb) s c (Recv data) = Some t" "foldM (serve_one pb c) rs ?s = Some t"
    by (rule returnsE) blast
  from e show ?thesis by (simp only: d(1) t returns_simps)
qed

end

text \<open>What has been written is no longer waiting; nothing else has changed.\<close>

lemma drains_stored:
  assumes b: "buffers_only s t" and d: "drains c o1 o2 s t"
  shows "stored s u = (if owner_of s c = Some u then o2 else []) @ stored t u"
proof (cases "users s u")
  case None
  then have "users t u = None" "\<not> (o2 \<noteq> [] \<and> owner_of s c = Some u)"
    using buffers_only_dom(1) [OF b] d by (auto simp: drains_def owner_of_def)
  with None show ?thesis by (auto simp: stored_def)
next
  case (Some x)
  then obtain y where "users t u = Some y" using buffers_only_dom(1) [OF b] by blast
  with Some d show ?thesis by (simp add: drains_def stored_def owner_of_def)
qed

lemma drains_chat_rel:
  assumes rel: "chat_rel pb s ch" and b: "buffers_only s t" and d: "drains c o1 o2 s t" and c: "c \<in> dom (client_store s)"
  shows "chat_rel pb t (flush c o1 (owner ch c) o2 ch)"
proof -
  note people = buffers_only_people [OF b]
  have ch: "carries pb s ch" and o: "owner ch = owner_of s" using rel by (simp_all add: chat_rel_def)
  let ?ch = "flush c o1 (owner ch c) o2 ch"
  have "carries pb t ?ch"
    unfolding carries_def people(2,3) buffers_only_dom(2) [OF b]
  proof (intro conjI allI impI)
    fix e
    have "cout s e = (if e = c then o1 else []) @ cout t e" using d by (simp add: drains_def)
    with carriesD(1,2) [OF ch, of e] c
    show "mails pb (name_of s) (wire ?ch e) = flown ?ch e @ spoilt ?ch e @ cout t e"
      by (cases "e = c") (auto simp: flush_def)
  next
    fix u
    show "mails pb (name_of s) (stash ?ch u) = fetched ?ch u @ stored t u"
      using carriesD(3) [OF ch, of u] drains_stored [OF b d, of u] by (simp add: flush_def o)
  qed (use ch in \<open>auto simp: carries_def\<close>)
  with rel people(1) show ?thesis by (simp add: chat_rel_def same_people_def)
qed

text \<open>The bytes \<open>out\<close> written on connection \<open>c\<close>, seen from the chat.\<close>

definition flush_on :: "server \<Rightarrow> cref \<Rightarrow> bytes \<Rightarrow> chat_event list \<Rightarrow> bool" where
  "flush_on s c out es \<longleftrightarrow> (\<exists>o1 o2. out = o1 @ o2 \<and> es = [Flushed c o1 (owner_of s c) o2])"

lemma flush_evolves:
  assumes rel: "chat_rel pb s ch" and inv: "srv_inv s" and cl: "client_store s c = Some cl" and fits: "flush_fits s c r1 r2"
  shows "returns (flush_client s c r1 r2) (\<lambda>(out, t). evolves (flush_on s c out) pb s ch t)"
  using flush_client_spec [OF inv cl fits]
proof (rule returns_mono)
  fix r assume "case r of (out, t) \<Rightarrow> srv_inv t \<and> buffers_only s t
    \<and> (\<exists>o1 o2. out = o1 @ o2 \<and> o1 @ cout t c = cout s c \<and> o2 @ kept t c = kept s c \<and> drains c o1 o2 s t)"
  then obtain o1 o2 t where t: "r = (o1 @ o2, t)" "buffers_only s t" "drains c o1 o2 s t" by auto
  have "udb t = udb s" using t(2) by (rule buffers_only_fields)
  then have "findUser t = findUser s" by (simp add: findUser_def fun_eq_iff)
  moreover have o: "owner ch = owner_of s" "live ch = online s" using rel by (simp_all add: chat_rel_def)
  have "o2 \<noteq> [] \<longrightarrow> (\<exists>u. owner ch c = Some u \<and> live ch u)"
    using t(3) by (auto simp: drains_def o owner_of_def online_def)
  then have "chat_step (findUser s) (Flushed c o1 (owner ch c) o2) ch (flush c o1 (owner ch c) o2 ch)"
    by (intro chat_step.flushed refl)
  moreover have "chat_rel pb t (flush c o1 (owner ch c) o2 ch)" using rel t(2,3) cl by (intro drains_chat_rel) auto
  ultimately have "evolves (flush_on s c (o1 @ o2)) pb s ch t" by (rule evolves_one) (auto simp: flush_on_def o)
  with t(1) show "case r of (out, t) \<Rightarrow> evolves (flush_on s c out) pb s ch t" by simp
qed

text \<open>A new connection is nobody's and has nothing waiting.  The record of a closed connection that had the
  same descriptor is freed.\<close>

definition freed_by :: "server \<Rightarrow> int \<Rightarrow> chat_event list \<Rightarrow> bool" where
  "freed_by s fd es \<longleftrightarrow> (\<exists>d k. client_store s d = Some k \<and> c_fd k = fd \<and> es = [Freed d (cout s d)])
     \<or> (\<forall>d k. client_store s d = Some k \<longrightarrow> c_fd k \<noteq> fd) \<and> es = []"

lemma carries_accept:
  assumes ch: "carries pb s ch" and n: "name_of t = name_of s" "stored t = stored s"
    and old: "\<And>d. d \<noteq> next_client s \<Longrightarrow> client_store t d = (if P d then None else client_store s d)"
    and new: "cout t (next_client s) = []" "next_client t = Suc (next_client s)" "client_store s (next_client s) = None"
    and ch': "ch' = ch\<lparr>spoilt := (\<lambda>d. spoilt ch d @ (if P d then cout s d else []))\<rparr>"
  shows "carries pb t ch'"
proof -
  let ?n = "next_client s"
  have fresh: "flown ch ?n = []" "spoilt ch ?n = []" "cout s ?n = []" "wire ch ?n = []"
    using carriesD(1,4) [OF ch, of ?n] by simp_all
  have "mails pb (name_of t) (wire ch' d) = flown ch' d @ spoilt ch' d @ cout t d" for d
  proof (cases "d = ?n")
    case True
    then show ?thesis using fresh new by (simp add: ch')
  next
    case False
    have "cout t d = (if P d then [] else cout s d)" using old [OF False] by (simp add: cout_def)
    with carriesD(1) [OF ch, of d] show ?thesis by (simp add: ch' n)
  qed
  moreover have "spoilt ch' d = []" if "d \<in> dom (client_store t)" for d
  proof (cases "d = ?n")
    case True
    then show ?thesis using fresh by (simp add: ch')
  next
    case False
    with old [OF False] that have "\<not> P d" "d \<in> dom (client_store s)" by (auto simp: domIff split: if_splits)
    with carriesD(2) [OF ch, of d] show ?thesis by (auto simp: ch')
  qed
  moreover have "mails pb (name_of t) (stash ch' u) = fetched ch' u @ stored t u" for u
    using carriesD(3) [OF ch, of u] by (simp add: ch' n)
  moreover have "wire ch' d = []" if "next_client t \<le> d" for d
    using carriesD(4) [OF ch, of d] that new(2) by (simp add: ch')
  ultimately show ?thesis unfolding carries_def by blast
qed

lemma accept_evolves:
  assumes rel: "chat_rel pb s ch" and inv: "srv_inv s" and fd: "fd \<notin> open_fds s" and room: "length (clients s) < MAX_CLIENTS"
  shows "returns (add_client s fd a) (\<lambda>(c, t). evolves (freed_by s fd) pb s ch t)"
  using add_client_spec [OF inv fd room, of a]
proof (rule returns_mono)
  fix r :: "cref \<times> server"
  assume "case r of (c, t) \<Rightarrow> srv_inv t \<and> client_store t c = Some (new_client fd a)
    \<and> fd \<in> open_fds t \<and> users t = users s \<and> c \<in> set (clients t)
    \<and> udb t = udb s \<and> now t = now s \<and> c = next_client s \<and> next_client t = Suc c
    \<and> (\<forall>d k. d \<noteq> c \<longrightarrow> client_store t d = Some k \<longleftrightarrow> client_store s d = Some k \<and> c_fd k \<noteq> fd)"
  then obtain c t where t: "r = (c, t)" "client_store t c = Some (new_client fd a)" "users t = users s"
    "udb t = udb s" "now t = now s" "c = next_client s" "next_client t = Suc c"
    and old: "\<And>d k. d \<noteq> c \<Longrightarrow> client_store t d = Some k \<longleftrightarrow> client_store s d = Some k \<and> c_fd k \<noteq> fd"
    by (cases r) blast
  let ?P = "\<lambda>d. \<exists>k. client_store s d = Some k \<and> c_fd k = fd"
  have fresh: "client_store s c = None" using conns_okD(3) [OF srv_invD(3) [OF inv], of c] t(6) by (cases "client_store s c") auto
  have old': "client_store t d = (if ?P d then None else client_store s d)" if "d \<noteq> c" for d
  proof (cases "?P d \<or> client_store s d = None")
    case True
    then have "client_store t d \<noteq> Some k" for k using old [OF that, of k] by auto
    then have "client_store t d = None" by (rule not_Some_eq [THEN iffD1, OF allI])
    with True show ?thesis by auto
  next
    case False
    then obtain k where "client_store s d = Some k" "c_fd k \<noteq> fd" by blast
    with old [OF that, of k] show ?thesis by simp
  qed
  have nobody: "owner_of s d = None" if free: "?P d" for d
  proof -
    obtain k where k: "client_store s d = Some k" "c_fd k = fd" using free by blast
    then have "c_user k = None" using conns_okD(5) [OF srv_invD(3) [OF inv] k(1)] fd by (cases "c_user k") auto
    with k show ?thesis by (simp add: owner_of_def)
  qed
  have "owner_of t d = owner_of s d" for d
  proof (cases "d = c")
    case True
    then show ?thesis using t(2) fresh by (simp add: owner_of_def new_client_def)
  next
    case False
    then show ?thesis using old' [OF False] nobody [of d] by (auto simp: owner_of_def)
  qed
  moreover have live: "session_live t x = session_live s x" for x by (simp add: session_live_def t)
  ultimately have fields: "owner_of t = owner_of s" "online t = online s" "blocked_by t = blocked_by s"
    "name_of t = name_of s" "stored t = stored s"
    by (simp_all add: online_def blocked_by_def name_of_def stored_def t(3) fun_eq_iff)
  have dir: "findUser t = findUser s" by (simp add: findUser_def fun_eq_iff t(4))
  have c0: "cout t (next_client s) = []" using t(2,6) by (simp add: cout_def new_client_def init_buffer_ok)
  have ch: "carries pb s ch" using rel by (simp add: chat_rel_def)
  note accepted = carries_accept [OF ch fields(4,5) old' [unfolded t(6)] c0 t(7) [unfolded t(6)] fresh [unfolded t(6)]]
  have "evolves (freed_by s fd) pb s ch t"
  proof (cases "\<exists>d. ?P d")
    case True
    then obtain d k where d: "client_store s d = Some k" "c_fd k = fd" by blast
    have only: "?P e \<longleftrightarrow> e = d" for e
    proof
      show "e = d" if other: "?P e"
      proof -
        obtain l where "client_store s e = Some l" "c_fd l = fd" using other by (elim exE conjE)
        with conns_okD(4) [OF srv_invD(3) [OF inv] _ d(1)] d(2) show ?thesis by simp
      qed
    qed (use d in blast)
    have "carries pb t (spoil d (cout s d) ch)" by (rule accepted) (auto simp: spoil_def only fun_eq_iff)
    then have "chat_rel pb t (spoil d (cout s d) ch)" using rel fields by (simp add: chat_rel_def)
    moreover have "owner ch d = None" using rel nobody d by (simp add: chat_rel_def)
    then have "chat_step (findUser s) (Freed d (cout s d)) ch (spoil d (cout s d) ch)" by (rule chat_step.freed)
    moreover have "freed_by s fd [Freed d (cout s d)]" using d by (auto simp: freed_by_def)
    ultimately show ?thesis using dir by (intro evolves_one)
  next
    case False
    then have "spoilt ch = (\<lambda>d. spoilt ch d @ (if ?P d then cout s d else []))" by (intro ext) auto
    then have "carries pb t ch" by (intro accepted chat.equality) simp_all
    then have "chat_rel pb t ch" using rel fields by (simp add: chat_rel_def)
    with dir False show ?thesis by (intro evolves_stutter) (auto simp: freed_by_def)
  qed
  with t(1) show "case r of (c, t) \<Rightarrow> evolves (freed_by s fd) pb s ch t" by simp
qed

section \<open>The sweep and the clock\<close>

definition idle_on :: "'a proc_scheme \<Rightarrow> cref \<Rightarrow> chat_event list" where
  "idle_on s c = (if expired_on s c then [Idle c] else [])"

lemma time_check_evolves:
  assumes rel: "chat_rel pb s ch" and inv: "srv_inv s" and cl: "client_store s c = Some cl"
  shows "returns (time_check pb c s) (evolves (\<lambda>es. es = idle_on s c) pb s ch)"
proof -
  from time_check_spec [OF inv cl, of pb] obtain t where t: "time_check pb c s = Some t" "srv_inv t" "net_frame s t"
    "c_user cl = None \<longrightarrow> t = s"
    "\<forall>u. c_user cl = Some u \<longrightarrow> (\<exists>x. users s u = Some x \<and> u_client x = Some c
       \<and> (if session_live s x then t = s else told_idle pb c u x s t))"
    by (rule returnsE) (cases "c_user cl"; fastforce split: if_splits)
  have o: "c_user cl = Some u" if "users s u = Some x" "u_client x = Some c" for u x
    using heap_inv_user(5) [OF srv_invD(1) [OF inv] that] cl by auto
  have "evolves (\<lambda>es. es = idle_on s c) pb s ch t"
  proof (cases "expired_on s c")
    case False
    have "t = s"
    proof (cases "c_user cl")
      case (Some u)
      with t(5) obtain x where x: "users s u = Some x" "u_client x = Some c"
        "if session_live s x then t = s else told_idle pb c u x s t" by blast
      with False have "session_live s x" by (auto simp: expired_on_def expired_def)
      with x(3) show ?thesis by simp
    qed (simp add: t(4))
    with rel False show ?thesis by (simp add: evolves_stutter idle_on_def)
  next
    case True
    then obtain u x where x: "users s u = Some x" "u_client x = Some c" "\<not> session_live s x"
      by (auto simp: expired_on_def expired_def)
    with t(5) o [OF x(1,2)] have "told_idle pb c u x s t" by auto
    then obtain t1 where t1: "srv_inv t1" "net_frame s t1" "users t1 = (users s)(u \<mapsto> x\<lparr>u_client := None\<rparr>)"
      "\<forall>d. cout t1 d = cout_told (hears s u) (logout_notice pb x) s d"
      "respond pb c (Some (idle_response pb)) t1 = Some t" unfolding told_idle_def by blast
    note l = leave_rel [OF rel inv x(1,2) t1(1-3) t1(4) [rule_format]]
    obtain k where k: "client_store t1 c = Some k" using t1(2) cl by (rule net_frame_client)
    have "owner ch c = Some u" "\<not> live ch u"
      using rel cl x o [OF x(1,2)] by (auto simp: chat_rel_def owner_of_def online_def)
    then have "chat_step (findUser s) (Idle c) ch (replied c (Some (idle_response pb)) (leave c u ch))"
      by (rule chat_step.idle)
    moreover have "findUser t = findUser s" using t(3) by (simp add: findUser_def net_frame_def fun_eq_iff)
    ultimately show ?thesis
      using chat_rel_replied [OF l(1) t1(1) k t1(5)] True by (intro evolves_one) (simp_all add: idle_on_def)
  qed
  with t(1) show ?thesis by simp
qed

lemma sweep_expired_on:
  assumes I: "sweep_inv pb s C t" and c: "c \<notin> C"
  shows "expired_on t c = expired_on s c"
proof -
  note I' = sweep_invD [OF I]
  have e: "expired t x = expired s x" for x by (simp add: expired_def I'(7))
  have old: "users s u = Some y" if y: "users t u = Some y" "u_client y = Some c" for u y
  proof -
    obtain x where "users s u = Some x" "y = swept s C x" using I'(4) y(1) by auto
    with y(2) swept_fields(2) show ?thesis by metis
  qed
  have new: "users t u = Some y" if y: "users s u = Some y" "u_client y = Some c" for u y
    using I'(4) y c by (auto simp: swept_def)
  show ?thesis unfolding expired_on_def e using old new by blast
qed

lemma sweep_evolves:
  assumes rel: "chat_rel pb s ch" and inv: "srv_inv s"
  shows "returns (time_thread_round pb s) (evolves (\<lambda>es. es = concat (map (idle_on s) (clients s))) pb s ch)"
proof -
  note cs = conns_okD(1,2) [OF srv_invD(3) [OF inv]]
  let ?A = "\<lambda>ys es. es = concat (map (idle_on s) ys)"
  have "returns (time_thread_round pb s) (\<lambda>t. sweep_inv pb s (set (clients s)) t \<and> evolves (?A (clients s)) pb s ch t)"
    unfolding time_thread_round_def
  proof (rule foldM_prefix [where P = "\<lambda>ys t. sweep_inv pb s (set ys) t \<and> evolves (?A ys) pb s ch t"])
    have "map_option (swept s {}) o' = o'" for o' by (cases o') (auto simp: swept_def)
    then show "sweep_inv pb s (set []) s \<and> evolves (?A []) pb s ch s"
      using inv rel by (simp add: evolves_stutter sweep_inv_def)
  next
    fix ys c t assume "\<exists>zs. clients s = ys @ c # zs" and t: "sweep_inv pb s (set ys) t \<and> evolves (?A ys) pb s ch t"
    then have c: "c \<notin> set ys" "c \<in> dom (client_store s)" using cs by auto
    have I: "sweep_inv pb s (set ys) t" using t by blast
    from sweep_step [OF inv I c] obtain t' where
      t': "time_check pb c t = Some t'" "sweep_inv pb s (set (ys @ [c])) t'" by (auto elim!: returnsE)
    obtain cl where cl: "client_store s c = Some cl" using c(2) by blast
    obtain k where k: "client_store t c = Some k" using sweep_invD(2) [OF I] cl by (rule net_frame_client)
    have e: "idle_on t c = idle_on s c" using sweep_expired_on [OF I c(1)] by (simp add: idle_on_def)
    have "evolves (\<lambda>fs. ?A (ys @ [c]) (es @ fs)) pb t ch1 t'" if es: "?A ys es" and "chat_rel pb t ch1" for es ch1
    proof -
      have "evolves (\<lambda>fs. fs = idle_on t c) pb t ch1 t'"
        using time_check_evolves [OF that(2) sweep_invD(1) [OF I] k] t'(1) by (auto elim!: returnsE)
      then show ?thesis by (rule evolves_mono) (simp add: es e)
    qed
    from evolves_after [where B = "?A (ys @ [c])", OF conjunct2 [OF t] this] have "evolves (?A (ys @ [c])) pb s ch t'" .
    with t' show "returns (time_check pb c t) (\<lambda>t'. sweep_inv pb s (set (ys @ [c])) t' \<and> evolves (?A (ys @ [c])) pb s ch t')"
      by simp
  qed
  then show ?thesis by (auto elim!: returns_mono)
qed

text \<open>Sessions can only run out.\<close>

lemma tick_evolves:
  assumes rel: "chat_rel pb s ch" and t: "now s \<le> t"
  shows "evolves (\<lambda>es. es = [Clock]) pb s ch (tick t s)"
proof -
  let ?t = "tick t s"
  have "owner_of ?t = owner_of s" "blocked_by ?t = blocked_by s" "name_of ?t = name_of s"
    "stored ?t = stored s" "cout ?t = cout s" "next_client ?t = next_client s" "client_store ?t = client_store s"
    by (simp_all add: tick_def owner_of_def blocked_by_def name_of_def stored_def cout_def fun_eq_iff)
  then have "chat_rel pb ?t (ch\<lparr>live := online ?t\<rparr>)" using rel by (simp add: chat_rel_def carries_def)
  moreover have "\<forall>u. online ?t u \<longrightarrow> live ch u"
    using rel t by (auto simp: chat_rel_def online_def session_live_def tick_def)
  then have "chat_step (findUser s) Clock ch (ch\<lparr>live := online ?t\<rparr>)" by (rule chat_step.clock)
  moreover have "findUser ?t = findUser s" by (simp add: findUser_def tick_def fun_eq_iff)
  ultimately show ?thesis by (intro evolves_one) simp_all
qed

section \<open>One event of the network thread\<close>

text \<open>What an event of the network thread, at which \<open>out\<close> is written, means to the chat: the requests that
  have arrived on its connection, or the end of the connection, or the bytes written, or the record freed for
  a new connection; else nothing.  Nothing is written but what is told.\<close>

inductive heard :: "pb_lib \<Rightarrow> server \<Rightarrow> net_event \<Rightarrow> (int \<times> bytes) list \<Rightarrow> chat_event list \<Rightarrow> bool" for pb s ev where
  heard_end: "client_store s c = Some cl \<Longrightarrow> c_fd cl = ev_fd ev \<Longrightarrow>
    ev_err ev \<or> ev_fd ev \<noteq> masterfd s \<and> ev_in ev \<and> ev_recv ev = Recv [] \<Longrightarrow> heard pb s ev [] (lost_on s c)"
| heard_requests: "client_store s c = Some cl \<Longrightarrow> c_fd cl = ev_fd ev \<Longrightarrow>
    \<not> ev_err ev \<Longrightarrow> ev_fd ev \<noteq> masterfd s \<Longrightarrow> ev_in ev \<Longrightarrow> arrived pb cl (ev_recv ev) rs \<Longrightarrow>
    heard pb s ev [] (map (Served c) rs)"
| heard_output: "client_store s c = Some cl \<Longrightarrow> c_fd cl = ev_fd ev \<Longrightarrow>
    \<not> ev_err ev \<Longrightarrow> ev_fd ev \<noteq> masterfd s \<Longrightarrow> \<not> ev_in ev \<Longrightarrow> ev_out ev \<Longrightarrow> flush_on s c out es \<Longrightarrow>
    heard pb s ev [(ev_fd ev, out)] es"
| heard_new: "\<not> ev_err ev \<Longrightarrow> ev_fd ev = masterfd s \<Longrightarrow> ev_accept ev = Some (fd, a) \<Longrightarrow> freed_by s fd es \<Longrightarrow>
    heard pb s ev [] es"
| heard_nothing: "(if ev_fd ev = masterfd s \<and> \<not> ev_err ev then ev_accept ev = None
      else (\<forall>c cl. client_store s c = Some cl \<longrightarrow> c_fd cl = ev_fd ev \<longrightarrow> \<not> ev_err ev \<and> \<not> ev_in ev \<and> \<not> ev_out ev)) \<Longrightarrow>
    heard pb s ev [] []"

context pb_codec
begin

lemma handle_event_evolves:
  assumes rel: "chat_rel pb s ch" and inv: "srv_inv s" and clock: "clock_ok s" and fits: "event_fits pb s ev"
  shows "returns (handle_event pb s ev) (\<lambda>(go, out, t). evolves (heard pb s ev out) pb s ch t)"
proof -
  from lookup_client_spec [OF inv, of "ev_fd ev"] obtain j where j: "lookup_client s (ev_fd ev) = Some j" and
    look: "case j of None \<Rightarrow> \<forall>c cl. client_store s c = Some cl \<longrightarrow> c_fd cl \<noteq> ev_fd ev
      | Some i \<Rightarrow> i < length (clients s) \<and> (\<exists>cl. client_store s (clients s ! i) = Some cl \<and> c_fd cl = ev_fd ev)"
    by (rule returnsE)
  have stay: "evolves (heard pb s ev []) pb s ch s" if "heard pb s ev [] []" using rel that by (simp add: evolves_stutter)
  show ?thesis
  proof (cases "ev_fd ev = masterfd s \<and> \<not> ev_err ev")
    case new: True
    show ?thesis
    proof (cases "ev_accept ev")
      case None
      with new have "heard pb s ev [] []" by (intro heard_nothing) simp
      with new None stay show ?thesis by (simp add: handle_event_def)
    next
      case (Some fa)
      obtain fd a where a: "ev_accept ev = Some (fd, a)" using Some by (cases fa) simp
      have h: "heard pb s ev [] es" if "freed_by s fd es" for es using new a that by (intro heard_new) auto
      have "returns (add_client s fd a) (\<lambda>(c, t). evolves (freed_by s fd) pb s ch t)"
        using fits new a by (intro accept_evolves [OF rel inv]) (auto simp: event_fits_def)
      then have "returns (add_client s fd a) (\<lambda>(c, t). evolves (heard pb s ev []) pb s ch t)"
        by (rule returns_mono) (use h in \<open>auto elim!: evolves_mono\<close>)
      then show ?thesis using new a by (auto simp: handle_event_def elim!: returnsE)
    qed
  next
    case old: False
    show ?thesis
    proof (cases j)
      case None
      with look old have h: "heard pb s ev [] []" by (intro heard_nothing) auto
      show ?thesis unfolding handle_event_def j None using stay [OF h] old by auto
    next
      case (Some i)
      with look obtain cl where i: "client_store s (clients s ! i) = Some cl" "c_fd cl = ev_fd ev" by auto
      let ?c = "clients s ! i"
      have only: "d = ?c" if "client_store s d = Some k" "c_fd k = ev_fd ev" for d k
        using conns_okD(4) [OF srv_invD(3) [OF inv] that(1) i(1)] that(2) i(2) by simp
      consider (err) "ev_err ev" | (input) "\<not> ev_err ev" "ev_fd ev \<noteq> masterfd s" "ev_in ev"
        | (writes) "\<not> ev_err ev" "ev_fd ev \<noteq> masterfd s" "\<not> ev_in ev" "ev_out ev"
        | (other) "\<not> ev_err ev" "ev_fd ev \<noteq> masterfd s" "\<not> ev_in ev" "\<not> ev_out ev" using old by blast
      then show ?thesis
      proof cases
        case err
        then have "heard pb s ev [] (lost_on s ?c)" using i by (intro heard_end) auto
        then have "returns (close_socket pb s (Some ?c)) (evolves (heard pb s ev []) pb s ch)"
          using close_evolves [OF rel inv i(1)] by (auto elim!: returns_mono evolves_mono)
        then show ?thesis unfolding handle_event_def j Some using err by (auto elim!: returnsE)
      next
        case input
        let ?A = "\<lambda>es. if ev_recv ev = Recv [] then es = lost_on s ?c
          else \<exists>rs. arrived pb cl (ev_recv ev) rs \<and> es = map (Served ?c) rs"
        have "heard pb s ev [] es" if "?A es" for es
          using that input i by (auto split: if_splits intro: heard_end heard_requests)
        moreover have "returns (im_receive_command pb (parse_command pb) s ?c (ev_recv ev)) (evolves ?A pb s ch)"
          using receive_evolves [OF rel inv i(1) clock] fits i by (auto simp: event_fits_def)
        ultimately have "returns (im_receive_command pb (parse_command pb) s ?c (ev_recv ev)) (evolves (heard pb s ev []) pb s ch)"
          using evolves_mono by (auto elim!: returns_mono)
        then show ?thesis unfolding handle_event_def j Some using input by (auto elim!: returnsE)
      next
        case writes
        have "heard pb s ev [(ev_fd ev, out)] es" if "flush_on s ?c out es" for out es
          using i writes that by (intro heard_output)
        moreover have "returns (flush_client s ?c (ev_sent ev) (ev_sent_user ev)) (\<lambda>(out, t). evolves (flush_on s ?c out) pb s ch t)"
          using fits i by (intro flush_evolves [OF rel inv i(1)]) (auto simp: event_fits_def)
        ultimately show ?thesis
          unfolding handle_event_def j Some using writes by (auto elim!: returnsE evolves_mono)
      next
        case other
        then have h: "heard pb s ev [] []" using only i by (intro heard_nothing) auto
        show ?thesis unfolding handle_event_def j Some using stay [OF h] other by auto
      qed
    qed
  qed
qed

end

section \<open>Runs\<close>

text \<open>A step of the server at a time at which the idle time does not overflow, and what it means.\<close>

definition timely :: "pb_lib \<Rightarrow> server \<Rightarrow> server \<Rightarrow> bool" where
  "timely pb s t \<longleftrightarrow> clock_ok s \<and> server_step pb s t"

inductive stands_for :: "pb_lib \<Rightarrow> server \<Rightarrow> chat_event list \<Rightarrow> server \<Rightarrow> bool" for pb where
  event_for: "event_fits pb s ev \<Longrightarrow> handle_event pb s ev = Some (go, out, t) \<Longrightarrow> heard pb s ev out es \<Longrightarrow> stands_for pb s es t"
| sweep_for: "time_thread_round pb s = Some t \<Longrightarrow> stands_for pb s (concat (map (idle_on s) (clients s))) t"
| tick_for: "now s \<le> n \<Longrightarrow> stands_for pb s [Clock] (tick n s)"

text \<open>The server, with the directory \<open>dir\<close>, and the chat it is.\<close>

definition hosts :: "pb_lib \<Rightarrow> (bytes \<Rightarrow> uref option) \<Rightarrow> server \<Rightarrow> chat \<Rightarrow> bool" where
  "hosts pb dir s ch \<longleftrightarrow> srv_inv s \<and> findUser s = dir \<and> chat_rel pb s ch"

context pb_codec
begin

lemma server_step_evolves:
  assumes "chat_rel pb s ch" and "srv_inv s" and "clock_ok s" and "server_step pb s t"
  shows "evolves (\<lambda>es. stands_for pb s es t) pb s ch t"
  using assms(4)
proof (cases rule: server_step.cases)
  case (Step_Event ev go out)
  from handle_event_evolves [OF assms(1-3) this(1)] this(2) have "evolves (heard pb s ev out) pb s ch t" by simp
  with Step_Event show ?thesis by (auto intro: event_for elim: evolves_mono)
next
  case Step_Sweep
  with sweep_evolves [OF assms(1,2), of ] have "evolves (\<lambda>es. es = concat (map (idle_on s) (clients s))) pb s ch t"
    by (auto elim!: returnsE)
  with Step_Sweep show ?thesis by (auto intro: sweep_for elim: evolves_mono)
next
  case (Step_Tick n)
  with tick_evolves [OF assms(1) Step_Tick(2)] show ?thesis by (auto intro: tick_for elim: evolves_mono)
qed

lemma chat_simulation: "simulation (timely pb) (stands_for pb) (chat_run dir) (hosts pb dir)"
proof
  show "chat_run dir [] a a" for a by (rule run_nil)
  show "chat_run dir (es @ fs) a c" if "chat_run dir es a b" "chat_run dir fs b c" for es fs a b c
    using that(2,1) by (rule chat_run_append)
  show "\<exists>es b. stands_for pb s es t \<and> chat_run dir es a b \<and> hosts pb dir t b" if "hosts pb dir s a" "timely pb s t" for s t a
    using that server_step_evolves [of s a t] step_inv [of s t]
    unfolding hosts_def timely_def evolves_def by metis
qed

end

sublocale pb_codec < chat: simulation "timely pb" "stands_for pb" "chat_run dir" "hosts pb dir" for dir
  by (rule chat_simulation)

end
