(* ===== verification/Chat_Facts.thy ===== *)
theory Chat_Facts
  imports Refine_Run Demo
begin

text \<open>
  What the simulation gives for whole runs of the server: the server is the chat, whoever is blocked
  stays unheard, no message is lost, invented or doubled before it is on its way.
\<close>

interpretation wire_chat: simulation "timely wire_pb" "stands_for wire_pb" "chat_run dir" "hosts wire_pb dir" for dir
  by (rule pb_codec.chat_simulation [OF wire.pb_codec_axioms])

section \<open>The start\<close>

definition empty_chat :: chat where
  "empty_chat = \<lparr>owner = (\<lambda>_. None), live = (\<lambda>_. False), blocks = (\<lambda>_. {}), wire = (\<lambda>_. []), stash = (\<lambda>_. []),
     flown = (\<lambda>_. []), spoilt = (\<lambda>_. []), fetched = (\<lambda>_. [])\<rparr>"

definition just_born :: "server \<Rightarrow> bool" where
  "just_born s \<longleftrightarrow> (\<forall>u x. users s u = Some x \<longrightarrow> (\<exists>n p. x = new_user n p)) \<and> client_store s = Map.empty"

lemma addUser_just_born: "just_born s \<Longrightarrow> just_born (snd (addUser s name pw))"
  by (auto simp: just_born_def addUser_def Let_def)

lemma build_loop_just_born: "build_loop ts pw s = Some t \<Longrightarrow> just_born s \<Longrightarrow> just_born t"
proof (induction ts pw s rule: build_loop.induct)
  case (2 name pw s)
  then show ?case using addUser_just_born by (auto split: if_splits option.splits)
next
  case (3 name pw ts prev s)
  then have "build_loop ts (Some pw) (snd (addUser s name pw)) = Some t" by (auto split: if_splits)
  with 3 addUser_just_born show ?case by (auto split: if_splits)
qed simp

lemma just_born_chat:
  assumes "just_born s"
  shows "chat_rel pb s empty_chat"
proof -
  have x: "u_client x = None" "u_blocked x = []" "pending (u_buffer x) = []" if "users s u = Some x" for u x
  proof -
    obtain n p where "x = new_user n p" using assms \<open>users s u = Some x\<close> unfolding just_born_def by blast
    then show "u_client x = None" "u_blocked x = []" "pending (u_buffer x) = []"
      by (simp_all add: new_user_def init_buffer_ok)
  qed
  have "owner_of s = (\<lambda>_. None)" "cout s c = []" for c
    using assms by (auto simp: owner_of_def cout_def just_born_def)
  moreover have "online s = (\<lambda>_. False)" using x by (fastforce simp: online_def session_live_def)
  moreover have "blocked_by s = (\<lambda>_. {})" "stored s u = []" for u
    using x by (auto simp: blocked_by_def stored_def fun_eq_iff split: option.split)
  ultimately show ?thesis by (simp add: chat_rel_def carries_def empty_chat_def)
qed

lemma start_hosts:
  assumes "server_start credentials bd lt mfd t0 = Some s0"
  shows "hosts pb (findUser s0) s0 empty_chat"
proof -
  have "just_born ((blank_server mfd t0)\<lparr>udb := newUserDb bd lt\<rparr>)" by (simp add: just_born_def blank_server_def)
  with assms have "just_born s0"
    by (auto simp: server_start_def buildUserDb_def bind_eq_Some_conv dest!: build_loop_just_born)
      (auto simp: just_born_def)
  with server_start_inv [OF assms] show ?thesis by (simp add: hosts_def just_born_chat)
qed

lemma chat_rel_tidy: "srv_inv s \<Longrightarrow> chat_rel pb s ch \<Longrightarrow> tidy ch"
  using owner_of_link [OF srv_invD(1)] by (fastforce simp: tidy_def chat_rel_def online_def session_live_def)

section \<open>A run\<close>

text \<open>The run of the witnesses: the server starts, somebody connects and logs in as \<open>ann\<close>, and the kernel
  refuses the first attempt to write the answer.\<close>

lemma demo_start:
  "\<exists>s0. server_start ''ann a1 bob b1'' 60 50 3 100 = Some s0 \<and> open_fds s0 = {3} \<and> clients s0 = []
    \<and> client_store s0 = Map.empty \<and> next_client s0 = 0 \<and> masterfd s0 = 3 \<and> now s0 = 100 \<and> login_timeout (udb s0) = 50
    \<and> users s0 0 = Some (new_user ''ann'' ''a1'') \<and> findUser s0 ''ann'' = Some 0
    \<and> (\<forall>u x. users s0 u = Some x \<longrightarrow> u_client x = None)"
proof -
  have t: "tokens ''ann a1 bob b1'' = [''ann'', ''a1'', ''bob'', ''b1'']"
    by (simp add: tokens.simps isspace_def Let_def)
  have "trie_find (trie_put (trie_put newTrieUserNode ''ann'' 0) ''bob'' (Suc 0)) ''ann'' = Some 0"
    by (simp add: trie_find_put del: trie_put.simps trie_find.simps)
  then show ?thesis
    by (auto simp: server_start_def buildUserDb_def t USERNAME_LIMIT_def addUser_def Let_def blank_server_def newUserDb_def
        findUser_def simp del: trie_put.simps trie_find.simps split: if_splits)
qed

definition demo_accept :: net_event where
  "demo_accept = \<lparr>ev_fd = 3, ev_err = False, ev_in = True, ev_out = False,
     ev_accept = Some (8, \<lparr>sin_family = 2, sin_port = 80, sin_addr = 1\<rparr>),
     ev_recv = Recv_Error, ev_sent = Send_Error, ev_sent_user = Send_Error\<rparr>"

lemma demo_accept_fits: "open_fds s = {3} \<Longrightarrow> clients s = [] \<Longrightarrow> client_store s = Map.empty \<Longrightarrow> event_fits pb s demo_accept"
  by (simp add: event_fits_def demo_accept_def MAX_CLIENTS_def)

lemma demo_accepted:
  assumes "client_store s = Map.empty" and "clients s = []" and "next_client s = 0" and "masterfd s = 3" and "open_fds s = {3}"
  shows "\<exists>t. handle_event pb s demo_accept = Some (True, [], t) \<and> open_fds t = {3, 8} \<and> clients t = [0] \<and> users t = users s
    \<and> udb t = udb s \<and> now t = now s \<and> masterfd t = 3
    \<and> client_store t = [0 \<mapsto> new_client 8 \<lparr>sin_family = 2, sin_port = 80, sin_addr = 1\<rparr>]"
  using assms by (auto simp: handle_event_def demo_accept_def add_client_def lookup_client_def im_connection_accept_def
      put_client_def Let_def MAX_CLIENTS_def)

definition demo_login :: request where
  "demo_login = Login \<lparr>lr_username = ''ann'', lr_password = ''a1'', lr_port = 80\<rparr>"

lemma demo_login_bytes: "request_bytes wire_pb demo_login =
    [CHR 0x08, CHR 0x01, CHR 0x12, CHR 0x0B, CHR 0x0A, CHR 0x03, CHR ''a'', CHR ''n'', CHR ''n'',
     CHR 0x12, CHR 0x02, CHR ''a'', CHR ''1'', CHR 0x18, CHR 0x50]"
  by code_simp

lemma demo_login_small: "request_small wire_pb demo_login"
  by (simp add: request_small_def demo_login_def small_short encodeLoginRequestToBytes_def
      encodeLoginRequestToProtobufMsg_def small_wire)

definition demo_enter :: net_event where
  "demo_enter = \<lparr>ev_fd = 8, ev_err = False, ev_in = True, ev_out = False, ev_accept = None,
     ev_recv = Recv (request_bytes wire_pb demo_login), ev_sent = Send_Error, ev_sent_user = Send_Error\<rparr>"

definition demo_refused :: net_event where
  "demo_refused = \<lparr>ev_fd = 8, ev_err = False, ev_in = False, ev_out = True, ev_accept = None,
     ev_recv = Recv [], ev_sent = Send_Error, ev_sent_user = Send_Error\<rparr>"

lemma demo_entered:
  assumes inv: "srv_inv s" and s: "client_store s = [0 \<mapsto> new_client 8 a]" "clients s = [0]" "masterfd s = 3" "open_fds s = {3, 8}"
    and ann: "findUser s ''ann'' = Some 0" "users s 0 = Some (new_user ''ann'' ''a1'')"
    and free: "\<forall>u x. users s u = Some x \<longrightarrow> u_client x = None" and clock: "clock_ok s" "0 \<le> now s"
  shows "event_fits wire_pb s demo_enter
    \<and> returns (handle_event wire_pb s demo_enter) (\<lambda>(go, out, t). srv_inv t \<and> owner_of t 0 = Some 0 \<and> clock_ok t)"
proof -
  let ?cl = "new_client 8 a" and ?rs = "[demo_login]" and ?data = "request_bytes wire_pb demo_login"
  let ?s = "put_client 0 (?cl\<lparr>c_inbuffer := recv_store (recv_prepare (c_inbuffer ?cl)) ?data\<rparr>) s"
  have cl: "client_store s 0 = Some ?cl" "c_inbuffer ?cl = init_buffer MSG_LIMIT" "c_user ?cl = None" "c_fd ?cl = 8"
    by (simp_all add: s new_client_def)
  have data: "?data \<noteq> []" "length ?data \<le> recv_room (recv_prepare (c_inbuffer ?cl))"
    by (simp_all add: demo_login_bytes cl recv_room_def recv_prepare_def Let_def init_buffer_def reset_buffer_start_def MSG_LIMIT_def)
  have split: "pending (c_inbuffer ?cl) @ ?data = concat (map (request_bytes wire_pb) ?rs) @ []" by (simp add: cl init_buffer_ok)
  have small: "\<forall>r \<in> set ?rs. request_small wire_pb r" by (simp add: demo_login_small)
  have part: "partial_request wire_pb []" by (simp add: partial_request_def partial_message_def)
  have adm: "admissible_all wire_pb 0 ?rs ?s"
    using free s by (auto simp: demo_login_def heap_simps new_client_def split: option.split)
  have "input_fits wire_pb s 0 (Recv ?data)"
    unfolding input_fits_def using cl(1) data(2) split small part adm by blast
  then have fits: "event_fits wire_pb s demo_enter"
    by (auto simp: event_fits_def demo_enter_def s(1) flush_fits_def send_fits_def split: if_splits)
  have inv': "srv_inv ?s"
    by (intro srv_inv_put_input [OF inv cl(1)] recv_store_ok(2) recv_prepare_ok(1) data(2)
        heap_inv_client(2) [OF srv_invD(1) [OF inv] cl(1)])
  let ?k = "?cl\<lparr>c_inbuffer := recv_store (recv_prepare (c_inbuffer ?cl)) ?data\<rparr>"
  have k: "client_store ?s 0 = Some ?k" "c_user ?k = None" "c_fd ?k \<in> open_fds ?s"
    by (simp_all only: heap_simps fun_upd_same) (simp_all add: new_client_def s(4))
  have k': "findUser ?s ''ann'' = Some 0" "users ?s 0 = Some (new_user ''ann'' ''a1'')" "clock_ok ?s" "0 \<le> now ?s"
    using clock ann by (simp_all add: findUser_def clock_ok_def heap_simps)
  have "returns (serve_one wire_pb 0 (Login \<lparr>lr_username = ''ann'', lr_password = ''a1'', lr_port = 80\<rparr>) ?s)
      (\<lambda>t. owner_of t 0 = Some 0 \<and> clock_ok t)"
    by (rule serve_login_links [OF inv' k, where x = "new_user ''ann'' ''a1''"]) (use k' in simp_all)
  then have "returns (serve_one wire_pb 0 demo_login ?s) (\<lambda>t. owner_of t 0 = Some 0 \<and> clock_ok t)"
    by (simp only: demo_login_def)
  moreover from pb_codec.receive_stream [OF wire.pb_codec_axioms inv cl(1) small data split part adm]
  obtain t where "im_receive_command wire_pb (parse_command wire_pb) s 0 (Recv ?data) = Some t"
    "foldM (serve_one wire_pb 0) ?rs ?s = Some t" "srv_inv t" by (auto elim!: returnsE)
  moreover have "lookup_client s 8 = Some (Some 0)" by (simp add: lookup_client_def s new_client_def)
  ultimately have "returns (handle_event wire_pb s demo_enter) (\<lambda>(go, out, t). srv_inv t \<and> owner_of t 0 = Some 0 \<and> clock_ok t)"
    by (auto simp: handle_event_def demo_enter_def s elim!: returnsE)
  with fits show ?thesis by blast
qed

lemma demo_refused_fits: "event_fits pb s demo_refused"
  by (auto simp: event_fits_def demo_refused_def input_fits_def flush_fits_def send_fits_def)

lemma demo_run:
  "\<exists>s0 s1 s2 s3 go out. server_start ''ann a1 bob b1'' 60 50 3 100 = Some s0
    \<and> handle_event wire_pb s0 demo_accept = Some (True, [], s1) \<and> timely wire_pb s0 s1
    \<and> handle_event wire_pb s1 demo_enter = Some (go, out, s2) \<and> timely wire_pb s1 s2 \<and> owner_of s2 0 = Some 0
    \<and> (\<exists>go out. handle_event wire_pb s2 demo_refused = Some (go, out, s3)) \<and> timely wire_pb s2 s3"
proof -
  obtain s0 where s0: "server_start ''ann a1 bob b1'' 60 50 3 100 = Some s0" "open_fds s0 = {3}" "clients s0 = []"
    "client_store s0 = Map.empty" "next_client s0 = 0" "masterfd s0 = 3" "now s0 = 100" "login_timeout (udb s0) = 50"
    "users s0 0 = Some (new_user ''ann'' ''a1'')" "findUser s0 ''ann'' = Some 0"
    "\<forall>u x. users s0 u = Some x \<longrightarrow> u_client x = None" using demo_start by blast
  note fits0 = demo_accept_fits [OF s0(2-4), of wire_pb]
  from demo_accepted [OF s0(4,3,5,6,2), of wire_pb] obtain s1 where
    s1: "handle_event wire_pb s0 demo_accept = Some (True, [], s1)" "open_fds s1 = {3, 8}" "clients s1 = [0]"
      "users s1 = users s0" "udb s1 = udb s0" "now s1 = now s0" "masterfd s1 = 3"
      "client_store s1 = [0 \<mapsto> new_client 8 \<lparr>sin_family = 2, sin_port = 80, sin_addr = 1\<rparr>]" by blast
  have step0: "server_step wire_pb s0 s1" using fits0 s1(1) by (rule Step_Event)
  have inv1: "srv_inv s1" using pb_codec.step_inv [OF wire.pb_codec_axioms step0] server_start_inv [OF s0(1)] by blast
  have clock: "clock_ok s0" "clock_ok s1" by (simp_all add: clock_ok_def s0 s1)
  have ann: "findUser s1 ''ann'' = Some 0" "users s1 0 = Some (new_user ''ann'' ''a1'')" "0 \<le> now s1"
    "\<forall>u x. users s1 u = Some x \<longrightarrow> u_client x = None" using s0 s1 by (simp_all add: findUser_def)
  from demo_entered [OF inv1 s1(8,3,7,2) ann(1,2,4) clock(2) ann(3)] obtain go out s2 where
    s2: "event_fits wire_pb s1 demo_enter" "handle_event wire_pb s1 demo_enter = Some (go, out, s2)" "srv_inv s2" "owner_of s2 0 = Some 0" "clock_ok s2"
    by (auto elim!: returnsE)
  have step1: "server_step wire_pb s1 s2" using s2(1,2) by (rule Step_Event)
  obtain s3 where s3: "\<exists>go out. handle_event wire_pb s2 demo_refused = Some (go, out, s3)"
    using pb_codec.handle_event_safe [OF wire.pb_codec_axioms s2(3) demo_refused_fits] by (auto elim!: returnsE)
  have "server_step wire_pb s2 s3" using s3 demo_refused_fits by (auto intro: Step_Event)
  then show ?thesis using s0(1) s1(1) s2(2,4,5) s3 step0 step1 clock unfolding timely_def by blast
qed

section \<open>The server is the chat\<close>

text \<open>What has left by the end of a run.\<close>

lemma chat_rel_left:
  assumes "chat_rel pb t ch'" and "chat_run dir es ch ch'"
  shows "mails pb (name_of t) (wire ch' c) = flown ch c @ sent_on c es @ spoilt ch c @ freed_on c es @ cout t c"
    "mails pb (name_of t) (stash ch' u) = fetched ch u @ sent_for u es @ stored t u"
    "client_store t c = Some cl \<Longrightarrow> spoilt ch c = [] \<and> freed_on c es = []"
proof -
  have ch: "carries pb t ch'" using assms(1) by (simp add: chat_rel_def)
  have left: "flown ch' c = flown ch c @ sent_on c es \<and> fetched ch' u = fetched ch u @ sent_for u es
      \<and> spoilt ch' c = spoilt ch c @ freed_on c es" for c u
    using run_left [OF assms(2)] .
  show "mails pb (name_of t) (wire ch' c) = flown ch c @ sent_on c es @ spoilt ch c @ freed_on c es @ cout t c"
    "mails pb (name_of t) (stash ch' u) = fetched ch u @ sent_for u es @ stored t u"
    using carriesD(1,3) [OF ch] left by simp_all
  show "client_store t c = Some cl \<Longrightarrow> spoilt ch c = [] \<and> freed_on c es = []"
    using carriesD(2) [OF ch, of c] left [of c] by simp
qed



text \<open>The concrete event of the witnesses: the message of \<open>ann\<close> arrives on the first connection.\<close>

definition demo_input :: net_event where
  "demo_input = \<lparr>ev_fd = 5, ev_err = False, ev_in = True, ev_out = False, ev_accept = None,
     ev_recv = Recv (request_bytes wire_pb demo_say), ev_sent = Send_Error, ev_sent_user = Send_Error\<rparr>"

lemma demo_input_fits:
  assumes "client_store s = client_store demo"
  shows "event_fits wire_pb s demo_input"
proof -
  let ?cl = "demo_client 5 (Some 0)"
  have "input_fits wire_pb s 0 (Recv (request_bytes wire_pb demo_say))"
    unfolding input_fits_def
  proof (intro disjI2 exI conjI)
    show "client_store s 0 = Some ?cl" by (simp add: assms)
    show "length (request_bytes wire_pb demo_say) \<le> recv_room (recv_prepare (c_inbuffer ?cl))"
      by (simp add: demo_say_bytes recv_room_def recv_prepare_def Let_def init_buffer_def reset_buffer_start_def MSG_LIMIT_def)
    show "pending (c_inbuffer ?cl) @ request_bytes wire_pb demo_say = concat (map (request_bytes wire_pb) [demo_say]) @ []"
      by (simp add: init_buffer_ok)
    show "\<forall>r \<in> set [demo_say]. request_small wire_pb r" by (simp add: demo_say_small)
    show "partial_request wire_pb []" by (simp add: partial_request_def partial_message_def)
    show "admissible_all wire_pb 0 [demo_say] t" for t by (simp add: demo_say_def split: option.split)
  qed simp
  then show ?thesis
    by (auto simp: event_fits_def demo_input_def assms flush_fits_def send_fits_def split: if_splits)
qed

lemma demo_steps:
  assumes "client_store s = client_store demo" and "srv_inv s" and "clock_ok s"
  shows "\<exists>t. (timely wire_pb)\<^sup>*\<^sup>* s t \<and> (\<exists>go out. handle_event wire_pb s demo_input = Some (go, out, t))"
proof -
  note fits = demo_input_fits [OF assms(1)]
  obtain go out t where t: "handle_event wire_pb s demo_input = Some (go, out, t)"
    using pb_codec.handle_event_safe [OF wire.pb_codec_axioms assms(2) fits] by (auto elim!: returnsE)
  with fits assms(3) have "timely wire_pb s t" by (auto simp: timely_def intro: Step_Event)
  with t show ?thesis by blast
qed

text \<open>The chat a quiet server is.\<close>

definition chat_now :: "server \<Rightarrow> chat" where
  "chat_now s = \<lparr>owner = owner_of s, live = online s, blocks = blocked_by s, wire = (\<lambda>_. []), stash = (\<lambda>_. []),
     flown = (\<lambda>_. []), spoilt = (\<lambda>_. []), fetched = (\<lambda>_. [])\<rparr>"

lemma chat_now_rel: "(\<And>c. cout s c = []) \<Longrightarrow> (\<And>u. stored s u = []) \<Longrightarrow> chat_rel pb s (chat_now s)"
  by (simp add: chat_rel_def chat_now_def carries_def)

lemma demo_clock: "clock_ok demo"
  by (simp add: clock_ok_def)

lemma demo_silent: "cout demo c = []" "stored demo u = []"
  by (simp_all add: cout_def stored_def init_buffer_ok)

text \<open>C6. Every message is accounted for.  Whatever timely steps the server makes from any state on (see C1 for
  what they exclude), a text from \<open>a\<close> to \<open>b\<close> has been put on a connection or is kept for \<open>b\<close> exactly if
  it was before or, at some moment of the run, \<open>a\<close>, in a live session, sent it, to \<open>b\<close> or to everybody
  while \<open>b\<close> was there, and \<open>b\<close> had not blocked \<open>a\<close>; and of the mail put on a connection or kept for a user every
  byte has been written, in order, or waits, except that what a closed connection had not sent goes with its
  record: nothing is lost or invented otherwise, over any interleaving of logins, hang-ups, failed or
  partial writes and sweeps.\<close>

theorem messages_accounted_for:
  assumes "pb_codec pb" and "srv_inv s" and "chat_rel pb s ch" and "(timely pb)\<^sup>*\<^sup>* s t"
  shows "\<exists>es ch'. traced (stands_for pb) s es t \<and> chat_rel pb t ch'
    \<and> (\<forall>a b m. in_mail ch' (Said a b m) \<longleftrightarrow> in_mail ch (Said a b m) \<or> said_in (findUser s) es ch ch' a b m)
    \<and> (\<forall>c cl. client_store t c = Some cl \<longrightarrow>
         mails pb (name_of t) (wire ch' c) = flown ch c @ sent_on c es @ cout t c)
    \<and> (\<forall>c. mails pb (name_of t) (wire ch' c) = flown ch c @ sent_on c es @ spoilt ch c @ freed_on c es @ cout t c)
    \<and> (\<forall>u. mails pb (name_of t) (stash ch' u) = fetched ch u @ sent_for u es @ stored t u)"
proof -
  have h: "hosts pb (findUser s) s ch" using assms(2,3) by (simp add: hosts_def)
  from simulation.sim_run [OF pb_codec.chat_simulation [OF assms(1)] assms(4) h] obtain es ch' where
    e: "traced (stands_for pb) s es t" "chat_run (findUser s) es ch ch'" "chat_rel pb t ch'" by (auto simp: hosts_def)
  note left = chat_rel_left [OF e(3,2)]
  have "mails pb (name_of t) (wire ch' c) = flown ch c @ sent_on c es @ cout t c" if "client_store t c = Some cl" for c cl
    using left(1) [of c] left(3) [OF that] by simp
  with run_said [OF e(2) chat_rel_tidy [OF assms(2,3)]] e(1,3) left(1,2) show ?thesis by blast
qed

lemma messages_accounted_for_witness:
  "\<exists>t es ch'. (\<exists>go out. handle_event wire_pb demo demo_input = Some (go, out, t))
    \<and> traced (stands_for wire_pb) demo es t \<and> chat_rel wire_pb t ch'
    \<and> (\<forall>a b m. in_mail ch' (Said a b m) \<longleftrightarrow> said_in (findUser demo) es (chat_now demo) ch' a b m)
    \<and> (\<forall>u. mails wire_pb (name_of t) (stash ch' u) = sent_for u es @ stored t u)"
proof -
  obtain t where t: "(timely wire_pb)\<^sup>*\<^sup>* demo t" "\<exists>go out. handle_event wire_pb demo demo_input = Some (go, out, t)"
    using demo_steps [OF refl demo_inv demo_clock] by blast
  have "\<not> in_mail (chat_now demo) e" "fetched (chat_now demo) u = []" for e u by (simp_all add: in_mail_def chat_now_def)
  with messages_accounted_for [OF wire.pb_codec_axioms demo_inv chat_now_rel [OF demo_silent] t(1)] t(2)
  show ?thesis by simp blast
qed

text \<open>C7. Blocking lasts.  Once \<open>b\<close> has blocked \<open>a\<close>, however long the server runs (in timely steps, as in C1) and
  whatever is sent,
  as long as nobody asks to unblock \<open>a\<close>: \<open>a\<close> stays blocked, across logouts, new logins and hang-ups
  of either, and not one more text from \<open>a\<close> to \<open>b\<close> gets on any connection or is kept for \<open>b\<close>.\<close>

theorem blocked_for_good:
  assumes "pb_codec pb" and "srv_inv s" and "chat_rel pb s ch" and "a \<in> blocked_by s b" and "(timely pb)\<^sup>*\<^sup>* s t"
  shows "\<exists>es ch'. traced (stands_for pb) s es t \<and> chat_rel pb t ch'
    \<and> ((\<forall>e \<in> set es. \<not> unblocks (findUser s) a e) \<longrightarrow> a \<in> blocked_by t b \<and> quiet_between a b ch ch')"
proof -
  have h: "hosts pb (findUser s) s ch" using assms(2,3) by (simp add: hosts_def)
  from simulation.sim_run [OF pb_codec.chat_simulation [OF assms(1)] assms(5) h] obtain es ch' where
    e: "traced (stands_for pb) s es t" "chat_run (findUser s) es ch ch'" "chat_rel pb t ch'" by (auto simp: hosts_def)
  moreover have "a \<in> blocks ch b" "blocks ch' = blocked_by t" using assms(3,4) e(3) by (simp_all add: chat_rel_def)
  ultimately show ?thesis using run_blocked [of "findUser s" es ch ch' a b] by metis
qed

lemma blocked_for_good_witness:
  "\<exists>t es ch'. (\<exists>go out. handle_event wire_pb (put_user 1 ((demo_user ''bob'' ''b1'' (Some 1))\<lparr>u_blocked := [0]\<rparr>) demo) demo_input
      = Some (go, out, t)) \<and> chat_rel wire_pb t ch'
    \<and> ((\<forall>e \<in> set es. \<not> unblocks (findUser demo) 0 e) \<longrightarrow> 0 \<in> blocked_by t 1)"
proof -
  let ?x = "(demo_user ''bob'' ''b1'' (Some 1))\<lparr>u_blocked := [0]\<rparr>"
  let ?s = "put_user 1 ?x demo"
  have inv: "srv_inv ?s"
    using cmd_block_spec [OF demo_inv demo_logged(2), where req = "\<lparr>br_username = ''ann''\<rparr>" and pb = wire_pb]
    by (simp add: demo_find block_answer_def)
  have "clock_ok ?s" "client_store ?s = client_store demo" by (simp_all add: clock_ok_def heap_simps)
  then obtain t where t: "(timely wire_pb)\<^sup>*\<^sup>* ?s t" "\<exists>go out. handle_event wire_pb ?s demo_input = Some (go, out, t)"
    using demo_steps [OF _ inv] by blast
  have "cout ?s c = []" "stored ?s u = []" for c u
    by (simp_all add: cout_def stored_def heap_simps init_buffer_ok)
  then have "chat_rel wire_pb ?s (chat_now ?s)" by (rule chat_now_rel)
  moreover have "0 \<in> blocked_by ?s 1" by (simp add: blocked_by_def heap_simps)
  moreover have "findUser ?s = findUser demo" by (simp add: findUser_def fun_eq_iff heap_simps)
  ultimately show ?thesis using blocked_for_good [OF wire.pb_codec_axioms inv _ _ t(1), of "chat_now ?s" 0 1] t(2) by metis
qed

section \<open>What every reachable state is like\<close>

lemma demo_one_user:
  "\<exists>s0. server_start ''ann a1'' 60 50 3 100 = Some s0 \<and> reachable wire_pb s0 (tick 200 s0) \<and> db_first (udb s0) = [0]
    \<and> map_option u_username (users s0 0) = Some ''ann''"
proof -
  have "tokens ''ann a1'' = [''ann'', ''a1'']" by (simp add: tokens.simps isspace_def Let_def)
  then obtain s0 where s0: "server_start ''ann a1'' 60 50 3 100 = Some s0" "now s0 = 100" "db_first (udb s0) = [0]"
    "map_option u_username (users s0 0) = Some ''ann''"
    by (simp add: server_start_def buildUserDb_def USERNAME_LIMIT_def addUser_def Let_def blank_server_def newUserDb_def)
  moreover from s0(2) have "reachable wire_pb s0 (tick 200 s0)" by (intro Reach_Step [OF Reach_Start] Step_Tick) simp
  ultimately show ?thesis by blast
qed



text \<open>C18. The index and the list agree: in every state the server gets to, looking a name up in the trie
  is the same as searching the linked list of all users for it.\<close>

theorem index_equals_scan:
  assumes "pb_codec pb" and "server_start credentials bd lt mfd t0 = Some s0" and "reachable pb s0 s"
  shows "findUser s name = List.find (\<lambda>u. map_option u_username (users s u) = Some (cstr name)) (db_first (udb s))"
proof -
  have "srv_inv s" using pb_codec.reachable_inv [OF assms(1,3)] server_start_inv [OF assms(2)] by blast
  moreover have "named s (cstr name) = (\<lambda>u. map_option u_username (users s u) = Some (cstr name))"
    by (auto simp: named_def fun_eq_iff split: option.split)
  ultimately show ?thesis using findUser_list [OF srv_invD(5)] by metis
qed

lemma index_equals_scan_witness:
  "\<exists>s0. server_start ''ann a1'' 60 50 3 100 = Some s0 \<and> findUser (tick 200 s0) ''ann'' = Some 0
    \<and> findUser (tick 200 s0) ''an'' = None"
proof -
  obtain s0 where s0: "server_start ''ann a1'' 60 50 3 100 = Some s0" "reachable wire_pb s0 (tick 200 s0)"
    "db_first (udb s0) = [0]" "map_option u_username (users s0 0) = Some ''ann''" using demo_one_user by blast
  have "cstr ''an'' = ''an''" by (simp add: cstr_def)
  with index_equals_scan [OF wire.pb_codec_axioms s0(1,2)] s0 show ?thesis by (auto simp: tick_def)
qed

end
