(* ===== verification/Client_Limits.thy ===== *)
theory Client_Limits
  imports Client_Facts
begin

text \<open>
  Where the client does not do what it means to: chunk sizes below zero, and file names of a peer that
  lead out of the data directory.
\<close>

section \<open>Chunks that do not exist\<close>

lemma chunk_count_negative:
  assumes "0 < m" and "0 < q"
  shows "chunk_count (q * m) (- m) = - q"
  using assms by (simp add: chunk_count_def div_long_def abs_mult sgn_mult)

lemma unat_minus:
  assumes "0 < q" and "q < 2 ^ 32"
  shows "int (unat (word_of_int (- q) :: u32)) = 2 ^ 32 - q"
proof -
  have "int (unat (word_of_int (- q) :: u32)) = (- q) mod 2 ^ 32"
    using uint_word_of_int [where ?'a = 32, of "- q"] by simp
  also have "\<dots> = (- q + 2 ^ 32) mod 2 ^ 32" by simp
  also have "\<dots> = - q + 2 ^ 32" using assms by (intro mod_pos_pos_trivial) auto
  finally show ?thesis by simp
qed

text \<open>A chunk size below zero is accepted.  When it divides the size of the file, the count is
  negative too: not one chunk is written, but the server is told, in 32 bits, of \<open>2 ^ 32\<close> chunks less
  the quotient.\<close>

theorem negative_chunk_size_phantoms:
  fixes s :: client
  assumes "plain (datapath s)" and "plain f" and "cl_files s [] = Some Dir" and "cl_files s [datapath s] = Some Dir"
    and "cl_files s [datapath s, f] = None" and "0 < m" and "0 < q" and "q < 2 ^ 32" and "int (length content) = q * m"
  shows "\<exists>n. register_chunks pb f content (- m) (chunk_count (int (length content)) (- m)) s =
      Some (Some \<lparr>imq_type = 8, imq_value = encodeRegisterFileRequestToBytes pb \<lparr>rfr_filename = f, rfr_chunks = n\<rparr>\<rparr>,
            s\<lparr>cl_files := (cl_files s)([datapath s, f] \<mapsto> Dir)\<rparr>)
    \<and> int (unat n) = 2 ^ 32 - q"
  using mkdir_fresh(1) [OF assms(1-5)] unat_minus [OF assms(7,8)] assms(7)
  by (intro exI [of _ "word_of_int (- q)"])
    (simp add: register_chunks_def assms(9) chunk_count_negative [OF assms(6,7)] mk_request_def)

lemma negative_chunk_size_phantoms_witness:
  "chunk_size ''-5'' = -5
   \<and> (\<exists>n. register_chunks wire_pb ''f'' ''0123456789'' (- 5) (chunk_count 10 (- 5)) (demo_cl ''ann'' demo_dir []) =
      Some (Some \<lparr>imq_type = 8, imq_value = encodeRegisterFileRequestToBytes wire_pb \<lparr>rfr_filename = ''f'', rfr_chunks = n\<rparr>\<rparr>,
            (demo_cl ''ann'' demo_dir [])\<lparr>cl_files := demo_dir([''data'', ''f''] \<mapsto> Dir)\<rparr>)
    \<and> int (unat n) = 4294967294)"
proof
  show "chunk_size ''-5'' = -5" by code_simp
  have "plain ''f''" by (simp add: plain_def)
  then show "\<exists>n. register_chunks wire_pb ''f'' ''0123456789'' (- 5) (chunk_count 10 (- 5)) (demo_cl ''ann'' demo_dir []) =
      Some (Some \<lparr>imq_type = 8, imq_value = encodeRegisterFileRequestToBytes wire_pb \<lparr>rfr_filename = ''f'', rfr_chunks = n\<rparr>\<rparr>,
            (demo_cl ''ann'' demo_dir [])\<lparr>cl_files := demo_dir([''data'', ''f''] \<mapsto> Dir)\<rparr>)
    \<and> int (unat n) = 4294967294"
    using negative_chunk_size_phantoms [where s = "demo_cl ''ann'' demo_dir []" and f = "''f''" and m = 5 and q = 2
        and content = "''0123456789''" and pb = wire_pb]
    by simp
qed

section \<open>Out of the data directory\<close>

lemma resolve_outside:
  assumes "plain d" and "plain x" and "plain k" and "fs [] = Some Dir" and "fs [d] = Some Dir" and "fs [x] = Some Dir"
  shows "resolve fs (d @ ''/'' @ (''../'' @ x)) = Some [x]"
    "resolve fs (d @ ''/'' @ (''../'' @ x) @ ''/'' @ k) = Some [x, k]"
proof -
  obtain c cs where d: "d = c # cs" "c \<noteq> CHR ''/''" using assms(1) by (cases d) (auto simp: plain_def)
  have split: "split_slash (d @ ''/'' @ (''../'' @ x)) = [d, ''..'', x]"
    "split_slash (d @ ''/'' @ (''../'' @ x) @ ''/'' @ k) = [d, ''..'', x, k]"
    using split_slash_step [of d "''../'' @ x"] split_slash_step [of "''..''" x] split_slash_last [of x]
      split_slash_step [of d "''../'' @ x @ ''/'' @ k"] split_slash_step [of "''..''" "x @ ''/'' @ k"]
      split_slash_step [of x k] split_slash_last [of k] assms(1-3)
    by (simp_all add: plain_def)
  have id: "cstr (d @ ''/'' @ (''../'' @ x)) = d @ ''/'' @ (''../'' @ x)"
    "cstr (d @ ''/'' @ (''../'' @ x) @ ''/'' @ k) = d @ ''/'' @ (''../'' @ x) @ ''/'' @ k"
    using assms(1-3) by (auto simp: plain_def intro!: cstr_id)
  have names: "d \<noteq> ''..''" "d \<noteq> ''.''" "d \<noteq> []" "x \<noteq> ''..''" "x \<noteq> ''.''" "x \<noteq> []" "k \<noteq> ''..''" "k \<noteq> ''.''" "k \<noteq> []" "d \<noteq> ''/''"
    using assms(1-3) by (auto simp: plain_def)
  show "resolve fs (d @ ''/'' @ (''../'' @ x)) = Some [x]"
    unfolding resolve_def id(1) using names d split(1) assms(4-6) by (simp add: parent_dir_def)
  show "resolve fs (d @ ''/'' @ (''../'' @ x) @ ''/'' @ k) = Some [x, k]"
    unfolding resolve_def id(2) using names d split(2) assms(4-6) by (simp add: parent_dir_def)
qed

lemma mkdir_outside:
  assumes "plain d" and "plain x" and "fs [] = Some Dir" and "fs [d] = Some Dir" and "fs [x] = Some Dir"
  shows "mkdir fs (d @ ''/'' @ (''../'' @ x)) = None"
proof -
  have "NUL \<notin> set (d @ ''/'' @ (''../'' @ x))" "CHR ''/'' \<notin> set x" "x \<noteq> []" using assms(1,2) by (auto simp: plain_def)
  then have strip: "rev (dropWhile (\<lambda>c. c = CHR ''/'') (rev (cstr (d @ ''/'' @ (''../'' @ x))))) = d @ ''/'' @ (''../'' @ x)"
    by (cases x rule: rev_cases) (auto simp: cstr_id)
  show ?thesis
    unfolding mkdir_def strip resolve_outside(1) [OF assms(1,2) plain_dec assms(3-5)] using assms(5) by simp
qed

text \<open>C37. The file name in a message of a peer is not looked at.  With \<open>../x\<close> the peer reads the files
  of a directory \<open>x\<close> beside the data directory, and writes into it, over what is there.\<close>

theorem peer_leaves_data_directory:
  fixes s :: client
  assumes "plain (datapath s)" and "plain x" and "cl_files s [] = Some Dir" and "cl_files s [datapath s] = Some Dir"
    and "cl_files s [x] = Some Dir" and "cl_files s [x, dec (unat k)] = Some (Reg secret)"
    and "server_conn s = Some c" and "client_store s c = Some cl" and "\<not> c_locked cl" and "buf_ok (c_outbuffer cl)"
  shows "getChunkDataResponse pb s \<lparr>cdq_filename = ''../'' @ x, cdq_chunk = k\<rparr> = \<lparr>rsp_type = 6, rsp_success = True,
      rsp_value = encodeChunkDataResponseToBytes pb \<lparr>cdr_filename = ''../'' @ x, cdr_chunk = k, cdr_data = secret\<rparr>\<rparr>
    \<and> returns (writeFile pb s \<lparr>cdr_filename = ''../'' @ x, cdr_chunk = k, cdr_data = data\<rparr>)
        (\<lambda>t. cl_files t = (cl_files s)([x, dec (unat k)] \<mapsto> Reg data))"
proof
  note out = resolve_outside [OF assms(1,2) plain_dec assms(3-5)]
  have name: "cstr (''../'' @ x) = ''../'' @ x" using assms(2) by (auto simp: plain_def intro!: cstr_id)
  have path: "chunk_path (datapath s) (''../'' @ x) k = datapath s @ ''/'' @ (''../'' @ x) @ ''/'' @ dec (unat k)"
    by (simp only: chunk_path_def name)
  show "getChunkDataResponse pb s \<lparr>cdq_filename = ''../'' @ x, cdq_chunk = k\<rparr> = \<lparr>rsp_type = 6, rsp_success = True,
      rsp_value = encodeChunkDataResponseToBytes pb \<lparr>cdr_filename = ''../'' @ x, cdr_chunk = k, cdr_data = secret\<rparr>\<rparr>"
    unfolding getChunkDataResponse_def ChunkDataRequest.simps path read_file_def stat_def out(2) name
    using assms(6) by simp
  let ?cdr = "\<lparr>cdr_filename = ''../'' @ x, cdr_chunk = k, cdr_data = data\<rparr>"
  have w: "write_file (cl_files s) (chunk_path (datapath s) (''../'' @ x) k) data
      = Some ((cl_files s)([x, dec (unat k)] \<mapsto> Reg data))"
    unfolding path write_file_def out(2) using assms(6) by simp
  from append_ok [OF assms(10), of "encodeIMRequestToBytes pb (chunk_registration pb ?cdr)"] obtain ob where
    ob: "send_request pb (c_outbuffer cl) (chunk_registration pb ?cdr) = Some ob"
    by (auto simp: send_request_def elim!: returnsE)
  show "returns (writeFile pb s ?cdr) (\<lambda>t. cl_files t = (cl_files s)([x, dec (unat k)] \<mapsto> Reg data))"
    unfolding writeFile_def ChunkDataResponse.simps name mkdir_outside [OF assms(1-5)] option.case Let_def w
    using assms(7-9) ob
    by (simp add: server_conn_def print_line_def put_client_def epoll_do_send_buffer_def split: list.splits)
qed

text \<open>A directory \<open>keys\<close> beside \<open>data\<close>.\<close>

definition demo_keys :: files where
  "demo_keys = demo_dir([''keys''] \<mapsto> Dir, [''keys'', dec 0] \<mapsto> Reg ''secret'')"

lemma peer_leaves_data_directory_witness:
  "rsp_value (getChunkDataResponse wire_pb (demo_cl ''ann'' demo_keys []) \<lparr>cdq_filename = ''../keys'', cdq_chunk = 0\<rparr>)
      = encodeChunkDataResponseToBytes wire_pb \<lparr>cdr_filename = ''../keys'', cdr_chunk = 0, cdr_data = ''secret''\<rparr>
    \<and> returns (writeFile wire_pb (demo_cl ''ann'' demo_keys []) \<lparr>cdr_filename = ''../keys'', cdr_chunk = 0, cdr_data = ''evil''\<rparr>)
        (\<lambda>t. get_reg (cl_files t) [''keys'', dec 0] = Some ''evil'')"
proof -
  have "plain ''keys''" by (simp add: plain_def)
  then show ?thesis
    using peer_leaves_data_directory [where s = "demo_cl ''ann'' demo_keys []" and x = "''keys''" and k = 0
        and secret = "''secret''" and data = "''evil''" and pb = wire_pb and c = 0 and cl = "demo_client 4 None"]
    by (auto simp: demo_keys_def demo_dir_def server_conn_def init_buffer_ok OUT_BUFFER_DEFAULT_SIZE_def get_reg_def
        elim!: returns_mono)
qed

end
