(* ===== verification/Startup.thy ===== *)
theory Startup
  imports Client_Net Events
begin

text \<open>
  How the two programs start: \<open>make_socket_nonblocking\<close> and \<open>listen_socket\<close> of \<open>lib/socket.c\<close> and the
  two functions \<open>main\<close>, from the command line to the start of the threads.  What the system calls
  give is an argument; \<open>ac_log(AC_LOG_FATAL, ...)\<close> ends the program with its text, the left side of
  the sum.  Outside it, \<open>None\<close> is again what a C program must not do.
\<close>

section \<open>Sockets\<close>

definition AF_INET :: u16 where
  "AF_INET = 2"

definition O_NONBLOCK :: u32 where
  "O_NONBLOCK = 0x800"

text \<open>The results of the calls on a new socket, and the socket they make.\<close>

record sock_results =
  sr_socket :: "int option"
  sr_setsockopt :: bool
  sr_bind :: bool
  sr_getfl :: "u32 option"
  sr_setfl :: bool
  sr_listen :: bool
  sr_strerror :: bytes

record sock =
  sk_fd :: int
  sk_reuse :: bool
  sk_bound :: "sockaddr_in option"
  sk_flags :: u32
  sk_listens :: bool

definition make_socket_nonblocking :: "sock_results \<Rightarrow> sock \<Rightarrow> bytes + sock" where
  "make_socket_nonblocking sr k =
     (case sr_getfl sr of
        None \<Rightarrow> Inl (''couldn't get socket flags: '' @ sr_strerror sr)
      | Some flags \<Rightarrow>
          if \<not> sr_setfl sr then Inl (''couldn't set socket flags: '' @ sr_strerror sr)
          else Inr (k\<lparr>sk_flags := flags OR O_NONBLOCK\<rparr>))"

definition listen_socket :: "sock_results \<Rightarrow> int \<Rightarrow> bytes + sock" where
  "listen_socket sr portnum =
     (case sr_socket sr of
        None \<Rightarrow> Inl (''couldn't create socket: '' @ sr_strerror sr)
      | Some sockfd \<Rightarrow>
          if \<not> sr_setsockopt sr then Inl (''couldn't setsockopt: '' @ sr_strerror sr)
          else (let listenaddr = \<lparr>sin_family = AF_INET, sin_port = htons (word_of_int portnum), sin_addr = 0\<rparr> in
            if \<not> sr_bind sr then Inl (''couldn't bind: '' @ sr_strerror sr)
            else (case make_socket_nonblocking sr
                \<lparr>sk_fd = sockfd, sk_reuse = True, sk_bound = Some listenaddr, sk_flags = 0, sk_listens = False\<rparr> of
              Inl e \<Rightarrow> Inl e
            | Inr k \<Rightarrow>
                if \<not> sr_listen sr then Inl (''couldn't listen: '' @ sr_strerror sr)
                else Inr (k\<lparr>sk_listens := True\<rparr>))))"

text \<open>\<open>epoll_create1\<close> and the registration of the listening socket, which both programs do alike.\<close>

record epoll_results =
  er_create :: bool
  er_add :: bool
  er_strerror :: bytes

definition epoll_setup :: "epoll_results \<Rightarrow> bytes option" where
  "epoll_setup er =
     (if \<not> er_create er then Some (''couldn't create epoll: '' @ er_strerror er)
      else if \<not> er_add er then Some (''epoll_ctl EPOLL_CTL_ADD error: '' @ er_strerror er)
      else None)"

text \<open>\<open>atoi\<close>: \<open>strtol\<close>, cut to an \<open>int\<close>.\<close>

definition atoi :: "bytes \<Rightarrow> int" where
  "atoi s = int32 (fst (strtol10 (cstr s)))"

section \<open>The server\<close>

text \<open>\<open>argv\<close> with the name of the program first; \<open>cred\<close> is the content of \<open>credentials.txt\<close>, when it can
  be opened.\<close>

definition server_main :: "bytes list \<Rightarrow> bytes option \<Rightarrow> sock_results \<Rightarrow> epoll_results \<Rightarrow> int \<Rightarrow> (bytes + server) option" where
  "server_main argv cred sr er t =
     (if length argv < 4 then Some (Inl ''usage: ./server server_port block_duration timeout'')
      else (let port = atoi (argv ! 1); bd = atoi (argv ! 2); timeout = atoi (argv ! 3) in
        (case cred of
           None \<Rightarrow> Some (Inl ''couldn't open credentials.txt'')
         | Some file \<Rightarrow> do {
             s \<leftarrow> buildUserDb file bd timeout (blank_server 0 t);
             (case listen_socket sr port of
                Inl e \<Rightarrow> Some (Inl e)
              | Inr k \<Rightarrow>
                  (case epoll_setup er of
                     Some e \<Rightarrow> Some (Inl e)
                   | None \<Rightarrow> Some (Inr (s\<lparr>file_root := newTrieFileNode, masterfd := sk_fd k,
                       epoll := (epoll s)(sk_fd k \<mapsto> (True, False)),
                       open_fds := insert (sk_fd k) (open_fds s)\<rparr>)))) })))"

section \<open>The client\<close>

text \<open>\<open>inet_pton(AF_INET, ...)\<close>: four decimal numbers below 256, without leading zeros, between dots;
  the bytes of the address in the order of the text.\<close>

fun split_dots :: "bytes \<Rightarrow> bytes list" where
  "split_dots [] = [[]]"
| "split_dots (c # cs) =
     (if c = CHR ''.'' then [] # split_dots cs
      else (case split_dots cs of [] \<Rightarrow> [[c]] | d # ds \<Rightarrow> (c # d) # ds))"

definition octet_ok :: "bytes \<Rightarrow> bool" where
  "octet_ok d \<longleftrightarrow> d \<noteq> [] \<and> length d \<le> 3 \<and> list_all is_digit d \<and> (hd d = CHR ''0'' \<longrightarrow> length d = 1)
     \<and> digits_value d < 256"

definition inet_pton :: "bytes \<Rightarrow> u32 option" where
  "inet_pton name =
     (let ds = split_dots (cstr name) in
      if length ds = 4 \<and> list_all octet_ok ds
      then Some (word_of_int (digits_value (ds ! 0) + 256 * digits_value (ds ! 1)
             + 256 ^ 2 * digits_value (ds ! 2) + 256 ^ 3 * digits_value (ds ! 3)))
      else None)"

text \<open>What the calls that only the client makes give: the socket to the server, \<open>connect\<close>, and the port
  \<open>getsockname\<close> reports, in network order.  The result of \<open>inet_pton\<close> is not looked at: the
  address stays zero when the text is none.\<close>

record client_results =
  cr_socket :: "int option"
  cr_connect :: bool
  cr_getsockname :: "u16 option"
  cr_strerror :: bytes
  cr_pid :: int

definition client_main :: "bytes list \<Rightarrow> client_results \<Rightarrow> sock_results \<Rightarrow> epoll_results \<Rightarrow>
    files \<Rightarrow> bytes \<Rightarrow> int option list \<Rightarrow> int \<Rightarrow> (bytes + client) option" where
  "client_main argv cr sr er fs inp conns t =
     (if length argv < 3 then Some (Inl ''Usage: ./client server_ip server_port'')
      else (let server_port = atoi (argv ! 2);
                server_address = \<lparr>sin_family = AF_INET, sin_port = htons (word_of_int server_port),
                  sin_addr = (case inet_pton (argv ! 1) of None \<Rightarrow> 0 | Some a \<Rightarrow> a)\<rparr> in
        (case cr_socket cr of
           None \<Rightarrow> Some (Inl ''Could not open socket'')
         | Some fd \<Rightarrow>
             if \<not> cr_connect cr then Some (Inl ''Could not connect to server'')
             else (case listen_socket sr 0 of
                Inl e \<Rightarrow> Some (Inl e)
              | Inr k \<Rightarrow>
                  (case cr_getsockname cr of
                     None \<Rightarrow> Some (Inl (''couldn't listen on local ephemeral port: '' @ cr_strerror cr))
                   | Some port \<Rightarrow>
                       (case epoll_setup er of
                          Some e \<Rightarrow> Some (Inl e)
                        | None \<Rightarrow> do {
                            let dir = ''clientdata.'' @ dec_int t @ ''.'' @ dec_int (cr_pid cr);
                            s \<leftarrow> client_start fd server_address (sk_fd k) (ucast (htons port)) dir fs inp conns t;
                            Some (if fatal s
                              then Inl (''couldn't create directory '' @ dir @
                                '' to store p2p files... Check file permissions'')
                              else Inr s) }))))))"

section \<open>What a start gives\<close>

lemma addUser_masterfd:
  "addUser (s\<lparr>masterfd := m\<rparr>) name pw = (fst (addUser s name pw), (snd (addUser s name pw))\<lparr>masterfd := m\<rparr>)"
  by (simp add: addUser_def Let_def)

lemma build_loop_masterfd:
  "build_loop ts pw (s\<lparr>masterfd := m\<rparr>) = map_option (\<lambda>t. t\<lparr>masterfd := m\<rparr>) (build_loop ts pw (s :: server))"
proof (induction ts pw s rule: build_loop.induct)
  case (2 name pw s)
  then show ?case by (simp add: addUser_masterfd split: option.split)
next
  case (3 name pw ts prev s)
  then show ?case by (simp add: addUser_masterfd)
qed simp

text \<open>The start of the server is the one the runs of the model begin with.\<close>

lemma server_main_start:
  assumes "server_main argv (Some file) sr er t = Some (Inr s)"
  shows "\<exists>k. listen_socket sr (atoi (argv ! 1)) = Inr k
    \<and> server_start file (atoi (argv ! 2)) (atoi (argv ! 3)) (sk_fd k) t = Some s"
proof -
  note m = assms [unfolded server_main_def Let_def, simplified]
  obtain s1 where b: "buildUserDb file (atoi (argv ! 2)) (atoi (argv ! 3)) (blank_server 0 t) = Some s1"
    using m by (auto simp: bind_eq_Some_conv split: if_splits)
  obtain k where k: "listen_socket sr (atoi (argv ! 1)) = Inr k"
    using m by (cases "listen_socket sr (atoi (argv ! 1))") (auto simp: bind_eq_Some_conv split: if_splits)
  have s: "s = s1\<lparr>file_root := newTrieFileNode, masterfd := sk_fd k,
       epoll := (epoll s1)(sk_fd k \<mapsto> (True, False)), open_fds := insert (sk_fd k) (open_fds s1)\<rparr>"
    using m b k by (auto split: if_splits option.splits)
  have "(blank_server (sk_fd k) t)\<lparr>udb := d\<rparr> = (blank_server 0 t)\<lparr>udb := d, masterfd := sk_fd k\<rparr>" for d
    by (simp add: blank_server_def)
  then have "buildUserDb file bd lt (blank_server (sk_fd k) t) =
      map_option (\<lambda>r. r\<lparr>masterfd := sk_fd k\<rparr>) (buildUserDb file bd lt (blank_server 0 t))" for bd lt
    by (simp only: buildUserDb_def build_loop_masterfd)
  with b k s show ?thesis by (simp add: server_start_def)
qed

lemma listen_socket_ok:
  "listen_socket sr p = Inr k \<longleftrightarrow> (\<exists>fd flags. sr_socket sr = Some fd \<and> sr_setsockopt sr \<and> sr_bind sr
     \<and> sr_getfl sr = Some flags \<and> sr_setfl sr \<and> sr_listen sr
     \<and> k = \<lparr>sk_fd = fd, sk_reuse = True,
          sk_bound = Some \<lparr>sin_family = AF_INET, sin_port = htons (word_of_int p), sin_addr = 0\<rparr>,
          sk_flags = flags OR O_NONBLOCK, sk_listens = True\<rparr>)"
  by (auto simp: listen_socket_def make_socket_nonblocking_def Let_def split: option.splits)

lemma build_loop_times:
  "build_loop ts pw s = Some t \<Longrightarrow> block_duration (udb t) = block_duration (udb s) \<and> login_timeout (udb t) = login_timeout (udb s)"
proof (induction ts pw s rule: build_loop.induct)
  case (2 name pw s)
  then show ?case by (auto simp: addUser_def Let_def split: if_splits option.splits)
next
  case (3 name pw ts prev s)
  then show ?case by (auto simp: addUser_def Let_def split: if_splits)
qed simp

lemma server_start_fields:
  assumes "server_start file bd lt mfd t = Some s"
  shows "masterfd s = mfd" "block_duration (udb s) = bd" "login_timeout (udb s) = lt" "mfd \<in> open_fds s"
    "epoll s mfd = Some (True, False)"
proof -
  have m: "build_loop ts pw r = Some r' \<Longrightarrow> masterfd r' = masterfd r" for ts pw and r r' :: server
  proof (induction ts pw r rule: build_loop.induct)
    case (2 name pw r)
    then show ?case by (auto simp: addUser_def Let_def split: if_splits option.splits)
  next
    case (3 name pw ts prev r)
    then show ?case by (auto simp: addUser_def Let_def split: if_splits)
  qed simp
  from assms obtain r where "build_loop (tokens file) None ((blank_server mfd t)\<lparr>udb := newUserDb bd lt\<rparr>) = Some r"
    "s = r\<lparr>file_root := newTrieFileNode, epoll := (epoll r)(mfd \<mapsto> (True, False)), open_fds := insert mfd (open_fds r)\<rparr>"
    by (auto simp: server_start_def buildUserDb_def bind_eq_Some_conv)
  with m [OF this(1)] build_loop_times [OF this(1)]
  show "masterfd s = mfd" "block_duration (udb s) = bd" "login_timeout (udb s) = lt" "mfd \<in> open_fds s"
    "epoll s mfd = Some (True, False)"
    by (simp_all add: blank_server_def newUserDb_def)
qed

lemma or_mask [simp]: "(w OR m) AND m = (m :: 'a :: len word)"
  by (rule bit_word_eqI) (auto simp: bit_simps)

text \<open>C36. When the server gets as far as its threads, it runs with the times of the command line, listens,
  without blocking, on the port of the command line reduced to 16 bits, on every address, and is in
  the state the theorems about its runs begin with.\<close>

theorem server_main_starts:
  assumes "server_main argv (Some file) sr er t = Some (Inr s)"
  shows "server_start file (atoi (argv ! 2)) (atoi (argv ! 3)) (masterfd s) t = Some s \<and> srv_inv s
    \<and> block_duration (udb s) = atoi (argv ! 2) \<and> login_timeout (udb s) = atoi (argv ! 3)
    \<and> epoll s (masterfd s) = Some (True, False)
    \<and> (\<exists>k. listen_socket sr (atoi (argv ! 1)) = Inr k \<and> sk_fd k = masterfd s \<and> sk_listens k \<and> sk_reuse k
         \<and> sk_flags k AND O_NONBLOCK = O_NONBLOCK
         \<and> sk_bound k = Some \<lparr>sin_family = AF_INET, sin_port = htons (word_of_int (atoi (argv ! 1) mod 65536)), sin_addr = 0\<rparr>)"
proof -
  from server_main_start [OF assms] obtain k where k: "listen_socket sr (atoi (argv ! 1)) = Inr k"
    and st: "server_start file (atoi (argv ! 2)) (atoi (argv ! 3)) (sk_fd k) t = Some s" by blast
  have "(word_of_int (p mod 65536) :: u16) = word_of_int p" for p :: int
    by (rule word_uint_eqI) (simp add: uint_word_of_int)
  with k server_start_fields [OF st] st server_start_inv [OF st] show ?thesis
    by (auto simp: listen_socket_ok)
qed

definition demo_sock :: sock_results where
  "demo_sock = \<lparr>sr_socket = Some 3, sr_setsockopt = True, sr_bind = True, sr_getfl = Some 2, sr_setfl = True,
     sr_listen = True, sr_strerror = []\<rparr>"

definition demo_epoll :: epoll_results where
  "demo_epoll = \<lparr>er_create = True, er_add = True, er_strerror = []\<rparr>"

lemma demo_atoi: "atoi ''65616'' = 65616" "atoi ''60'' = 60" "atoi ''50'' = 50"
  by code_simp+

lemma demo_main:
  "\<exists>s. server_main [''./server'', ''65616'', ''60'', ''50''] (Some ''ann a1'') demo_sock demo_epoll 100 = Some (Inr s)"
proof -
  have "tokens ''ann a1'' = [''ann'', ''a1'']" by (simp add: tokens.simps isspace_def Let_def)
  then show ?thesis
    by (simp add: server_main_def listen_socket_def make_socket_nonblocking_def epoll_setup_def demo_sock_def
        demo_epoll_def buildUserDb_def USERNAME_LIMIT_def Let_def)
qed

lemma server_main_starts_witness:
  "\<exists>s. server_main [''./server'', ''65616'', ''60'', ''50''] (Some ''ann a1'') demo_sock demo_epoll 100 = Some (Inr s)
    \<and> srv_inv s \<and> login_timeout (udb s) = 50
    \<and> (\<exists>k. listen_socket demo_sock 65616 = Inr k \<and> map_option sin_port (sk_bound k) = Some (htons 80))"
proof -
  obtain s where s: "server_main [''./server'', ''65616'', ''60'', ''50''] (Some ''ann a1'') demo_sock demo_epoll 100 = Some (Inr s)"
    using demo_main by blast
  from server_main_starts [OF s] s show ?thesis by (auto simp: demo_atoi)
qed

text \<open>The server ends with a message, before any thread runs, exactly if an argument is missing, the
  credentials cannot be opened, or, with the users read, one of the calls on the listening socket or on
  \<open>epoll\<close> fails.\<close>

lemma server_main_refuses:
  "(\<exists>e. server_main argv cred sr er t = Some (Inl e)) \<longleftrightarrow> length argv < 4 \<or> cred = None
    \<or> (\<exists>file. cred = Some file \<and> buildUserDb file (atoi (argv ! 2)) (atoi (argv ! 3)) (blank_server 0 t) \<noteq> None
        \<and> \<not> (sr_socket sr \<noteq> None \<and> sr_setsockopt sr \<and> sr_bind sr \<and> sr_getfl sr \<noteq> None \<and> sr_setfl sr \<and> sr_listen sr
            \<and> er_create er \<and> er_add er))"
proof -
  have l: "(\<exists>k. listen_socket sr p = Inr k) \<longleftrightarrow> sr_socket sr \<noteq> None \<and> sr_setsockopt sr \<and> sr_bind sr
      \<and> sr_getfl sr \<noteq> None \<and> sr_setfl sr \<and> sr_listen sr" for p
    by (auto simp: listen_socket_ok)
  have e: "epoll_setup er = None \<longleftrightarrow> er_create er \<and> er_add er" by (simp add: epoll_setup_def)
  show ?thesis
  proof (cases "\<exists>file s. 4 \<le> length argv \<and> cred = Some file
      \<and> buildUserDb file (atoi (argv ! 2)) (atoi (argv ! 3)) (blank_server 0 t) = Some s")
    case True
    then obtain c s where f: "\<not> length argv < 4" "cred = Some c"
      "buildUserDb c (atoi (argv ! 2)) (atoi (argv ! 3)) (blank_server 0 t) = Some s" by auto
    show ?thesis
    proof (cases "listen_socket sr (atoi (argv ! 1))")
      case (Inl a)
      with l [of "atoi (argv ! 1)"] f show ?thesis by (auto simp: server_main_def)
    next
      case (Inr k)
      with l [of "atoi (argv ! 1)"] f e show ?thesis by (auto simp: server_main_def split: option.splits)
    qed
  next
    case False
    then show ?thesis by (cases cred) (auto simp: server_main_def)
  qed
qed

lemma dec_int_chars: "c \<in> set (dec_int i) \<Longrightarrow> c \<noteq> CHR ''/'' \<and> c \<noteq> NUL"
  using dec_digits [of "nat i"] dec_digits [of "nat (- i)"]
  by (auto simp: dec_int_def list_all_iff is_digit_def split: if_splits)

text \<open>When the client gets as far as its threads, its only connection is the one to the server, with the
  hook that ends the program when it closes; nobody is logged in; the port it will tell the server is
  the one it listens on; and the one change on the disk is a new directory for chunks.  An address
  the command line misspells is not noticed: the connection is to \<open>0.0.0.0\<close>.\<close>

lemma client_main_starts:
  assumes "client_main argv cr sr er fs inp conns t = Some (Inr s)"
  shows "\<exists>cl k port p. server_conn s = Some 0 \<and> client_store s = [0 \<mapsto> cl] \<and> cr_socket cr = Some (c_fd cl)
    \<and> c_close_callback cl = Some Server_Close_Connection \<and> c_user cl = None
    \<and> sin_port (c_addr cl) = htons (word_of_int (atoi (argv ! 2)))
    \<and> sin_addr (c_addr cl) = (case inet_pton (argv ! 1) of None \<Rightarrow> 0 | Some a \<Rightarrow> a)
    \<and> loggedInUserName s = None \<and> \<not> lastresponse s
    \<and> listen_socket sr 0 = Inr k \<and> listen_fd s = sk_fd k
    \<and> cr_getsockname cr = Some port \<and> listen_port s = ucast (htons port)
    \<and> fs p = None \<and> cl_files s = fs(p \<mapsto> Dir) \<and> resolve fs (datapath s) = Some p"
proof -
  let ?addr = "\<lparr>sin_family = AF_INET, sin_port = htons (word_of_int (atoi (argv ! 2))),
                  sin_addr = (case inet_pton (argv ! 1) of None \<Rightarrow> 0 | Some a \<Rightarrow> a)\<rparr>"
  let ?dir = "''clientdata.'' @ dec_int t @ ''.'' @ dec_int (cr_pid cr)"
  from assms obtain fd k port where f: "cr_socket cr = Some fd" "listen_socket sr 0 = Inr k" "cr_getsockname cr = Some port"
    and st: "client_start fd ?addr (sk_fd k) (ucast (htons port)) ?dir fs inp conns t = Some s" "\<not> fatal s"
    by (auto simp: client_main_def Let_def bind_eq_Some_conv split: if_splits option.splits sum.splits)
  have chars: "c \<noteq> CHR ''/'' \<and> c \<noteq> NUL" if "c \<in> set ?dir" for c
    using that dec_int_chars [of c t] dec_int_chars [of c "cr_pid cr"] by auto
  then have id: "cstr ?dir = ?dir" by (intro cstr_id) blast
  have "dropWhile (\<lambda>c. c = CHR ''/'') (rev ?dir) = rev ?dir"
    using chars by (intro dropWhile_eq_self_iff [THEN iffD2] disjI2) (metis hd_in_set rev_is_Nil_conv set_rev append_is_Nil_conv list.distinct(1))
  then have strip: "rev (dropWhile (\<lambda>c. c = CHR ''/'') (rev (cstr ?dir))) = ?dir" by (simp only: id rev_rev_ident)
  obtain fs' where m: "mkdir fs ?dir = Some fs'"
    using st by (cases "mkdir fs ?dir") (auto simp: client_start_def im_connection_accept_def Let_def put_client_def)
  then obtain p where p: "resolve fs ?dir = Some p" "fs p = None" "fs' = fs(p \<mapsto> Dir)"
    unfolding mkdir_def strip by (auto split: option.splits if_splits)
  from st(1) m have "server_conn s = Some 0" "loggedInUserName s = None" "\<not> lastresponse s" "listen_fd s = sk_fd k"
    "listen_port s = ucast (htons port)" "cl_files s = fs(p \<mapsto> Dir)" "datapath s = ?dir"
    "client_store s = [0 \<mapsto> (new_client fd ?addr)\<lparr>c_close_callback := Some Server_Close_Connection\<rparr>]"
    by (auto simp: client_start_def im_connection_accept_def Let_def put_client_def print_line_def server_conn_def p(3)
        simp del: append.simps)
  with f p show ?thesis by (intro exI [of _ k] exI [of _ port] exI [of _ p] exI) (auto simp: new_client_def)
qed

definition demo_calls :: client_results where
  "demo_calls = \<lparr>cr_socket = Some 4, cr_connect = True, cr_getsockname = Some 0x2823, cr_strerror = [], cr_pid = 7\<rparr>"

definition demo_disk :: files where
  "demo_disk = [[] \<mapsto> Dir]"

lemma demo_client_main:
  "\<exists>s. client_main [''./client'', name, ''9000''] demo_calls demo_sock demo_epoll demo_disk [] [] 100 = Some (Inr s)"
proof -
  have "\<not> Option.is_none (mkdir demo_disk (''clientdata.'' @ dec_int 100 @ ''.'' @ dec_int 7))" by code_simp
  then obtain fs where "mkdir demo_disk (''clientdata.'' @ dec_int 100 @ ''.'' @ dec_int 7) = Some fs"
    by (auto simp: Option.is_none_def)
  then show ?thesis
    by (simp add: client_main_def Let_def demo_calls_def listen_socket_def make_socket_nonblocking_def demo_sock_def
        epoll_setup_def demo_epoll_def client_start_def im_connection_accept_def put_client_def print_line_def)
qed

lemma demo_addresses: "inet_pton ''127.0.0.1'' = Some 0x0100007F" "inet_pton ''localhost'' = None" "atoi ''9000'' = 9000"
  by code_simp+

lemma client_main_starts_witness:
  "\<exists>s cl. client_main [''./client'', ''127.0.0.1'', ''9000''] demo_calls demo_sock demo_epoll demo_disk [] [] 100 = Some (Inr s)
    \<and> client_store s = [0 \<mapsto> cl] \<and> sin_addr (c_addr cl) = 0x0100007F \<and> listen_port s = ucast (htons 0x2823)"
proof -
  obtain s where s: "client_main [''./client'', ''127.0.0.1'', ''9000''] demo_calls demo_sock demo_epoll demo_disk [] [] 100 = Some (Inr s)"
    using demo_client_main by blast
  from client_main_starts [OF s] s show ?thesis by (auto simp: demo_addresses demo_calls_def)
qed

text \<open>A name instead of an address is taken for \<open>0.0.0.0\<close>.\<close>

lemma host_name_unnoticed:
  assumes "client_main [prog, ''localhost'', port] cr sr er fs inp conns t = Some (Inr s)"
  shows "map_option (\<lambda>cl. sin_addr (c_addr cl)) (client_store s 0) = Some 0"
proof -
  from assms obtain fd mfd q dir where "client_start fd \<lparr>sin_family = AF_INET, sin_port = htons (word_of_int (atoi port)),
      sin_addr = 0\<rparr> mfd q dir fs inp conns t = Some s"
    by (auto simp: client_main_def Let_def bind_eq_Some_conv demo_addresses(2) split: if_splits option.splits sum.splits)
  then show ?thesis
    by (auto simp: client_start_def im_connection_accept_def Let_def put_client_def print_line_def new_client_def
        simp del: append.simps split: option.splits)
qed

end
