(* ===== verification/Conversation.thy ===== *)
theory Conversation
  imports Client_Facts Chat
begin

text \<open>
  The receiving side of the client, as an instance of the contract in \<open>Stream\<close>, and a conversation: a
  line typed at one client, through the server, to what another client prints.
\<close>

section \<open>The client as a handler\<close>

text \<open>Only the response that ends a session ends the program.\<close>

lemma pred_bind [simp]: "pred_option P (m \<bind> k) = pred_option (\<lambda>x. pred_option P (k x)) m"
  by (cases m) simp_all

lemma pred_bindI: "pred_option Q m \<Longrightarrow> (\<And>x. Q x \<Longrightarrow> pred_option P (k x)) \<Longrightarrow> pred_option P (m \<bind> k)"
  by (cases m) simp_all

lemma pred_any: "pred_option (\<lambda>_. True) m"
  by (cases m) simp_all

abbreviation goes_on :: "client \<Rightarrow> client \<Rightarrow> bool" where
  "goes_on s t \<equiv> exited t = exited s"

lemma exited_put [simp]: "exited (put_client c cl s) = exited s" "exited (put_user u us s) = exited s"
  "exited (print_line l s) = exited s" "exited (snd (findOrAddUser s name)) = exited s"
  by (simp_all add: put_client_def put_user_def print_line_def findOrAddUser_def addUser_def Let_def split: option.split)

lemma add_client_goes_on: "pred_option (\<lambda>(c, t). goes_on s t) (add_client s fd a)"
proof (cases "lookup_client s fd")
  case None
  then show ?thesis by (simp add: add_client_def)
next
  case (Some r)
  then show ?thesis by (cases r) (simp_all add: add_client_def im_connection_accept_def free_client_def Let_def)
qed

lemma link_private_goes_on: "pred_option (goes_on s) (link_private u c s)"
  by (cases "users s u"; cases "client_store s c") (simp_all add: link_private_def)

lemma send_goes_on: "pred_option (goes_on s) (send_response_to_client pb s c m)"
proof (cases "client_store s c")
  case None
  then show ?thesis by (simp add: send_response_to_client_def)
next
  case (Some cl)
  then show ?thesis
    by (cases "send_response pb (c_outbuffer cl) m") (simp_all add: send_response_to_client_def)
qed

lemma writeFile_goes_on: "pred_option (goes_on s) (writeFile pb s cdr)"
  by (auto simp: writeFile_def Let_def epoll_do_send_buffer_def pred_any intro!: pred_bindI [OF pred_any] split: option.split)

lemma private_goes_on:
  assumes "goes_on s s1"
  shows "pred_option (goes_on s) (link_private (fst (findOrAddUser (print_line l s1) n)) c (snd (findOrAddUser (print_line l s1) n)))"
  using link_private_goes_on [of "snd (findOrAddUser (print_line l s1) n)"] assms by simp

lemma start_private_goes_on: "pred_option (goes_on s) (start_private pb s gr)"
proof -
  let ?s = "s\<lparr>connects := tl (connects s)\<rparr>"
    and ?r = "\<lambda>l n s1. findOrAddUser (print_line l s1) n"
  have go: "pred_option (goes_on s) (do { s4 \<leftarrow> link_private (fst (?r l n s1)) c (snd (?r l n s1));
      send_response_to_client pb s4 c (registration_response pb s4) })" if "goes_on s s1" for c s1 l n
    using private_goes_on [OF that]
  proof (rule pred_bindI)
    fix t assume "goes_on s t"
    then show "pred_option (goes_on s) (send_response_to_client pb t c (registration_response pb t))"
      using send_goes_on [of t pb c "registration_response pb t"] by simp
  qed
  have add: "pred_option (\<lambda>(c, t). goes_on s t) (add_client ?s fd a)" for fd a
    using add_client_goes_on [of ?s fd a] by simp
  have "pred_option (goes_on s) (add_client ?s fd a \<bind> (\<lambda>(c, s1). do { s4 \<leftarrow> link_private (fst (?r l n s1)) c (snd (?r l n s1));
      send_response_to_client pb s4 c (registration_response pb s4) }))" for fd a l n
    using add by (rule pred_bindI) (simp add: go split_def del: pred_bind)
  then show ?thesis
    unfolding start_private_def
    by (intro pred_bindI [OF pred_any]) (simp add: Let_def split_def split: option.split del: pred_bind)
qed

lemma response_case_exited:
  assumes "response_case pb s c r = Some t" and "rsp_type r \<noteq> 2"
  shows "exited t = exited s"
proof -
  have "pred_option (goes_on s) (private_started s c prr)" for prr
  proof -
    let ?r = "findOrAddUser s (prr_username prr)"
    have "goes_on s (print_line l (snd ?r))" for l by simp
    then show ?thesis
      using link_private_goes_on [of "print_line l (snd ?r)" for l] by (simp add: private_started_def Let_def split_def)
  qed
  then have "pred_option (goes_on s) (response_case pb s c r)"
    using assms(2) start_private_goes_on writeFile_goes_on send_goes_on
    by (auto simp: response_case_def split_def pred_any intro!: pred_bindI [OF pred_any])
  with assms(1) show ?thesis by simp
qed

definition run_response :: "pb_lib \<Rightarrow> client \<Rightarrow> cref \<Rightarrow> IMResponse \<Rightarrow> (client \<times> IMResponse option) option" where
  "run_response pb s c r =
     map_option (\<lambda>t. (t, None)) (response_case pb (s\<lparr>lastresponse := rsp_success r\<rparr>) c r)"

definition response_fits :: "IMResponse \<Rightarrow> bool" where
  "response_fits r \<longleftrightarrow> small_bytes (rsp_value r) \<and> rsp_type r \<noteq> 2"

context pb_codec
begin

lemma parse_response_waits:
  assumes "small_bytes (rsp_value r)" and "encodeIMResponseToBytes pb r = p @ q" and "q \<noteq> []"
  shows "parse_response pb s c p = Some (s, 0, None)"
proof -
  let ?m = "encodeIMResponseToProtobufMsg r"
  have "wf_msg ?m" using assms(1) by (simp add: codec_simps)
  moreover have "length ?m = 3" by (simp add: encodeIMResponseToProtobufMsg_def)
  ultimately show ?thesis using decode_n_incomplete [of ?m p q] assms(2,3)
    by (simp add: parse_response_def encodeIMResponseToBytes_def)
qed

lemma response_bytes_nonempty: "small_bytes (rsp_value r) \<Longrightarrow> encodeIMResponseToBytes pb r \<noteq> []"
  unfolding encodeIMResponseToBytes_def by (rule encode_nonempty) (simp add: codec_simps)

lemma client_handles:
  assumes "response_fits r" and "\<not> exited s"
  shows "parse_response pb s c (encodeIMResponseToBytes pb r @ rest) =
    map_option (\<lambda>(t, rsp). (t, length (encodeIMResponseToBytes pb r), rsp)) (run_response pb s c r)"
proof (cases "response_case pb (s\<lparr>lastresponse := rsp_success r\<rparr>) c r")
  case None
  with parse_response_of [of r s c rest] assms(1) show ?thesis by (simp add: response_fits_def run_response_def)
next
  case (Some t)
  then have "\<not> exited t" using response_case_exited [OF Some] assms by (simp add: response_fits_def)
  with Some parse_response_of [of r s c rest] assms(1) show ?thesis by (simp add: response_fits_def run_response_def)
qed

lemma response_stream:
  "message_stream (parse_response pb) (encodeIMResponseToBytes pb) (run_response pb) (\<lambda>s. \<not> exited s)
    response_fits (\<lambda>r. small_bytes (rsp_value r))"
proof
  show "response_fits r \<Longrightarrow> encodeIMResponseToBytes pb r \<noteq> []" for r
    using response_bytes_nonempty by (simp add: response_fits_def)
  show "parse_response pb s c (encodeIMResponseToBytes pb r @ rest) =
      map_option (\<lambda>(t, rsp). (t, length (encodeIMResponseToBytes pb r), rsp)) (run_response pb s c r)"
    if "response_fits r" "\<not> exited s" for r s c rest using that by (rule client_handles)
  show "parse_response pb s c p = Some (s, 0, None)"
    if "small_bytes (rsp_value r)" "encodeIMResponseToBytes pb r = p @ q" "q \<noteq> []" for r p q s c
    using that by (rule parse_response_waits)
qed

end

sublocale pb_codec < responses: message_stream "parse_response pb" "encodeIMResponseToBytes pb" "run_response pb"
    "\<lambda>s. \<not> exited s" response_fits "\<lambda>r. small_bytes (rsp_value r)"
  by (rule response_stream)

interpretation wire_responses: message_stream "parse_response wire_pb" "encodeIMResponseToBytes wire_pb"
    "run_response wire_pb" "\<lambda>s. \<not> exited s" response_fits "\<lambda>r. small_bytes (rsp_value r)"
  by (rule pb_codec.response_stream [OF wire.pb_codec_axioms])

interpretation wire_requests: message_stream "parse_command wire_pb" "request_bytes wire_pb" "serve wire_pb"
    "\<lambda>_. True" "request_small wire_pb" "\<lambda>r. small_bytes (request_value wire_pb r)"
  by (rule pb_codec.request_stream [OF wire.pb_codec_axioms])

section \<open>Texts, however they are cut\<close>

definition text_response :: "pb_lib \<Rightarrow> bytes \<times> bool \<Rightarrow> IMResponse" where
  "text_response pb t = encodeTextResponseToIMResponseAndFree pb \<lparr>txt_msg = fst t\<rparr> (snd t)"

definition text_small :: "pb_lib \<Rightarrow> bytes \<times> bool \<Rightarrow> bool" where
  "text_small pb t \<longleftrightarrow> small_bytes (fst t) \<and> small_bytes (encodeTextResponseToBytes pb \<lparr>txt_msg = fst t\<rparr>)"

lemma text_response_fits: "text_small pb t \<Longrightarrow> response_fits (text_response pb t)"
  by (simp add: text_small_def response_fits_def text_response_def encodeTextResponseToIMResponseAndFree_def)

text \<open>What a client looks like after some of the texts on connection \<open>c\<close>: they are printed, the success flag of
  the last is remembered, and nothing but the input buffer of \<open>c\<close> is different.\<close>

definition printed :: "client \<Rightarrow> cref \<Rightarrow> im_client \<Rightarrow> (bytes \<times> bool) list \<Rightarrow> client \<Rightarrow> bool" where
  "printed s c cl ts t \<longleftrightarrow> (\<exists>b. t = s\<lparr>client_store := (client_store s)(c \<mapsto> cl\<lparr>c_inbuffer := b\<rparr>),
     stdout := stdout s @ map (cstr \<circ> fst) ts, lastresponse := last (lastresponse s # map snd ts)\<rparr>)"

lemma printed_nil: "printed s c cl [] (put_client c (cl\<lparr>c_inbuffer := b\<rparr>) s)"
  unfolding printed_def by (intro exI [of _ b]) (cases s, simp add: put_client_def)

lemma printed_more:
  assumes "printed s0 c cl ts s" and "client_store s c = Some k"
  shows "printed s0 c cl (ts @ [t]) (put_client c (k\<lparr>c_inbuffer := b\<rparr>) (print_line (cstr (fst t)) (s\<lparr>lastresponse := snd t\<rparr>)))"
proof -
  obtain b0 where s: "s = s0\<lparr>client_store := (client_store s0)(c \<mapsto> cl\<lparr>c_inbuffer := b0\<rparr>),
      stdout := stdout s0 @ map (cstr \<circ> fst) ts, lastresponse := last (lastresponse s0 # map snd ts)\<rparr>"
    using assms(1) by (auto simp: printed_def)
  then have "k = cl\<lparr>c_inbuffer := b0\<rparr>" using assms(2) by simp
  then show ?thesis
    unfolding printed_def by (intro exI [of _ b]) (simp add: s put_client_def print_line_def)
qed

lemma printed_exited: "printed s c cl ts t \<Longrightarrow> exited t = exited s"
  by (auto simp: printed_def)

context pb_codec
begin

lemma run_text:
  assumes "text_small pb t"
  shows "run_response pb s c (text_response pb t) = Some (print_line (cstr (fst t)) (s\<lparr>lastresponse := snd t\<rparr>), None)"
proof -
  have "parseTextResponseFromBytes pb (encodeTextResponseToBytes pb \<lparr>txt_msg = fst t\<rparr>)
      = Some (\<lparr>txt_msg = fst t\<rparr>, length (encodeTextResponseToBytes pb \<lparr>txt_msg = fst t\<rparr>))"
    using TextResponse_roundtrip [of "\<lparr>txt_msg = fst t\<rparr>"] assms by (simp add: text_small_def)
  then show ?thesis
    by (simp add: run_response_def response_case_def text_response_def encodeTextResponseToIMResponseAndFree_def)
qed

lemma serve_text:
  assumes t: "text_small pb t" and cl: "client_store s c = Some cl" and ok: "buf_ok (c_inbuffer cl)"
    and p: "pending (c_inbuffer cl) = encodeIMResponseToBytes pb (text_response pb t) @ rest"
    and s: "printed s0 c k ts s"
  shows "returns (serve_message pb (encodeIMResponseToBytes pb) (run_response pb) c (text_response pb t) s) (\<lambda>s'.
    printed s0 c k (ts @ [t]) s'
    \<and> (\<exists>cl'. client_store s' c = Some cl' \<and> buf_ok (c_inbuffer cl') \<and> pending (c_inbuffer cl') = rest))"
  using advance_rest [OF ok p] cl printed_more [OF s cl]
  by (simp add: serve_message_def run_text [OF t] respond_def print_line_fields heap_simps)

lemma receive_texts:
  assumes cl: "client_store s c = Some cl" and ok: "buf_ok (c_inbuffer cl)" and live: "\<not> exited s"
    and data: "data \<noteq> []" "length data \<le> recv_room (recv_prepare (c_inbuffer cl))"
    and p: "pending (c_inbuffer cl) @ data = concat (map (\<lambda>t. encodeIMResponseToBytes pb (text_response pb t)) ts) @ p"
    and small: "\<forall>t \<in> set ts. text_small pb t"
    and partial: "partial_message (encodeIMResponseToBytes pb) (\<lambda>r. small_bytes (rsp_value r)) p"
  shows "returns (im_receive_command pb (parse_response pb) s c (Recv data)) (\<lambda>t. printed s c cl ts t
    \<and> (\<exists>cl'. client_store t c = Some cl' \<and> pending (c_inbuffer cl') = p))"
proof -
  let ?b = "recv_store (recv_prepare (c_inbuffer cl)) data"
  let ?s = "put_client c (cl\<lparr>c_inbuffer := ?b\<rparr>) s" and ?msgs = "map (text_response pb) ts"
  let ?I = "\<lambda>rs s'. \<exists>ts1 ts2. ts = ts1 @ ts2 \<and> rs = map (text_response pb) ts2 \<and> printed s c cl ts1 s'"
  note prep = recv_prepare_ok(1,2) [OF ok]
  have b: "buf_ok ?b" "pending ?b = concat (map (encodeIMResponseToBytes pb) ?msgs) @ p"
    using recv_store_ok [OF prep(1), of data] data(2) prep(2) p by (simp_all add: comp_def)
  have fit: "response_fits r \<and> \<not> exited s'" if "?I (r # rs) s'" for r rs s'
    using that small live text_response_fits printed_exited by auto
  have step: "returns (serve_message pb (encodeIMResponseToBytes pb) (run_response pb) c r s') (\<lambda>t. ?I rs t
      \<and> (\<exists>cl'. client_store t c = Some cl' \<and> buf_ok (c_inbuffer cl') \<and> pending (c_inbuffer cl') = rest))"
    if I: "?I (r # rs) s'" and k: "client_store s' c = Some k" "buf_ok (c_inbuffer k)"
      and pk: "pending (c_inbuffer k) = encodeIMResponseToBytes pb r @ rest" for r rs s' k rest
  proof -
    from I obtain ts1 t ts2 where ts: "ts = ts1 @ t # ts2" "r = text_response pb t" "rs = map (text_response pb) ts2"
      "printed s c cl ts1 s'" by auto
    have "?I rs t'" if "printed s c cl (ts1 @ [t]) t'" for t'
      using ts that by (intro exI [of _ "ts1 @ [t]"] exI [of _ ts2]) simp
    with serve_text [OF _ k pk [unfolded ts(2)] ts(4)] small ts(1,2) show ?thesis by (auto elim!: returns_mono)
  qed
  have start: "?I ?msgs ?s" by (intro exI [of _ "[]"] exI [of _ ts] conjI printed_nil) simp_all
  have c: "client_store ?s c = Some (cl\<lparr>c_inbuffer := ?b\<rparr>)" by (simp add: heap_simps)
  have ok': "buf_ok (c_inbuffer (cl\<lparr>c_inbuffer := ?b\<rparr>))"
    "pending (c_inbuffer (cl\<lparr>c_inbuffer := ?b\<rparr>)) = concat (map (encodeIMResponseToBytes pb) ?msgs) @ p"
    using b by simp_all
  have "returns (recv_loop pb (parse_response pb) c ?s) (\<lambda>t.
      foldM (serve_message pb (encodeIMResponseToBytes pb) (run_response pb) c) ?msgs ?s = Some t \<and> ?I [] t
      \<and> (\<exists>cl'. client_store t c = Some cl' \<and> buf_ok (c_inbuffer cl') \<and> pending (c_inbuffer cl') = p))"
    by (rule responses.loop_stream [where pb = pb and I = ?I and c = c, OF fit step start c ok' partial]) assumption+
  then have "returns (recv_loop pb (parse_response pb) c ?s) (\<lambda>t. printed s c cl ts t
      \<and> (\<exists>cl'. client_store t c = Some cl' \<and> pending (c_inbuffer cl') = p))"
    by (rule returns_mono) auto
  with cl data(1) show ?thesis by (simp add: im_receive_command_def Let_def)
qed

end


lemma demo_inbuffer: "recv_room (recv_prepare (init_buffer MSG_LIMIT)) = MSG_LIMIT" "buf_ok (init_buffer MSG_LIMIT)"
  by (simp_all add: recv_room_def recv_prepare_def Let_def init_buffer_def reset_buffer_start_def MSG_LIMIT_def buf_ok_def)

lemma demo_client_room: "recv_room (recv_prepare (init_buffer 32768)) = 32768"
  using demo_inbuffer(1) by (simp only: MSG_LIMIT_def)

lemma demo_text_small:
  assumes "length m < 64"
  shows "text_small wire_pb (m, ok)"
proof -
  have "small_bytes (encodeTextResponseToBytes wire_pb \<lparr>txt_msg = m\<rparr>)"
    unfolding encodeTextResponseToBytes_def encodeTextResponseToProtobufMsg_def
    by (rule small_wire) (use assms in simp_all)
  then show ?thesis using assms by (simp add: text_small_def small_short)
qed

lemma demo_text_bytes:
  "encodeIMResponseToBytes wire_pb (text_response wire_pb (''ann: hi'', True)) =
    [CHR 0x08, CHR 0x01, CHR 0x10, CHR 0x01, CHR 0x1A, CHR 0x09, CHR 0x0A, CHR 0x07,
     CHR ''a'', CHR ''n'', CHR ''n'', CHR '':'', CHR '' '', CHR ''h'', CHR ''i'']"
  by code_simp


section \<open>From one terminal to another\<close>

lemma refresh_store: "refresh c r = Some (t, rsp) \<Longrightarrow> client_store t = client_store (snd r)"
  by (auto simp: refresh_def Let_def split: option.splits if_splits)

lemma message_served:
  assumes inv: "srv_inv s" and me: "logged s c me x" and cl: "client_store s c = Some cl" and q: "\<not> mr_broadcast q"
    and u: "findUser s (mr_username q) = Some u" "logged s d u y" "me \<notin> set (u_blocked y)"
  shows "returns (serve_one pb c (Message q) s) (\<lambda>t. cout t d = cout s d @ message_bytes pb x (mr_msg q))"
proof -
  have y: "users s u = Some y" using u(2) by (simp add: logged_def)
  from cmd_message_direct(3) [OF inv me q u(1) y u(3), of pb] obtain t1 where
    t1: "cmd_message_impl pb s c q = Some (None, t1)" "srv_inv t1" "sent_user u (message_bytes pb x (mr_msg q)) s t1"
    by (auto elim!: returnsE)
  have "owner_of s d = Some u" "online s u" using u(2) online_logged [of s d u] by blast+
  with sent_user_mailed(1) [OF srv_invD(1) [OF inv] y t1(3)]
  have out: "cout t1 d = cout s d @ message_bytes pb x (mr_msg q)" by (simp add: mailed_def)
  have "buffers_only s t1" using t1(3) by (simp add: sent_user_def)
  then obtain cl1 where "client_store t1 c = Some cl1" using cl by (rule buffers_only_client)
  with refresh_safe [of "(None, t1)" c cl1] t1(2) obtain t2 where
    t2: "refresh c (None, t1) = Some (t2, None)" by (auto elim!: returnsE)
  note st = refresh_store [OF t2]
  have "cout t2 d = cout t1 d" using st by (simp add: cout_def)
  with out t1(1) t2 st \<open>client_store t1 c = Some cl1\<close> show ?thesis
    by (auto simp: serve_one_def serve_message_def serve_def respond_def cout_def put_client_def)
qed

lemma message_received:
  assumes "pb_codec pb"
    and server: "srv_inv s" "logged s c me x" "client_store s c = Some cl" "pending (c_inbuffer cl) = []"
      "findUser s u = Some v" "logged s d v y" "me \<notin> set (u_blocked y)"
    and sizes: "request_small pb (Message \<lparr>mr_broadcast = False, mr_username = u, mr_msg = m\<rparr>)"
      "length (request_bytes pb (Message \<lparr>mr_broadcast = False, mr_username = u, mr_msg = m\<rparr>)) \<le> recv_room (recv_prepare (c_inbuffer cl))"
  shows "returns (im_receive_command pb (parse_command pb) s c
      (Recv (request_bytes pb (Message \<lparr>mr_broadcast = False, mr_username = u, mr_msg = m\<rparr>))))
    (\<lambda>s'. cout s' d = cout s d @ message_bytes pb x m)"
proof -
  let ?q = "\<lparr>mr_broadcast = False, mr_username = u, mr_msg = m\<rparr>"
  let ?data = "request_bytes pb (Message ?q)" and ?news = "message_bytes pb x m"
  have "?data \<noteq> []" using pb_codec.request_bytes_nonempty [OF assms(1)] sizes(1) by (simp add: request_small_def)
  let ?b = "recv_store (recv_prepare (c_inbuffer cl)) ?data"
  let ?s = "put_client c (cl\<lparr>c_inbuffer := ?b\<rparr>) s"
  note prep = recv_prepare_ok(1,2) [OF heap_inv_client(2) [OF srv_invD(1) [OF server(1)] server(3)]]
  have "buf_ok ?b" using recv_store_ok [OF prep(1), of ?data] sizes(2) by simp
  then have inv: "srv_inv ?s" using srv_inv_put_input server(1,3) by blast
  have live: "session_live ?s z = session_live s z" for z by (simp add: session_live_def heap_simps)
  have log: "logged ?s c me x" "logged ?s d v y"
    using server(2,3,6) by (auto simp: logged_def heap_simps live)
  have "client_store ?s c = Some (cl\<lparr>c_inbuffer := ?b\<rparr>)" "findUser ?s u = Some v"
    using server(5) by (simp_all add: heap_simps findUser_def)
  with message_served [OF inv log(1), of _ ?q v d y pb] log(2) server(7)
  have served: "returns (serve_one pb c (Message ?q) ?s) (\<lambda>t. cout t d = cout ?s d @ ?news)" by simp
  have "cout ?s d = cout s d" using server(3) by (simp add: cout_def heap_simps)
  moreover have "returns (im_receive_command pb (parse_command pb) s c (Recv ?data))
      (\<lambda>t. serve_one pb c (Message ?q) ?s = Some t)"
  proof -
    have one: "foldM (serve_one pb c) [Message ?q] ?s = serve_one pb c (Message ?q) ?s"
      by (cases "serve_one pb c (Message ?q) ?s") simp_all
    have "admissible_all pb c [Message ?q] ?s" by (simp split: option.split)
    then show ?thesis
      using pb_codec.receive_stream [OF assms(1) server(1,3), where rs = "[Message ?q]" and data = ?data and p = "[]"]
        \<open>?data \<noteq> []\<close> sizes(1,2) server(4) unfolding one
      by (auto simp: partial_request_def partial_message_def elim!: returns_mono)
  qed
  ultimately show ?thesis using served by (auto elim!: returns_mono)
qed

text \<open>C5. A message gets from one terminal to another: the line \<open>message u m\<close>, typed at a client that is
  logged in, goes to the server as bytes; the server, given these bytes, puts others on the
  connection of \<open>u\<close>, if \<open>u\<close> is online and has not blocked the sender; and the client at the other
  end, given those, prints the sender's name and \<open>m\<close>, and nothing else.\<close>

theorem typed_message_arrives:
  assumes "pb_codec pb" and "CHR '' '' \<notin> set u"
    and sender: "client_store a sc = Some k" "\<not> c_locked k" "buf_ok (c_outbuffer k)"
    and server: "srv_inv s" "logged s c me x" "client_store s c = Some cl" "pending (c_inbuffer cl) = []"
      "findUser s u = Some v" "logged s d v y" "me \<notin> set (u_blocked y)"
    and receiver: "client_store b rc = Some kb" "buf_ok (c_inbuffer kb)" "pending (c_inbuffer kb) = []" "\<not> exited b"
    and sizes: "request_small pb (Message \<lparr>mr_broadcast = False, mr_username = u, mr_msg = m\<rparr>)"
      "length (request_bytes pb (Message \<lparr>mr_broadcast = False, mr_username = u, mr_msg = m\<rparr>)) \<le> recv_room (recv_prepare (c_inbuffer cl))"
      "text_small pb (u_username x @ '': '' @ cstr m, True)"
      "length (message_bytes pb x m) \<le> recv_room (recv_prepare (c_inbuffer kb))"
  shows "returns (parse_command_client pb a sc (''message '' @ u @ '' '' @ m)) (\<lambda>a'. \<exists>request.
      cout a' sc = cout a sc @ request
    \<and> returns (im_receive_command pb (parse_command pb) s c (Recv request)) (\<lambda>s'. \<exists>response.
        cout s' d = cout s d @ response
      \<and> returns (im_receive_command pb (parse_response pb) b rc (Recv response)) (\<lambda>b'.
          stdout b' = stdout b @ [cstr (u_username x @ '': '' @ cstr m)])))"
proof -
  let ?q = "\<lparr>mr_broadcast = False, mr_username = u, mr_msg = m\<rparr>" and ?t = "(u_username x @ '': '' @ cstr m, True)"
  let ?data = "request_bytes pb (Message ?q)" and ?news = "message_bytes pb x m"
  have news: "?news = encodeIMResponseToBytes pb (text_response pb ?t)" by (simp add: message_bytes_def text_response_def)
  have "?news \<noteq> []"
    using pb_codec.response_bytes_nonempty [OF assms(1)] text_response_fits [OF sizes(3)] by (simp add: news response_fits_def)
  then have 3: "returns (im_receive_command pb (parse_response pb) b rc (Recv ?news))
      (\<lambda>b'. stdout b' = stdout b @ [cstr (u_username x @ '': '' @ cstr m)])"
    using pb_codec.receive_texts [OF assms(1) receiver(1,2,4) _ sizes(4), of "[?t]" "[]"] sizes(3) receiver(3)
    by (auto simp: news partial_message_def printed_def elim!: returns_mono)
  note 2 = message_received [OF assms(1) server sizes(1,2)]
  have "line_of (Message ?q) = ''message '' @ u @ '' '' @ m" by simp
  with typed_line_to_server [of "Message ?q" a sc k pb] assms(2) sender
  have 1: "returns (parse_command_client pb a sc (''message '' @ u @ '' '' @ m)) (\<lambda>a'. cout a' sc = cout a sc @ ?data)" by simp
  from 1 show ?thesis by (rule returns_mono) (use 2 3 in \<open>auto elim!: returns_mono\<close>)
qed

lemma demo_news: "message_bytes wire_pb (demo_user ''ann'' ''a1'' (Some 0)) ''hi''
    = encodeIMResponseToBytes wire_pb (text_response wire_pb (''ann: hi'', True))"
  by (simp add: message_bytes_def text_response_def cstr_def)

lemma typed_message_arrives_witness:
  "returns (parse_command_client wire_pb (demo_cl ''ann'' demo_dir []) 0 ''message bob hi'') (\<lambda>a'. \<exists>request.
      cout a' 0 = request
    \<and> returns (im_receive_command wire_pb (parse_command wire_pb) demo 0 (Recv request)) (\<lambda>s'. \<exists>response.
        cout s' 1 = response
      \<and> returns (im_receive_command wire_pb (parse_response wire_pb) (demo_cl ''bob'' demo_dir []) 0 (Recv response))
          (\<lambda>b'. stdout b' = [''ann: hi''])))"
proof -
  let ?x = "demo_user ''ann'' ''a1'' (Some 0)"
  have nil: "cout (demo_cl n demo_dir []) 0 = []" "cout demo 1 = []" for n by (simp_all add: cout_def init_buffer_ok)
  have c: "cstr ''hi'' = ''hi''" "cstr ''ann: hi'' = ''ann: hi''" by (simp_all add: cstr_def)
  note sizes = demo_say_small [unfolded demo_say_def] demo_say_bytes [unfolded demo_say_def] demo_news demo_text_bytes
  show ?thesis
    using typed_message_arrives [OF wire.pb_codec_axioms, where u = "''bob''" and m = "''hi''" and sc = 0 and c = 0 and rc = 0
        and a = "demo_cl ''ann'' demo_dir []" and k = "demo_client 4 None" and s = demo and cl = "demo_client 5 (Some 0)"
        and b = "demo_cl ''bob'' demo_dir []" and kb = "demo_client 4 None" and me = 0 and d = 1 and v = 1
        and x = ?x and y = "demo_user ''bob'' ''b1'' (Some 1)"]
    demo_text_small [of "''ann: hi''" True] demo_inv demo_logged demo_find
    by (simp add: nil c sizes demo_client_room init_buffer_ok OUT_BUFFER_DEFAULT_SIZE_def MSG_LIMIT_def del: One_nat_def)
qed

end
