(* ===== verification/Disk.thy ===== *)
theory Disk
  imports Client_Facts
begin

text \<open>
  The file system as the client relies on it, for any names: directories are never lost, everything
  is in a directory, a directory that was just made can be written to.  With it, splitting a file
  into chunks never fails half way.
\<close>

section \<open>Paths of any kind\<close>

definition tree_ok :: "files \<Rightarrow> bool" where
  "tree_ok fs \<longleftrightarrow> (\<forall>p n. fs (p @ [n]) \<noteq> None \<longrightarrow> fs p = Some Dir)"

text \<open>Directories only become more.\<close>

definition more_dirs :: "files \<Rightarrow> files \<Rightarrow> bool" where
  "more_dirs fs fs' \<longleftrightarrow> (\<forall>p. fs p = Some Dir \<longrightarrow> fs' p = Some Dir)"

lemma walk_more: "walk fs p ns = Some q \<Longrightarrow> more_dirs fs fs' \<Longrightarrow> walk fs' p ns = Some q"
proof (induction ns arbitrary: p)
  case (Cons n ns)
  then have "fs p = Some Dir" "fs' p = Some Dir" by (auto simp: more_dirs_def split: if_splits)
  with Cons.prems(1) Cons.IH [OF _ Cons.prems(2)] show ?case
    by (cases "n = [] \<or> n = ''.''"; cases "n = ''..''") auto
qed simp

lemma resolve_more:
  assumes "resolve fs a = Some q" and "more_dirs fs fs'"
  shows "resolve fs' a = Some q"
  using assms(1) walk_more [OF _ assms(2)]
  by (simp add: resolve_def split: list.splits if_splits del: split_slash.simps walk.simps)

lemma walk_append: "walk fs p (ns @ ms) = walk fs p ns \<bind> (\<lambda>q. walk fs q ms)"
  by (induction ns arbitrary: p) auto

text \<open>A path ends in a directory, or right below one.\<close>

lemma walk_end:
  assumes "walk fs p ns = Some q" and "ns \<noteq> []"
  shows "fs q = Some Dir \<or> (\<exists>r n. q = r @ [n] \<and> fs r = Some Dir) \<or> (\<exists>n. fs (q @ [n]) = Some Dir)"
proof -
  obtain ms n where ns: "ns = ms @ [n]" using assms(2) by (cases ns rule: rev_cases) auto
  with assms(1) obtain r where r: "walk fs r [n] = Some q" by (auto simp: walk_append bind_eq_Some_conv)
  then have d: "fs r = Some Dir" "q = r \<or> q = parent_dir r \<or> q = r @ [n]" by (auto split: if_splits)
  moreover have "fs q = Some Dir \<or> (\<exists>n. fs (q @ [n]) = Some Dir) \<or> q = r @ [''..'']" if "q = parent_dir r"
  proof (cases "r = [''/''] \<or> r = [] \<or> last r = ''..''")
    case False
    then have "fs (q @ [last r]) = Some Dir" using that d(1) by (simp add: parent_dir_def)
    then show ?thesis by blast
  qed (use that d(1) in \<open>auto simp: parent_dir_def\<close>)
  ultimately show ?thesis by blast
qed

lemma split_slash_nonempty [simp]: "split_slash a \<noteq> []"
  by (cases a) (auto split: list.splits)

lemma split_slash_append:
  assumes "CHR ''/'' \<notin> set n"
  shows "split_slash (a @ CHR ''/'' # n) = split_slash a @ [n]"
proof (induction a)
  case Nil
  show ?case using split_slash_last [OF assms] by simp
next
  case (Cons c a)
  then show ?case by (cases "split_slash a") auto
qed

lemma resolve_end:
  assumes "tree_ok fs" and "resolve fs a = Some q" and "fs q \<noteq> Some Dir"
  shows "\<exists>r n. q = r @ [n] \<and> fs r = Some Dir"
proof -
  obtain p ns where "walk fs p ns = Some q" "ns \<noteq> []"
    using assms(2) by (auto simp: resolve_def split: list.splits if_splits)
  moreover have "fs (q @ [n]) \<noteq> Some Dir" for n using assms(1,3) unfolding tree_ok_def by (metis option.distinct(1))
  ultimately show ?thesis using walk_end [of fs p ns q] assms(3) by blast
qed

text \<open>One more name, or one more slash.\<close>

lemma resolve_step:
  assumes "resolve fs a = Some p" and "NUL \<notin> set a" and "CHR ''/'' \<notin> set n" and "NUL \<notin> set n"
  shows "resolve fs (a @ CHR ''/'' # n) = walk fs p [n]"
proof -
  have c: "cstr (a @ CHR ''/'' # n) = a @ CHR ''/'' # n" "cstr a = a" using assms(2,4) by (simp_all add: cstr_id)
  obtain d ds where a: "a = d # ds" using assms(1) c(2) by (cases a) (auto simp: resolve_def)
  show ?thesis
  proof (cases "d = CHR ''/''")
    case True
    have "resolve fs (a @ CHR ''/'' # n) = walk fs [''/''] (split_slash (ds @ CHR ''/'' # n))"
      using c(1) True by (simp add: resolve_def a)
    moreover have "walk fs [''/''] (split_slash ds) = Some p" using assms(1) c(2) True by (simp add: resolve_def a)
    ultimately show ?thesis by (simp add: split_slash_append [OF assms(3)] walk_append del: walk.simps)
  next
    case False
    have "resolve fs (a @ CHR ''/'' # n) = walk fs [] (split_slash (a @ CHR ''/'' # n))"
      using c(1) False by (simp add: resolve_def a del: split_slash.simps)
    moreover have "walk fs [] (split_slash a) = Some p" using assms(1) c(2) False by (simp add: resolve_def a del: split_slash.simps)
    ultimately show ?thesis by (simp add: split_slash_append [OF assms(3)] walk_append del: walk.simps)
  qed
qed

section \<open>Making and writing\<close>

lemma mkdir_ok:
  assumes ok: "tree_ok fs" and mk: "mkdir fs a = Some fs'"
  shows "tree_ok fs'" "more_dirs fs fs'"
    "NUL \<notin> set a \<Longrightarrow> \<exists>p. resolve fs' a = Some p \<and> fs' p = Some Dir \<and> (\<forall>n. fs' (p @ [n]) = None)"
proof -
  let ?strip = "\<lambda>a. rev (dropWhile (\<lambda>c. c = CHR ''/'') (rev a))"
  from mk obtain p where p: "resolve fs (?strip (cstr a)) = Some p" "fs p = None" "fs' = fs(p \<mapsto> Dir)"
    by (auto simp: mkdir_def split: option.splits if_splits)
  from resolve_end [OF ok p(1)] p(2) obtain r n where r: "p = r @ [n]" "fs r = Some Dir" by auto
  show "tree_ok fs'"
    using ok r p(2) unfolding p(3) tree_ok_def by (auto split: if_splits)
  show more: "more_dirs fs fs'" using p(2) by (auto simp: p(3) more_dirs_def)
  assume nul: "NUL \<notin> set a"
  then have a: "cstr a = a" by (rule cstr_id)
  have strip: "a = ?strip a @ replicate k (CHR ''/'')" if "k = length (takeWhile (\<lambda>c. c = CHR ''/'') (rev a))" for k
  proof -
    have "takeWhile (\<lambda>c. c = CHR ''/'') (rev a) = replicate k (CHR ''/'')"
      unfolding that by (rule replicate_length_same [symmetric]) (auto dest: set_takeWhileD)
    then have "rev a = replicate k (CHR ''/'') @ dropWhile (\<lambda>c. c = CHR ''/'') (rev a)"
      by (metis takeWhile_dropWhile_id)
    then show ?thesis by (metis rev_append rev_replicate rev_rev_ident)
  qed
  have dir: "fs' p = Some Dir" by (simp add: p(3))
  have r1: "resolve fs' (?strip a) = Some p" using resolve_more [OF p(1) more] by (simp add: a)
  have nul': "NUL \<notin> set (?strip a)" using nul by (auto dest: set_dropWhileD)
  have "resolve fs' (?strip a @ replicate k (CHR ''/'')) = Some p" for k
  proof (induction k)
    case (Suc k)
    have "NUL \<notin> set (?strip a @ replicate k (CHR ''/''))" using nul' by auto
    from resolve_step [OF Suc this, of "[]"] dir show ?case by (simp add: replicate_append_same)
  qed (use r1 in simp)
  with strip have "resolve fs' a = Some p" by metis
  moreover have "fs (p @ [n]) = None" for n using ok p(2) unfolding tree_ok_def by (metis option.distinct(1))
  ultimately show "\<exists>p. resolve fs' a = Some p \<and> fs' p = Some Dir \<and> (\<forall>n. fs' (p @ [n]) = None)"
    using dir by (auto simp: p(3))
qed

lemma write_file_ok:
  assumes ok: "tree_ok fs" and wr: "write_file fs a data = Some fs'"
  shows "tree_ok fs'" "more_dirs fs fs'"
proof -
  from wr obtain p where p: "resolve fs a = Some p" "fs p \<noteq> Some Dir" "fs' = fs(p \<mapsto> Reg data)"
    by (auto simp: write_file_def split: option.splits if_splits)
  from resolve_end [OF ok p(1,2)] obtain r n where r: "p = r @ [n]" "fs r = Some Dir" by blast
  have "fs (p @ [m]) = None" for m using ok p(2) unfolding tree_ok_def by metis
  with ok r show "tree_ok fs'" unfolding p(3) tree_ok_def by auto
  show "more_dirs fs fs'" using p(2) by (simp add: p(3) more_dirs_def)
qed

text \<open>Files named by numbers can be written to a directory that has no directories.\<close>

lemma split_loop_returns:
  assumes "tree_ok fs" and "resolve fs dir = Some p" and "fs p = Some Dir" and "\<forall>n. fs (p @ [n]) \<noteq> Some Dir"
    and "NUL \<notin> set dir" and "0 < cs"
  shows "returns (split_loop dir cs k i content fs) tree_ok"
  using assms(1-4)
proof (induction k arbitrary: i content fs)
  case (Suc k)
  have plain: "plain (dec i)" by simp
  then have "CHR ''/'' \<notin> set (dec i)" "NUL \<notin> set (dec i)" by (simp_all add: plain_def)
  from resolve_step [OF Suc.prems(2) assms(5) this] Suc.prems(3)
  have "resolve fs (dir @ ''/'' @ dec i) = Some (p @ [dec i])" by (simp add: walk_plain [OF plain] del: walk.simps) simp
  then have wr: "write_file fs (dir @ ''/'' @ dec i) d = Some (fs(p @ [dec i] \<mapsto> Reg d))" for d
    using Suc.prems(4) by (simp add: write_file_def)
  note ok = write_file_ok [OF Suc.prems(1) wr]
  have "returns (split_loop dir cs k (Suc i) (drop (nat cs) content) (fs(p @ [dec i] \<mapsto> Reg d))) tree_ok" for d
  proof (rule Suc.IH)
    show "tree_ok (fs(p @ [dec i] \<mapsto> Reg d))" "resolve (fs(p @ [dec i] \<mapsto> Reg d)) dir = Some p"
      using ok(1) resolve_more [OF Suc.prems(2) ok(2)] by blast+
    show "(fs(p @ [dec i] \<mapsto> Reg d)) p = Some Dir" "\<forall>n. (fs(p @ [dec i] \<mapsto> Reg d)) (p @ [n]) \<noteq> Some Dir"
      using Suc.prems(3,4) by simp_all
  qed
  then show ?case using assms(6) wr by simp
qed simp

end
