(* ===== verification/Client_Inv.thy ===== *)
theory Client_Inv
  imports Private Conversation Disk
begin

text \<open>
  The invariant of the client and that its operations keep it.  It is weaker than the server's: two
  connections can name the same user (a second private session with somebody takes the link of the
  first), but a user who is linked to a connection is linked to an open one that names the user, so a
  link never dangles; and the first connection of the table is the one to the server, open until
  its end has ended the program.
\<close>

section \<open>The invariant\<close>

definition conn_ok :: "client \<Rightarrow> im_client \<Rightarrow> bool" where
  "conn_ok s cl \<longleftrightarrow> buf_ok (c_outbuffer cl) \<and> buf_ok (c_inbuffer cl) \<and> \<not> c_locked cl
     \<and> (\<forall>u. c_user cl = Some u \<longrightarrow> u \<in> dom (users s))
     \<and> c_close_callback cl \<noteq> Some Pm_Close_Connection \<and> c_close_prehook cl \<noteq> Some Server_Close_Connection"

definition table_ok :: "client \<Rightarrow> bool" where
  "table_ok s \<longleftrightarrow> set (clients s) = dom (client_store s) \<and> distinct (clients s)
     \<and> (\<forall>c \<in> dom (client_store s). c < next_client s)
     \<and> (\<forall>c d k l. client_store s c = Some k \<longrightarrow> client_store s d = Some l \<longrightarrow> c_fd k = c_fd l \<longrightarrow> c = d)"

definition links_ok :: "client \<Rightarrow> bool" where
  "links_ok s \<longleftrightarrow> (\<forall>u x c. users s u = Some x \<longrightarrow> u_client x = Some c \<longrightarrow>
     (\<exists>cl. client_store s c = Some cl \<and> c_user cl = Some u \<and> c_fd cl \<in> open_fds s))"

definition server_ok :: "client \<Rightarrow> bool" where
  "server_ok s \<longleftrightarrow> (\<exists>c cl. server_conn s = Some c \<and> client_store s c = Some cl
     \<and> c_close_callback cl = Some Server_Close_Connection \<and> (c_fd cl \<in> open_fds s \<or> fatal s))"

text \<open>What the program has of its own: the name it logs in with fits its array, and the data directory
  is named by a C string in a file system whose directories hold all that is in it.\<close>

definition local_ok :: "client \<Rightarrow> bool" where
  "local_ok s \<longleftrightarrow> (\<forall>n. loggedInUserName s = Some n \<longrightarrow> length n < LOGIN_SIZE_LIMIT)
     \<and> tree_ok (cl_files s) \<and> NUL \<notin> set (datapath s)"

definition client_inv :: "client \<Rightarrow> bool" where
  "client_inv s \<longleftrightarrow> db_ok s \<and> \<not> is_server s \<and> table_ok s \<and> links_ok s \<and> server_ok s
     \<and> (\<forall>c cl. client_store s c = Some cl \<longrightarrow> conn_ok s cl)
     \<and> local_ok s"

lemma client_invD:
  assumes "client_inv s"
  shows "db_ok s" "\<not> is_server s" "table_ok s" "links_ok s" "server_ok s"
    "client_store s c = Some cl \<Longrightarrow> conn_ok s cl"
    "local_ok s"
  using assms by (auto simp: client_inv_def)

lemma table_okD:
  assumes "table_ok s"
  shows "set (clients s) = dom (client_store s)" "distinct (clients s)"
    "c \<in> dom (client_store s) \<Longrightarrow> c < next_client s"
    "client_store s c = Some k \<Longrightarrow> client_store s d = Some l \<Longrightarrow> c_fd k = c_fd l \<Longrightarrow> c = d"
  using assms unfolding table_ok_def by auto

lemma links_okD:
  assumes "links_ok s" and "users s u = Some x" and "u_client x = Some c"
  obtains cl where "client_store s c = Some cl" and "c_user cl = Some u" and "c_fd cl \<in> open_fds s"
  using assms unfolding links_ok_def by blast

text \<open>The fields the invariant is about; everything else may change freely.\<close>

lemma client_inv_cong:
  assumes "users t = users s" "next_user t = next_user s" "udb t = udb s" "client_store t = client_store s"
    "next_client t = next_client s" "clients t = clients s" "open_fds t = open_fds s" "is_server t = is_server s"
    "fatal t = fatal s" "loggedInUserName t = loggedInUserName s" "cl_files t = cl_files s" "datapath t = datapath s"
  shows "client_inv t = client_inv s"
  using db_ok_cong [OF assms(1,3,2)]
  by (simp add: client_inv_def table_ok_def links_ok_def server_ok_def server_conn_def conn_ok_def local_ok_def assms)

text \<open>What an operation may do while connections are being read: open connections stay, with what
  has been received on them, and the program does not end.\<close>

definition keeps_reading :: "client \<Rightarrow> client \<Rightarrow> bool" where
  "keeps_reading s t \<longleftrightarrow> fatal t = fatal s \<and> open_fds s \<subseteq> open_fds t
     \<and> (\<forall>c cl. client_store s c = Some cl \<longrightarrow> c_fd cl \<in> open_fds s \<longrightarrow>
          (\<exists>cl'. client_store t c = Some cl' \<and> c_inbuffer cl' = c_inbuffer cl \<and> c_fd cl' = c_fd cl))"

lemma keeps_reading_refl [simp]: "keeps_reading s s"
  by (simp add: keeps_reading_def)

lemma keeps_reading_trans:
  assumes "keeps_reading r s" and "keeps_reading s t"
  shows "keeps_reading r t"
  unfolding keeps_reading_def
proof (intro conjI allI impI)
  show "fatal t = fatal r" "open_fds r \<subseteq> open_fds t" using assms by (auto simp: keeps_reading_def)
  fix c cl assume c: "client_store r c = Some cl" "c_fd cl \<in> open_fds r"
  with assms(1) obtain k where k: "client_store s c = Some k" "c_inbuffer k = c_inbuffer cl" "c_fd k = c_fd cl"
    unfolding keeps_reading_def by blast
  moreover have "c_fd k \<in> open_fds s" using assms(1) c(2) k(3) by (auto simp: keeps_reading_def)
  ultimately obtain l where "client_store t c = Some l" "c_inbuffer l = c_inbuffer k" "c_fd l = c_fd k"
    using assms(2) unfolding keeps_reading_def by blast
  with k show "\<exists>cl'. client_store t c = Some cl' \<and> c_inbuffer cl' = c_inbuffer cl \<and> c_fd cl' = c_fd cl" by auto
qed

lemma keeps_reading_same:
  "client_store t = client_store s \<Longrightarrow> fatal t = fatal s \<Longrightarrow> open_fds t = open_fds s \<Longrightarrow> keeps_reading s t"
  by (simp add: keeps_reading_def)

lemma keeps_reading_put:
  "client_store s c = Some cl \<Longrightarrow> c_inbuffer cl' = c_inbuffer cl \<Longrightarrow> c_fd cl' = c_fd cl \<Longrightarrow> keeps_reading s (put_client c cl' s)"
  by (auto simp: keeps_reading_def heap_simps)

section \<open>Connections\<close>

text \<open>A change of a connection that leaves its identity and its user alone.\<close>

definition same_conn :: "im_client \<Rightarrow> im_client \<Rightarrow> bool" where
  "same_conn cl cl' \<longleftrightarrow> c_fd cl' = c_fd cl \<and> c_user cl' = c_user cl \<and> c_close_callback cl' = c_close_callback cl"

lemma put_conn_inv:
  assumes inv: "client_inv s" and cl: "client_store s c = Some cl" and same: "same_conn cl cl'" and ok: "conn_ok s cl'"
  shows "client_inv (put_client c cl' s)" (is "client_inv ?t")
  unfolding client_inv_def
proof (intro conjI allI impI)
  note same = same [unfolded same_conn_def]
  note tab = table_okD [OF client_invD(3) [OF inv]]
  show "db_ok ?t" using client_invD(1) [OF inv] by (subst db_ok_cong [of _ s]) (simp_all add: heap_simps)
  show "\<not> is_server ?t" using client_invD(2) [OF inv] by (simp add: heap_simps)
  show "table_ok ?t"
    unfolding table_ok_def
  proof (intro conjI allI impI ballI)
    show "set (clients ?t) = dom (client_store ?t)" using tab(1) cl by (auto simp: heap_simps)
    show "distinct (clients ?t)" using tab(2) by (simp add: heap_simps)
    show "d < next_client ?t" if "d \<in> dom (client_store ?t)" for d
      using that tab(3) [of d] tab(3) [of c] cl by (auto simp: heap_simps split: if_splits)
    show "d = e" if de: "client_store ?t d = Some k" "client_store ?t e = Some l" "c_fd k = c_fd l" for d e k l
    proof -
      have "\<exists>k0. client_store s d = Some k0 \<and> c_fd k0 = c_fd k" using de(1) cl same by (auto simp: heap_simps split: if_splits)
      moreover have "\<exists>l0. client_store s e = Some l0 \<and> c_fd l0 = c_fd l" using de(2) cl same by (auto simp: heap_simps split: if_splits)
      ultimately show ?thesis using tab(4) [of d _ e] de(3) by auto
    qed
  qed
  show "links_ok ?t"
    unfolding links_ok_def
  proof (intro allI impI)
    fix u x d assume "users ?t u = Some x" "u_client x = Some d"
    then have x: "users s u = Some x" by (simp add: heap_simps)
    from links_okD [OF client_invD(4) [OF inv] x \<open>u_client x = Some d\<close>] obtain k where
      "client_store s d = Some k" "c_user k = Some u" "c_fd k \<in> open_fds s" .
    then show "\<exists>cl. client_store ?t d = Some cl \<and> c_user cl = Some u \<and> c_fd cl \<in> open_fds ?t"
      using cl same by (auto simp: heap_simps)
  qed
  show "server_ok ?t" using client_invD(5) [OF inv] cl same by (auto simp: server_ok_def server_conn_def heap_simps)
  show "conn_ok ?t k" if "client_store ?t d = Some k" for d k
    using that ok client_invD(6) [OF inv, of d k] by (auto simp: conn_ok_def heap_simps split: if_splits)
  show "local_ok ?t"
    using client_invD(7) [OF inv] by (simp add: local_ok_def put_client_def)
qed

lemma put_output_inv:
  assumes inv: "client_inv s" and cl: "client_store s c = Some cl" and ob: "buf_ok ob"
  shows "client_inv (put_client c (cl\<lparr>c_outbuffer := ob\<rparr>) s)"
    "keeps_reading s (put_client c (cl\<lparr>c_outbuffer := ob\<rparr>) s)"
  using client_invD(6) [OF inv cl] ob
  by (auto intro!: put_conn_inv [OF inv cl] keeps_reading_put [OF cl] simp: same_conn_def conn_ok_def)

lemma put_input_inv:
  assumes inv: "client_inv s" and cl: "client_store s c = Some cl" and b: "buf_ok b"
  shows "client_inv (put_client c (cl\<lparr>c_inbuffer := b\<rparr>) s)"
  using client_invD(6) [OF inv cl] b by (auto intro!: put_conn_inv [OF inv cl] simp: same_conn_def conn_ok_def)

lemma epoll_inv [simp]: "client_inv (s\<lparr>epoll := e\<rparr>) = client_inv s"
  by (rule client_inv_cong) simp_all

lemma print_inv [simp]: "client_inv (print_line l s) = client_inv s"
  by (rule client_inv_cong) (simp_all add: print_line_def)

lemma print_keeps [simp]: "keeps_reading s (print_line l s)"
  by (simp add: keeps_reading_def print_line_def)

lemma send_client_inv:
  assumes inv: "client_inv s" and cl: "client_store s c = Some cl"
  shows "returns (send_response_to_client pb s c m) (\<lambda>t. client_inv t \<and> keeps_reading s t)"
proof -
  note ok = client_invD(6) [OF inv cl, unfolded conn_ok_def]
  from append_ok [of "c_outbuffer cl" "encodeIMResponseToBytes pb m"] ok obtain ob where
    ob: "send_response pb (c_outbuffer cl) m = Some ob" "buf_ok ob" by (auto simp: send_response_def elim!: returnsE)
  let ?t = "put_client c (cl\<lparr>c_outbuffer := ob\<rparr>) s"
  note t = put_output_inv [OF inv cl ob(2)]
  have "keeps_reading ?t (?t\<lparr>epoll := e\<rparr>)" for e by (rule keeps_reading_same) simp_all
  with t ob(1) ok cl show ?thesis by (auto simp: send_response_to_client_def intro: keeps_reading_trans)
qed

section \<open>Users\<close>

lemma addUser_client_inv:
  assumes inv: "client_inv s"
  shows "client_inv (snd (addUser s n pw))" (is "client_inv ?t")
  unfolding client_inv_def
proof (intro conjI allI impI)
  have fresh: "next_user s \<notin> dom (users s)" using db_okD(3) [OF client_invD(1) [OF inv]] by blast
  show "db_ok ?t" using addUser_db_ok [OF client_invD(1) [OF inv]] .
  show "\<not> is_server ?t" "table_ok ?t" "server_ok ?t"
    using client_invD(2,3,5) [OF inv] by (simp_all add: addUser_def Let_def table_ok_def server_ok_def server_conn_def)
  show "links_ok ?t"
    using client_invD(4) [OF inv] by (auto simp: links_ok_def addUser_def Let_def new_user_def)
  show "conn_ok ?t k" if "client_store ?t d = Some k" for d k
    using that client_invD(6) [OF inv, of d k] by (auto simp: conn_ok_def addUser_def Let_def)
  show "local_ok ?t"
    using client_invD(7) [OF inv] by (simp add: local_ok_def addUser_def Let_def)
qed

lemma findOrAddUser_inv:
  assumes inv: "client_inv s" and r: "findOrAddUser s name = (u, t)"
  shows "client_inv t" "keeps_reading s t" "u \<in> dom (users t)"
    "findUser s name = Some v \<Longrightarrow> v = u"
    "client_store t = client_store s" "users t v = Some x \<Longrightarrow> u_client x = Some c \<Longrightarrow> users s v = Some x"
proof -
  from findOrAddUser_spec [OF client_invD(1) [OF inv], of name] r have
    t: "findUser t name = Some u" "u \<in> dom (users t)" "client_store t = client_store s" "t = s \<or> t = snd (addUser s name [])"
    by auto
  show "client_inv t" using t(4) inv addUser_client_inv [OF inv, of name "[]"] by auto
  show "keeps_reading s t" using t(4) by (auto simp: addUser_def Let_def keeps_reading_same)
  show "u \<in> dom (users t)" "client_store t = client_store s" by (fact t)+
  show "users s v = Some x" if "users t v = Some x" "u_client x = Some c"
    using that t(4) by (auto simp: addUser_def Let_def new_user_def split: if_splits)
  show "findUser s name = Some v \<Longrightarrow> v = u" using r by (simp add: findOrAddUser_def)
qed

text \<open>Linking a connection is safe when nobody else is linked to it.\<close>

lemma link_private_inv:
  assumes inv: "client_inv s" and u: "u \<in> dom (users s)" and cl: "client_store s c = Some cl" "c_fd cl \<in> open_fds s"
    and only: "\<forall>v x. users s v = Some x \<longrightarrow> u_client x = Some c \<longrightarrow> v = u"
  shows "returns (link_private u c s) (\<lambda>t. client_inv t \<and> keeps_reading s t \<and> c \<in> dom (client_store t))"
proof -
  obtain us where us: "users s u = Some us" using u by blast
  let ?k = "cl\<lparr>c_user := Some u, c_close_prehook := Some Pm_Close_Connection\<rparr>" and ?x = "us\<lparr>u_client := Some c\<rparr>"
  let ?t = "put_client c ?k (put_user u ?x s)"
  note tab = table_okD [OF client_invD(3) [OF inv]]
  have "client_inv ?t"
    unfolding client_inv_def
  proof (intro conjI allI impI)
    show "db_ok ?t"
      by (rule db_ok_users_upd [OF client_invD(1) [OF inv] us, of ?x]) (simp_all add: heap_simps)
    show "\<not> is_server ?t" using client_invD(2) [OF inv] by (simp add: heap_simps)
    show "table_ok ?t"
      unfolding table_ok_def
    proof (intro conjI allI impI ballI)
      show "set (clients ?t) = dom (client_store ?t)" "distinct (clients ?t)"
        using tab(1,2) cl(1) by (auto simp: heap_simps)
      show "d < next_client ?t" if "d \<in> dom (client_store ?t)" for d
        using that tab(3) [of d] tab(3) [of c] cl(1) by (auto simp: heap_simps split: if_splits)
      show "d = e" if "client_store ?t d = Some k" "client_store ?t e = Some l" "c_fd k = c_fd l" for d e k l
        using that tab(4) [of d k e l] tab(4) [OF cl(1), of e l] tab(4) [OF cl(1), of d k] 
        by (auto simp: heap_simps split: if_splits)
    qed
    show "links_ok ?t"
      unfolding links_ok_def
    proof (intro allI impI)
      fix v y d assume y: "users ?t v = Some y" "u_client y = Some d"
      show "\<exists>cl. client_store ?t d = Some cl \<and> c_user cl = Some v \<and> c_fd cl \<in> open_fds ?t"
      proof (cases "v = u")
        case True
        with y cl show ?thesis by (auto simp: heap_simps)
      next
        case False
        with y have y': "users s v = Some y" by (simp add: heap_simps)
        from links_okD [OF client_invD(4) [OF inv] y' y(2)] obtain k where
          k: "client_store s d = Some k" "c_user k = Some v" "c_fd k \<in> open_fds s" .
        moreover have "d \<noteq> c" using only y' y(2) False by blast
        ultimately show ?thesis by (simp add: heap_simps)
      qed
    qed
    show "server_ok ?t" using client_invD(5) [OF inv] cl by (auto simp: server_ok_def server_conn_def heap_simps)
    show "conn_ok ?t k" if "client_store ?t d = Some k" for d k
      using that client_invD(6) [OF inv, of d k] client_invD(6) [OF inv cl(1)]
      by (auto simp: conn_ok_def heap_simps split: if_splits)
    show "local_ok ?t"
      using client_invD(7) [OF inv] by (simp add: local_ok_def put_client_def put_user_def)
  qed
  moreover have "keeps_reading s ?t" using cl(1) by (auto simp: keeps_reading_def heap_simps)
  ultimately show ?thesis using us cl(1) by (simp add: link_private_def heap_simps)
qed

section \<open>A new connection\<close>

text \<open>The kernel never hands out a descriptor that is open, so the entry that is freed for it is
  that of a connection that has been closed: nobody is linked to it, and it is not the server's.\<close>

lemma add_client_inv:
  assumes inv: "client_inv s" and live: "\<not> fatal s" and fd: "fd \<notin> open_fds s" and room: "length (clients s) < MAX_CLIENTS"
  shows "returns (add_client s fd a) (\<lambda>(c, t). client_inv t \<and> keeps_reading s t \<and> client_store t c = Some (new_client fd a)
    \<and> fd \<in> open_fds t \<and> users t = users s \<and> (\<forall>u x. users s u = Some x \<longrightarrow> u_client x \<noteq> Some c) \<and> connects t = connects s)"
proof -
  note tab = table_okD [OF client_invD(3) [OF inv]]
  let ?c = "next_client s" and ?n = "new_client fd a"
  have fresh: "client_store s ?c = None" using tab(3) [of ?c] by (cases "client_store s ?c") auto
  define m where "m = (\<lambda>d. if \<exists>k. client_store s d = Some k \<and> c_fd k = fd then None else client_store s d)"
  have m: "m d = Some k \<longleftrightarrow> client_store s d = Some k \<and> c_fd k \<noteq> fd" for d k by (auto simp: m_def)
  obtain r where r: "lookup_client s fd = Some r"
    and look: "case r of None \<Rightarrow> \<forall>c \<in> set (clients s). \<forall>cl. client_store s c = Some cl \<longrightarrow> c_fd cl \<noteq> fd
      | Some i \<Rightarrow> i < length (clients s) \<and> (\<exists>cl. client_store s (clients s ! i) = Some cl \<and> c_fd cl = fd)"
    using find_fd_spec [OF equalityD1 [OF tab(1)], of fd] unfolding lookup_client_def by (rule returnsE)
  define cs where "cs = (case r of None \<Rightarrow> clients s @ [?c] | Some i \<Rightarrow> (clients s)[i := ?c])"
  let ?t = "s\<lparr>client_store := m(?c \<mapsto> ?n), next_client := Suc ?c, clients := cs,
      epoll := (if epoll s fd = None then (epoll s)(fd \<mapsto> (True, False)) else epoll s),
      open_fds := insert fd (open_fds s)\<rparr>"
  have run: "add_client s fd a = Some (?c, ?t)"
  proof (cases r)
    case None
    with look tab(1) have "m = client_store s" by (fastforce simp: m_def)
    with None r room show ?thesis by (simp add: add_client_def im_connection_accept_def Let_def cs_def)
  next
    case (Some i)
    with look obtain k where i: "i < length (clients s)" "client_store s (clients s ! i) = Some k" "c_fd k = fd" by auto
    have "m d = ((client_store s)(clients s ! i := None)) d" for d
    proof (cases "d = clients s ! i")
      case False
      then have "\<not> (\<exists>k. client_store s d = Some k \<and> c_fd k = fd)" using tab(4) [OF i(2), of d] i(3) by auto
      then have "m d = client_store s d" unfolding m_def by (rule if_not_P)
      with False show ?thesis by simp
    qed (use i in \<open>auto simp: m_def\<close>)
    then have "m = (client_store s)(clients s ! i := None)" by (rule ext)
    with Some r show ?thesis
      by (simp add: add_client_def im_connection_accept_def free_client_def Let_def cs_def)
  qed
  have cs: "set cs = insert ?c (dom m)" "distinct cs" "server_conn ?t = server_conn s"
  proof -
    have new: "?c \<notin> set (clients s)" using fresh tab(1) by auto
    obtain c0 k0 where c0: "server_conn s = Some c0" "client_store s c0 = Some k0" "c_fd k0 \<in> open_fds s"
      using client_invD(5) [OF inv] live by (auto simp: server_ok_def)
    have "set cs = insert ?c (dom m) \<and> distinct cs \<and> server_conn ?t = server_conn s"
    proof (cases r)
      case None
      with look tab(1) have "m = client_store s" by (fastforce simp: m_def)
      with None tab(1,2) new c0(1) show ?thesis by (auto simp: cs_def server_conn_def split: list.splits)
    next
      case (Some i)
      with look obtain k where i: "i < length (clients s)" "client_store s (clients s ! i) = Some k" "c_fd k = fd" by auto
      have dm: "dom m = set (clients s) - {clients s ! i}"
      proof
        show "dom m \<subseteq> set (clients s) - {clients s ! i}" using i tab(1) by (auto simp: m)
        show "set (clients s) - {clients s ! i} \<subseteq> dom m"
        proof
          fix d assume d: "d \<in> set (clients s) - {clients s ! i}"
          then obtain l where l: "client_store s d = Some l" using tab(1) by blast
          moreover have "c_fd l \<noteq> fd" using tab(4) [OF i(2) l] i(3) d by auto
          ultimately show "d \<in> dom m" using m by blast
        qed
      qed
      have "i \<noteq> 0"
      proof
        assume "i = 0"
        with i(1) c0(1) have "clients s ! i = c0" by (cases "clients s") (auto simp: server_conn_def)
        with i(2,3) c0(2,3) fd show False by simp
      qed
      then have "server_conn ?t = server_conn s"
        using Some i(1) by (cases "clients s"; cases i) (auto simp: cs_def server_conn_def)
      moreover have "set cs = insert ?c (dom m)" using set_replace [OF tab(2) i(1)] Some by (simp add: cs_def dm)
      moreover have "distinct cs" using Some tab(2) new by (simp add: cs_def distinct_list_update)
      ultimately show ?thesis by blast
    qed
    then show "set cs = insert ?c (dom m)" "distinct cs" "server_conn ?t = server_conn s" by blast+
  qed
  have linked: "m d = client_store s d" if "client_store s d = Some k" "c_fd k \<in> open_fds s" for d k
    using that fd by (auto simp: m_def)
  have mc: "m ?c = None" using fresh by (simp add: m_def)
  have "client_inv ?t"
    unfolding client_inv_def
  proof (intro conjI allI impI)
    show "db_ok ?t" using client_invD(1) [OF inv] by (subst db_ok_cong [of _ s]) simp_all
    show "\<not> is_server ?t" using client_invD(2) [OF inv] by simp
    show "table_ok ?t"
      unfolding table_ok_def
    proof (intro conjI allI impI ballI)
      show "set (clients ?t) = dom (client_store ?t)" "distinct (clients ?t)" using cs by auto
      show "d < next_client ?t" if "d \<in> dom (client_store ?t)" for d
      proof -
        have "d = ?c \<or> d \<in> dom (client_store s)" using that by (auto simp: m split: if_splits)
        then show ?thesis by (elim disjE) (simp_all add: less_SucI tab(3))
      qed
      show "d = e" if "client_store ?t d = Some k" "client_store ?t e = Some l" "c_fd k = c_fd l" for d e k l
        using that tab(4) by (intro fds_stay_unique [of m fd ?c a d k e l]) (auto simp: m)
    qed
    show "links_ok ?t"
      unfolding links_ok_def
    proof (intro allI impI)
      fix u x d assume "users ?t u = Some x" "u_client x = Some d"
      with links_okD [OF client_invD(4) [OF inv], of u x d] obtain k where
        k: "client_store s d = Some k" "c_user k = Some u" "c_fd k \<in> open_fds s" by auto
      then show "\<exists>cl. client_store ?t d = Some cl \<and> c_user cl = Some u \<and> c_fd cl \<in> open_fds ?t"
        using linked [OF k(1,3)] fresh by auto
    qed
    show "server_ok ?t"
    proof -
      obtain c0 k0 where "server_conn s = Some c0" "client_store s c0 = Some k0" "c_fd k0 \<in> open_fds s"
        "c_close_callback k0 = Some Server_Close_Connection"
        using client_invD(5) [OF inv] live by (auto simp: server_ok_def)
      with cs(3) linked [of c0 k0] fresh show ?thesis by (auto simp: server_ok_def)
    qed
    show "conn_ok ?t k" if "client_store ?t d = Some k" for d k
      using that client_invD(6) [OF inv, of d k]
      by (auto simp: conn_ok_def m new_client_def init_buffer_ok MSG_LIMIT_def OUT_BUFFER_DEFAULT_SIZE_def split: if_splits)
    show "local_ok ?t"
      using client_invD(7) [OF inv] by (simp add: local_ok_def)
  qed
  moreover have "keeps_reading s ?t"
    unfolding keeps_reading_def
  proof (intro conjI allI impI)
    fix d k assume k: "client_store s d = Some k" "c_fd k \<in> open_fds s"
    with linked [OF k] fresh show "\<exists>k'. client_store ?t d = Some k' \<and> c_inbuffer k' = c_inbuffer k \<and> c_fd k' = c_fd k"
      by auto
  qed auto
  moreover have "u_client x \<noteq> Some ?c" if "users s u = Some x" for u x
    using links_okD [OF client_invD(4) [OF inv] that, of ?c] fresh by auto
  ultimately show ?thesis unfolding run by simp
qed

section \<open>Closing a connection\<close>

text \<open>\<open>logoutUser\<close> on a client: both ends of the link of the user are cleared.  With two sessions
  with one user this can be the other connection than the one that closes.\<close>

definition unlinked :: "client \<Rightarrow> uref option \<Rightarrow> client" where
  "unlinked s uo = (case uo of None \<Rightarrow> s | Some u \<Rightarrow> (case users s u of None \<Rightarrow> s | Some x \<Rightarrow>
     (case u_client x of None \<Rightarrow> s | Some d \<Rightarrow> (case client_store s d of None \<Rightarrow> s | Some k \<Rightarrow>
       put_user u (x\<lparr>u_client := None\<rparr>) (put_client d (k\<lparr>c_user := None\<rparr>) s)))))"

lemma unlinked_cases:
  assumes inv: "client_inv s" and u: "\<forall>u. uo = Some u \<longrightarrow> u \<in> dom (users s)"
  shows "(unlinked s uo = s \<and> (\<forall>u x. uo = Some u \<longrightarrow> users s u = Some x \<longrightarrow> u_client x = None))
    \<or> (\<exists>u x d k. uo = Some u \<and> users s u = Some x \<and> u_client x = Some d \<and> client_store s d = Some k
        \<and> c_user k = Some u \<and> unlinked s uo = put_user u (x\<lparr>u_client := None\<rparr>) (put_client d (k\<lparr>c_user := None\<rparr>) s))"
proof (cases uo)
  case None
  then show ?thesis by (simp add: unlinked_def)
next
  case (Some u)
  then obtain x where x: "users s u = Some x" using u by blast
  show ?thesis
  proof (cases "u_client x")
    case None
    with Some x show ?thesis by (simp add: unlinked_def)
  next
    case (Some d)
    from links_okD [OF client_invD(4) [OF inv] x Some] obtain k where "client_store s d = Some k" "c_user k = Some u" .
    with \<open>uo = Some u\<close> x Some show ?thesis by (simp add: unlinked_def)
  qed
qed

lemma unlinked_inv:
  assumes inv: "client_inv s" and u: "\<forall>u. uo = Some u \<longrightarrow> u \<in> dom (users s)"
  shows "client_inv (unlinked s uo)"
  using unlinked_cases [OF assms]
proof (elim disjE exE conjE)
  fix u x d k
  assume h: "uo = Some u" "users s u = Some x" "u_client x = Some d" "client_store s d = Some k" "c_user k = Some u"
  let ?t = "put_user u (x\<lparr>u_client := None\<rparr>) (put_client d (k\<lparr>c_user := None\<rparr>) s)"
  note tab = table_okD [OF client_invD(3) [OF inv]]
  have "client_inv ?t"
    unfolding client_inv_def
  proof (intro conjI allI impI)
    show "db_ok ?t"
      by (rule db_ok_users_upd [OF client_invD(1) [OF inv] h(2), of "x\<lparr>u_client := None\<rparr>"]) (simp_all add: heap_simps)
    show "\<not> is_server ?t" using client_invD(2) [OF inv] by (simp add: heap_simps)
    show "table_ok ?t"
      unfolding table_ok_def
    proof (intro conjI allI impI ballI)
      show "set (clients ?t) = dom (client_store ?t)" "distinct (clients ?t)" using tab(1,2) h(4) by (auto simp: heap_simps)
      show "e < next_client ?t" if "e \<in> dom (client_store ?t)" for e
        using that tab(3) [of e] tab(3) [of d] h(4) by (auto simp: heap_simps split: if_splits)
      show "e = f" if "client_store ?t e = Some l" "client_store ?t f = Some m" "c_fd l = c_fd m" for e f l m
        using that tab(4) [of e l f m] tab(4) [OF h(4), of f m] tab(4) [OF h(4), of e l]
        by (auto simp: heap_simps split: if_splits)
    qed
    show "links_ok ?t"
      unfolding links_ok_def
    proof (intro allI impI)
      fix v y e assume y: "users ?t v = Some y" "u_client y = Some e"
      then have v: "v \<noteq> u" "users s v = Some y" by (auto simp: heap_simps split: if_splits)
      from links_okD [OF client_invD(4) [OF inv] v(2) y(2)] obtain l where
        l: "client_store s e = Some l" "c_user l = Some v" "c_fd l \<in> open_fds s" .
      then have "e \<noteq> d" using h(4,5) v(1) by auto
      with l show "\<exists>cl. client_store ?t e = Some cl \<and> c_user cl = Some v \<and> c_fd cl \<in> open_fds ?t"
        by (simp add: heap_simps)
    qed
    show "server_ok ?t" using client_invD(5) [OF inv] h(4) by (auto simp: server_ok_def server_conn_def heap_simps)
    show "conn_ok ?t l" if "client_store ?t e = Some l" for e l
      using that client_invD(6) [OF inv, of e l] client_invD(6) [OF inv h(4)]
      by (auto simp: conn_ok_def heap_simps split: if_splits)
    show "local_ok ?t"
      using client_invD(7) [OF inv] by (simp add: local_ok_def put_client_def put_user_def)
  qed
  moreover assume "unlinked s uo = ?t"
  ultimately show ?thesis by simp
qed (use inv in simp)

text \<open>What is left of a connection's end, with nobody linked to it.\<close>

lemma closed_inv:
  assumes inv: "client_inv s" and cl: "client_store s c = Some cl"
    and nobody: "\<And>u x. users s u = Some x \<Longrightarrow> u_client x \<noteq> Some c"
    and f: "f \<longleftrightarrow> fatal s \<or> c_close_callback cl = Some Server_Close_Connection"
  shows "client_inv (s\<lparr>epoll := e, open_fds := open_fds s - {c_fd cl}, stdout := ls, fatal := f\<rparr>)" (is "client_inv ?t")
  unfolding client_inv_def
proof (intro conjI allI impI)
  note tab = table_okD [OF client_invD(3) [OF inv]]
  have other: "c_fd k \<noteq> c_fd cl" if "client_store s d = Some k" "d \<noteq> c" for d k
    using tab(4) [OF that(1) cl] that(2) by blast
  show "db_ok ?t" using client_invD(1) [OF inv] by (subst db_ok_cong [of _ s]) simp_all
  show "\<not> is_server ?t" using client_invD(2) [OF inv] by simp
  show "table_ok ?t" using client_invD(3) [OF inv] by (simp add: table_ok_def)
  show "links_ok ?t"
    unfolding links_ok_def
  proof (intro allI impI)
    fix u x d assume x: "users ?t u = Some x" "u_client x = Some d"
    with links_okD [OF client_invD(4) [OF inv], of u x d] obtain k where
      k: "client_store s d = Some k" "c_user k = Some u" "c_fd k \<in> open_fds s" by auto
    moreover have "d \<noteq> c" using nobody [of u x] x by auto
    ultimately show "\<exists>cl. client_store ?t d = Some cl \<and> c_user cl = Some u \<and> c_fd cl \<in> open_fds ?t"
      using other [of d k] by simp
  qed
  show "server_ok ?t"
  proof -
    obtain c0 k0 where k0: "server_conn s = Some c0" "client_store s c0 = Some k0"
      "c_close_callback k0 = Some Server_Close_Connection" "c_fd k0 \<in> open_fds s \<or> fatal s"
      using client_invD(5) [OF inv] by (auto simp: server_ok_def)
    with other [OF k0(2)] f cl show ?thesis by (cases "c0 = c") (auto simp: server_ok_def server_conn_def)
  qed
  show "conn_ok ?t k" if "client_store ?t d = Some k" for d k
    using that client_invD(6) [OF inv, of d k] by (simp add: conn_ok_def)
  show "local_ok ?t"
    using client_invD(7) [OF inv] by (simp add: local_ok_def)
qed

text \<open>\<open>close_socket\<close> in these terms.  The mutex it takes is free again at the end.\<close>

lemma close_client:
  assumes inv: "client_inv s" and cl: "client_store s c = Some cl"
  shows "\<exists>ls. close_socket pb s (Some c) = Some ((unlinked s (c_user cl))\<lparr>epoll := (epoll s)(c_fd cl := None),
    open_fds := open_fds s - {c_fd cl}, stdout := ls,
    fatal := (fatal s \<or> c_close_callback cl = Some Server_Close_Connection)\<rparr>)"
proof -
  note ok = client_invD(6) [OF inv cl, unfolded conn_ok_def]
  let ?s1 = "put_client c (cl\<lparr>c_locked := True\<rparr>) s"
  have same: "?s1\<lparr>stdout := stdout s\<rparr> = ?s1" by (simp add: put_client_def)
  obtain ls where pre: "(case c_close_prehook cl of None \<Rightarrow> Some ?s1 | Some h \<Rightarrow> run_close_hook h c ?s1)
      = Some (?s1\<lparr>stdout := ls\<rparr>)"
  proof (cases "c_close_prehook cl")
    case None
    show thesis by (rule that [of "stdout s"]) (simp add: None same)
  next
    case (Some h)
    with ok have h: "h = Pm_Close_Connection" by (cases h) auto
    show thesis
    proof (cases "c_user cl")
      case None
      show thesis by (rule that [of "stdout s"]) (use Some h None in \<open>simp add: heap_simps same\<close>)
    next
      case (Some u)
      with ok obtain x where x: "users s u = Some x" by auto
      show thesis
        by (rule that [of "stdout s @ [u_username x @ '' has ended private messaging session with you.'']"])
          (use \<open>c_close_prehook cl = Some h\<close> h Some x in \<open>simp add: heap_simps print_line_def\<close>)
    qed
  qed
  let ?s2 = "?s1\<lparr>stdout := ls\<rparr>"
  have unl: "cl\<lparr>c_locked := False\<rparr> = cl" using ok by (cases cl) simp
  have cb: "c_close_callback cl = None \<or> c_close_callback cl = Some Server_Close_Connection"
    using ok by (cases "c_close_callback cl"; cases "the (c_close_callback cl)") auto
  have fin: "close_socket pb s (Some c) = Some (t\<lparr>epoll := (epoll s)(c_fd cl := None),
      open_fds := open_fds s - {c_fd cl}, stdout := ls, fatal := (fatal s \<or> c_close_callback cl = Some Server_Close_Connection)\<rparr>)"
    if lo: "logoutUser pb ?s2 (c_user cl) = Some t'" and k: "client_store t' c = Some (k\<lparr>c_locked := True\<rparr>)"
      "\<not> c_locked k" "c_fd k = c_fd cl" "c_close_callback k = c_close_callback cl"
      and t: "put_client c k t' = t\<lparr>stdout := ls\<rparr>" "epoll t' = epoll s" "open_fds t' = open_fds s" "fatal t' = fatal s"
    for t t' k
  proof -
    have kk: "k\<lparr>c_locked := False\<rparr> = k" using k(2) by (cases k) simp
    have tf: "(t\<lparr>stdout := ls\<rparr>)\<lparr>fatal := fatal s\<rparr> = t\<lparr>stdout := ls\<rparr>"
      using arg_cong [OF t(1), of fatal] t(4) by (simp add: heap_simps)
    from cl ok lo k(1,3,4) pre t(1-3) cb have "close_socket pb s (Some c) = Some (t\<lparr>stdout := ls, epoll := (epoll s)(c_fd cl := None),
        open_fds := open_fds s - {c_fd cl}, fatal := (if c_close_callback cl = None then fatal t else True)\<rparr>)"
      by (auto simp: close_socket_def heap_simps Let_def kk)
    moreover have "fatal t = fatal s" using arg_cong [OF t(1), of fatal] t(4) by (simp add: heap_simps)
    ultimately show ?thesis using cb by auto
  qed
  have user: "\<forall>u. c_user cl = Some u \<longrightarrow> u \<in> dom (users s)" "\<not> c_locked cl" using ok by auto
  have "\<exists>t' k. logoutUser pb ?s2 (c_user cl) = Some t' \<and> client_store t' c = Some (k\<lparr>c_locked := True\<rparr>) \<and> \<not> c_locked k
    \<and> c_fd k = c_fd cl \<and> c_close_callback k = c_close_callback cl
    \<and> put_client c k t' = (unlinked s (c_user cl))\<lparr>stdout := ls\<rparr> \<and> epoll t' = epoll s \<and> open_fds t' = open_fds s \<and> fatal t' = fatal s"
    using unlinked_cases [OF inv user(1)]
  proof (elim disjE exE conjE)
    assume "unlinked s (c_user cl) = s" and none: "\<forall>u x. c_user cl = Some u \<longrightarrow> users s u = Some x \<longrightarrow> u_client x = None"
    moreover have "logoutUser pb ?s2 (c_user cl) = Some ?s2"
      using none user(1) by (cases "c_user cl") (auto simp: logoutUser_def heap_simps)
    moreover have "put_client c cl ?s2 = s\<lparr>stdout := ls\<rparr>" using cl by (simp add: put_client_def fun_upd_idem)
    ultimately show ?thesis using user(2) by (intro exI [of _ ?s2] exI [of _ cl]) (simp add: heap_simps)
  next
    fix u x d k assume h: "c_user cl = Some u" "users s u = Some x" "u_client x = Some d" "client_store s d = Some k"
      "c_user k = Some u" "unlinked s (c_user cl) = put_user u (x\<lparr>u_client := None\<rparr>) (put_client d (k\<lparr>c_user := None\<rparr>) s)"
    show ?thesis
    proof (cases "d = c")
      case True
      with h cl have "k = cl" by simp
      let ?t = "put_user u (x\<lparr>u_client := None\<rparr>) (put_client c (cl\<lparr>c_locked := True, c_user := None\<rparr>) ?s2)"
      have "logoutUser pb ?s2 (c_user cl) = Some ?t"
        using h True client_invD(2) [OF inv] by (simp add: logoutUser_def heap_simps)
      moreover have "put_client c (cl\<lparr>c_user := None\<rparr>) ?t = (unlinked s (c_user cl))\<lparr>stdout := ls\<rparr>"
        using h(6) True \<open>k = cl\<close> by (simp add: put_client_def put_user_def)
      ultimately show ?thesis
        using user(2) by (intro exI [of _ ?t] exI [of _ "cl\<lparr>c_user := None\<rparr>"]) (simp add: heap_simps)
    next
      case False
      let ?t = "put_user u (x\<lparr>u_client := None\<rparr>) (put_client d (k\<lparr>c_user := None\<rparr>) ?s2)"
      have "logoutUser pb ?s2 (c_user cl) = Some ?t"
        using h False client_invD(2) [OF inv] by (simp add: logoutUser_def heap_simps)
      moreover have "put_client c cl ?t = (unlinked s (c_user cl))\<lparr>stdout := ls\<rparr>"
        using h(6) False cl by (simp add: put_client_def put_user_def fun_upd_twist fun_upd_idem)
      ultimately show ?thesis
        using user(2) False by (intro exI [of _ ?t] exI [of _ cl]) (simp add: heap_simps)
    qed
  qed
  with fin show ?thesis by blast
qed

lemma close_client_inv:
  assumes inv: "client_inv s" and cl: "client_store s c = Some cl"
  shows "returns (close_socket pb s (Some c)) (\<lambda>t. client_inv t \<and> exited t = exited s \<and> dom (client_store t) = dom (client_store s))"
proof -
  have ok: "\<forall>u. c_user cl = Some u \<longrightarrow> u \<in> dom (users s)" using client_invD(6) [OF inv cl] by (simp add: conn_ok_def)
  let ?r = "unlinked s (c_user cl)"
  note inv' = unlinked_inv [OF inv ok] and cases = unlinked_cases [OF inv ok]
  have "\<exists>k. client_store ?r c = Some k \<and> c_fd k = c_fd cl \<and> c_close_callback k = c_close_callback cl"
    using cases
  proof (elim disjE exE conjE)
    fix u x d k assume "client_store s d = Some k"
      "?r = put_user u (x\<lparr>u_client := None\<rparr>) (put_client d (k\<lparr>c_user := None\<rparr>) s)"
    with cl show ?thesis by (cases "c = d") (simp_all add: heap_simps)
  qed (use cl in simp)
  then obtain k where k: "client_store ?r c = Some k" "c_fd k = c_fd cl" "c_close_callback k = c_close_callback cl" by blast
  have same: "epoll ?r = epoll s" "open_fds ?r = open_fds s" "fatal ?r = fatal s" "exited ?r = exited s"
      "dom (client_store ?r) = dom (client_store s)"
    using cases by (auto simp: heap_simps split: if_splits)
  have nobody: "u_client x \<noteq> Some c" if "users ?r u = Some x" for u x
  proof
    assume x: "u_client x = Some c"
    from links_okD [OF client_invD(4) [OF inv'] that x] obtain l where l: "client_store ?r c = Some l" "c_user l = Some u" .
    with cases cl that x show False by (auto simp: heap_simps split: if_splits)
  qed
  from close_client [OF inv cl, of pb] obtain ls where
    run: "close_socket pb s (Some c) = Some (?r\<lparr>epoll := (epoll s)(c_fd cl := None), open_fds := open_fds s - {c_fd cl},
      stdout := ls, fatal := (fatal s \<or> c_close_callback cl = Some Server_Close_Connection)\<rparr>)" by blast
  from closed_inv [OF inv' k(1) nobody, where f = "fatal s \<or> c_close_callback cl = Some Server_Close_Connection"] k(2,3) same
  show ?thesis unfolding run by simp
qed

end
