(* ===== verification/Dialogue.thy ===== *)
theory Dialogue
  imports Disk
begin

text \<open>
  The dialogues the client leads with whoever types: a question is asked until it is answered.
  Reference definitions read the answer off the input; the dialogues of the code end with it whenever
  there is one.
\<close>

section \<open>Reading lines\<close>

lemma fgets_shorter: "fgets n inp = Some (l, rest) \<Longrightarrow> 1 < n \<Longrightarrow> length rest < length inp"
  by (auto simp: fgets_def Let_def split: if_splits)

text \<open>The answer to a \<open>[y/n]\<close> question: the first line that starts with one of the letters, what it
  says, and the input behind it.\<close>

function answer :: "bytes \<Rightarrow> (bool \<times> bytes \<times> bytes) option" where
  "answer inp = (case fgets BUFSIZ inp of None \<Rightarrow> None
     | Some (l, rest) \<Rightarrow>
         if starts l (CHR ''y'') (CHR ''Y'') then Some (True, l, rest)
         else if starts l (CHR ''n'') (CHR ''N'') then Some (False, l, rest)
         else answer rest)"
  by pat_completeness auto
termination by (relation "measure length") (auto dest: fgets_shorter simp: BUFSIZ_def)

declare answer.simps [simp del]

text \<open>The first line that names a regular file with something in it; an empty line in front of it
  makes the code write in front of its buffer.\<close>

function chosen_file :: "files \<Rightarrow> bytes \<Rightarrow> (bytes \<times> bytes \<times> bytes) option" where
  "chosen_file fs inp = (case fgets BUFSIZ inp of None \<Rightarrow> None
     | Some (l, rest) \<Rightarrow> (case chop l of None \<Rightarrow> None
         | Some path \<Rightarrow> (case stat fs path of
             Some (Reg content) \<Rightarrow> if content = [] then chosen_file fs rest else Some (path, content, rest)
           | _ \<Rightarrow> chosen_file fs rest)))"
  by pat_completeness auto
termination by (relation "measure (\<lambda>(fs, inp). length inp)") (auto dest: fgets_shorter simp: BUFSIZ_def)

declare chosen_file.simps [simp del]

text \<open>A dialogue reads input and prints; nothing else of the client changes.\<close>

definition talked :: "bytes \<Rightarrow> client \<Rightarrow> client \<Rightarrow> bool" where
  "talked rest s t \<longleftrightarrow> (\<exists>ls. t = s\<lparr>cl_stdin := rest, stdout := stdout s @ ls\<rparr>)"

lemma said_and_read [simp]: "s\<lparr>stdout := x, cl_stdin := y\<rparr> = s\<lparr>cl_stdin := y, stdout := x\<rparr>" for s :: client
  by (cases s) simp

lemma talked_more: "talked r s t \<Longrightarrow> talked r' t u \<Longrightarrow> talked r' s u"
  unfolding talked_def by force

lemma talked_print: "talked r s t \<Longrightarrow> talked r s (print_line l t)"
  unfolding talked_def print_line_def by force

lemma next_line_talked:
  assumes "fgets BUFSIZ (cl_stdin s) = Some (l, rest)"
  shows "\<exists>t. next_line buf (print_line p s) = (Some l, t) \<and> talked rest s t"
  using assms by (auto simp: next_line_def talked_def print_line_def)

lemma talked_stdin: "talked r s t \<Longrightarrow> cl_stdin t = r" "talked r s t \<Longrightarrow> cl_files t = cl_files s"
  by (auto simp: talked_def)

section \<open>The dialogues end\<close>

lemma confirm_answered:
  assumes "answer inp = Some (b, l, rest)" and "cl_stdin s = inp"
  shows "\<exists>t. confirm p a buf s = Some (b, Some l, t) \<and> talked rest s t"
  using assms
proof (induction inp arbitrary: s p a buf rule: answer.induct)
  case (1 inp)
  note 1(3) [simp]
  from 1(2) obtain l1 r where g: "fgets BUFSIZ (cl_stdin s) = Some (l1, r)"
    by (auto simp: answer.simps [of inp] split: option.splits)
  from next_line_talked [OF g] obtain t where
    t: "next_line buf (print_line p s) = (Some l1, t)" "talked r s t" by blast
  show ?case
  proof (cases "starts l1 (CHR ''y'') (CHR ''Y'') \<or> starts l1 (CHR ''n'') (CHR ''N'')")
    case True
    with 1(2) g t show ?thesis
      by (auto simp: answer.simps [of inp] confirm.simps [of p a buf s] split: if_splits)
  next
    case False
    have in': "cl_stdin (print_line a t) = r" using talked_stdin(1) [OF t(2)] by (simp add: print_line_def)
    have "answer (cl_stdin (print_line a t)) = Some (b, l, rest)"
      using 1(2) g False unfolding in' by (simp add: answer.simps [of inp])
    with 1(1) [of _ l1 r "print_line a t" p a "Some l1"] g False in' obtain u where
      u: "confirm p a (Some l1) (print_line a t) = Some (b, Some l, u)" "talked rest (print_line a t) u" by auto
    have "confirm p a buf s = Some (b, Some l, u)"
      using t(1) False u(1) by (simp add: confirm.simps [of p a buf s])
    with talked_more [OF talked_print [OF t(2)] u(2)] show ?thesis by blast
  qed
qed

lemma ask_path_answered:
  assumes "chosen_file fs inp = Some (path, content, rest)" and "cl_files s = fs" and "cl_stdin s = inp"
  shows "\<exists>t. ask_path fp s = Some (path, content, t) \<and> talked rest s t"
  using assms
proof (induction fs inp arbitrary: s fp rule: chosen_file.induct)
  case (1 fs inp)
  note 1(5,6) [simp]
  from 1(4) obtain l1 r q where g: "fgets BUFSIZ (cl_stdin s) = Some (l1, r)" "chop l1 = Some q"
    by (auto simp: chosen_file.simps [of fs inp] split: option.splits)
  from next_line_talked [OF g(1)] obtain t where
    t: "next_line fp (print_line ''Path to your local file: '' s) = (Some l1, t)" "talked r s t" by blast
  note same = talked_stdin [OF t(2)]
  have go: "ask_path (Some q) u = Some (path, content, v) \<Longrightarrow> talked r s u \<Longrightarrow> talked rest u v \<Longrightarrow> 
    ask_path fp s = ask_path (Some q) u \<Longrightarrow> ?case" for u v
    using talked_more by metis
  note here = chosen_file.simps [of fs inp] ask_path.simps [of fp s]
  show ?case
  proof (cases "stat (cl_files s) q")
    case None
    with 1(4) g have "chosen_file (cl_files t) (cl_stdin t) = Some (path, content, rest)" by (simp add: here same)
    with 1(1) [of _ l1 r q t "Some q"] g None same obtain v where
      "ask_path (Some q) t = Some (path, content, v)" "talked rest t v" by auto
    then show ?thesis by (rule go [OF _ t(2)]) (use t(1) g None same in \<open>simp add: here\<close>)
  next
    case (Some f)
    show ?thesis
    proof (cases f)
      case Dir
      let ?u = "print_line ''That's not a regular file (could be a directory, etc)... Choose another file.'' t"
      have u: "cl_files ?u = cl_files s" "cl_stdin ?u = r" using same by (simp_all add: print_line_def)
      with 1(4) g Some Dir have "chosen_file (cl_files ?u) (cl_stdin ?u) = Some (path, content, rest)"
        by (simp only:) (simp add: here)
      with 1(2) [of _ l1 r q Dir ?u "Some q"] g Some Dir u obtain v where
        "ask_path (Some q) ?u = Some (path, content, v)" "talked rest ?u v" by auto
      then show ?thesis by (rule go [OF _ talked_print [OF t(2)]]) (use t(1) g Some Dir same in \<open>simp add: here\<close>)
    next
      case (Reg c)
      show ?thesis
      proof (cases "c = []")
        case True
        let ?u = "print_line ''That file is empty (0 bytes)... Please choose another file.'' t"
        have u: "cl_files ?u = cl_files s" "cl_stdin ?u = r" using same by (simp_all add: print_line_def)
        with 1(4) g Some Reg True have "chosen_file (cl_files ?u) (cl_stdin ?u) = Some (path, content, rest)"
          by (simp only:) (simp add: here)
        with 1(3) [of _ l1 r q "Reg c" c ?u "Some q"] g Some Reg True u obtain v where
          "ask_path (Some q) ?u = Some (path, content, v)" "talked rest ?u v" by auto
        then show ?thesis by (rule go [OF _ talked_print [OF t(2)]]) (use t(1) g Some Reg True same in \<open>simp add: here\<close>)
      next
        case False
        with 1(4) g t Some Reg same show ?thesis by (simp add: here)
      qed
    qed
  qed
qed

section \<open>Registering a file\<close>

text \<open>How the dialogue of \<open>register\<close> goes on and ends, by the answers in the input: given up, or a
  file, a chunk size and a last word.\<close>

definition registration :: "files \<Rightarrow> bytes \<Rightarrow> ((bytes \<times> bytes \<times> int) option \<times> bytes) option" where
  "registration fs inp = do {
     (ok, _, r1) \<leftarrow> answer inp;
     if \<not> ok then Some (None, r1)
     else do {
       (path, content, r2) \<leftarrow> chosen_file fs r1;
       (z, r3) \<leftarrow> fgets BUFSIZ r2;
       (sure, _, r4) \<leftarrow> answer r3;
       Some (if sure then Some (base_name path, content, chunk_size (cstr z)) else None, r4) } }"

lemma regfile_dialogue:
  assumes "registration (cl_files s) (cl_stdin s) = Some (choice, rest)"
  shows "\<exists>t. talked rest s t \<and> cmd_regfile_client pb s req = (case choice of None \<Rightarrow> Some (None, t)
    | Some (f, content, cs) \<Rightarrow> register_chunks pb f content cs (chunk_count (int (length content)) cs) t)"
proof -
  from assms obtain ok l r1 where a: "answer (cl_stdin s) = Some (ok, l, r1)"
    by (auto simp: registration_def bind_eq_Some_conv)
  from confirm_answered [OF a refl] obtain t1 where
    t1: "confirm reg_question (''I didn't get that...'' @ [CHR 0x0A]) None s = Some (ok, Some l, t1)" "talked r1 s t1" by blast
  show ?thesis
  proof (cases ok)
    case False
    then have "cmd_regfile_client pb s req = Some (None, t1)"
      by (simp only: cmd_regfile_client_def t1(1) Option.bind.simps prod.case not_False_eq_True if_True)
    with False assms a t1(2) show ?thesis by (auto simp: registration_def)
  next
    case True
    with assms a obtain path content r2 z r3 sure l' where
      c: "chosen_file (cl_files s) r1 = Some (path, content, r2)" "fgets BUFSIZ r2 = Some (z, r3)"
        "answer r3 = Some (sure, l', rest)" "choice = (if sure then Some (base_name path, content, chunk_size (cstr z)) else None)"
      by (auto simp: registration_def bind_eq_Some_conv)
    from ask_path_answered [OF c(1), of t1 None] talked_stdin [OF t1(2)] obtain t2 where
      t2: "ask_path None t1 = Some (path, content, t2)" "talked r2 t1 t2" by auto
    let ?m = "''How large do you want a chunk to be (in bytes) [default 1024]: ''"
    let ?n = "base_name path @ '' is a valid file with '' @ dec_int (int (length content)) @ '' bytes!''"
    note s2 = talked_print [OF talked_more [OF t1(2) t2(2)], of ?n]
    from next_line_talked [of "print_line ?n t2" z r3] c(2) talked_stdin(1) [OF s2] obtain t3 where
      t3: "next_line (Some l) (print_line ?m (print_line ?n t2)) = (Some z, t3)" "talked r3 (print_line ?n t2) t3" by auto
    note s3 = talked_more [OF s2 t3(2)]
    let ?cs = "chunk_size (cstr z)" and ?b = "int (length content)"
    from confirm_answered [OF c(3) talked_stdin(1) [OF s3],
        of "reg_summary (base_name path) path ?b ?cs (chunk_count ?b ?cs)" "''I didn't get that...''" "Some z"] obtain t4 where
      t4: "confirm (reg_summary (base_name path) path ?b ?cs (chunk_count ?b ?cs)) ''I didn't get that...'' (Some z) t3
        = Some (sure, Some l', t4)" "talked rest t3 t4" by blast
    have "cmd_regfile_client pb s req = (if \<not> sure then Some (None, t4)
        else register_chunks pb (base_name path) content ?cs (chunk_count ?b ?cs) t4)"
      by (simp only: cmd_regfile_client_def t1(1) t2(1) t3(1) t4(1) Let_def Option.bind.simps prod.case True not_True_eq_False if_False)
    with c(4) talked_more [OF s3 t4(2)] show ?thesis by auto
  qed
qed

lemma chosen_file_content: "chosen_file fs inp = Some (path, content, rest) \<Longrightarrow> content \<noteq> []"
proof (induction fs inp rule: chosen_file.induct)
  case (1 fs inp)
  from 1(4) obtain l r q where g: "fgets BUFSIZ inp = Some (l, r)" "chop l = Some q"
    by (auto simp: chosen_file.simps [of fs inp] split: option.splits)
  note here = chosen_file.simps [of fs inp] g
  show ?case
  proof (cases "stat fs q")
    case None
    with 1(1) [of _ l r q] 1(4) show ?thesis by (simp add: here)
  next
    case (Some f)
    with 1(2) [of _ l r q f] 1(3) [of _ l r q f] 1(4) show ?thesis
      by (cases f) (auto simp: here split: if_splits)
  qed
qed


text \<open>A file of five bytes, in chunks of two, registered after one answer that is neither yes nor no.\<close>

definition demo_answers :: bytes where
  "demo_answers = ''what'' @ [CHR 0x0A] @ ''yes'' @ [CHR 0x0A] @ ''f'' @ [CHR 0x0A] @ ''2'' @ [CHR 0x0A] @ ''y'' @ [CHR 0x0A]"

definition demo_typist :: client where
  "demo_typist = (demo_cl ''ann'' (demo_dir([''f''] \<mapsto> Reg ''hello'')) [])\<lparr>cl_stdin := demo_answers\<rparr>"

lemma demo_typist_answers:
  "registration (demo_dir([''f''] \<mapsto> Reg ''hello'')) demo_answers = Some (Some (''f'', ''hello'', 2), [])"
proof -
  have g: "fgets BUFSIZ inp = (if inp = [] then None else Some (take (Suc (length (takeWhile (\<lambda>c. c \<noteq> CHR 0x0A) inp))) inp,
      drop (Suc (length (takeWhile (\<lambda>c. c \<noteq> CHR 0x0A) inp))) inp))" if "length inp < 100" for inp
  proof -
    have "length (takeWhile (\<lambda>c. c \<noteq> CHR 0x0A) inp) < 100" using that length_takeWhile_le [of "\<lambda>c. c \<noteq> CHR 0x0A" inp] by linarith
    then show ?thesis by (simp add: fgets_def Let_def BUFSIZ_def min_def)
  qed
  have "stat (demo_dir([''f''] \<mapsto> Reg ''hello'')) ''f'' = Some (Reg ''hello'')" by code_simp
  moreover have "chunk_size (cstr [CHR ''2'', CHR 0x0A]) = 2" by code_simp
  ultimately show ?thesis
    by (simp add: registration_def answer.simps chosen_file.simps g demo_answers_def starts_def chop_def cstr_def base_name_def)
qed


end
