(* ===== verification/Client_Run.thy ===== *)
theory Client_Run
  imports Client_Inv Dialogue
begin

text \<open>
  The client as a step relation: an event of the network thread, a line of the input thread, a round of
  the login loop.  Under the promises of the environment, spelled out here, every step is carried out to its
  end and keeps the invariant.
\<close>

section \<open>Responses\<close>

text \<open>What the server or another client sends, by type, with its success flag.\<close>

datatype news =
    Text TextResponse
  | Exit ExitResponse
  | Address GetIPResponse
  | Registration PrivateRegistrationResponse
  | Chunk_Wanted ChunkDataRequest
  | Chunk ChunkDataResponse

fun news_type :: "news \<Rightarrow> u32" where
  "news_type (Text q) = 1"
| "news_type (Exit q) = 2"
| "news_type (Address q) = 3"
| "news_type (Registration q) = 4"
| "news_type (Chunk_Wanted q) = 5"
| "news_type (Chunk q) = 6"

fun news_value :: "pb_lib \<Rightarrow> news \<Rightarrow> bytes" where
  "news_value pb (Text q) = encodeTextResponseToBytes pb q"
| "news_value pb (Exit q) = encodeExitResponseToBytes pb q"
| "news_value pb (Address q) = encodeGetIPResponseToBytes pb q"
| "news_value pb (Registration q) = encodePrivateRegistrationResponseToBytes pb q"
| "news_value pb (Chunk_Wanted q) = encodeChunkDataRequestToBytes pb q"
| "news_value pb (Chunk q) = encodeChunkDataResponseToBytes pb q"

fun news_fields :: "news \<Rightarrow> bytes list" where
  "news_fields (Text q) = [txt_msg q]"
| "news_fields (Exit q) = [ext_msg q]"
| "news_fields (Address q) = [gip_username q, gip_addr q]"
| "news_fields (Registration q) = [prr_username q]"
| "news_fields (Chunk_Wanted q) = [cdq_filename q]"
| "news_fields (Chunk q) = [cdr_filename q, cdr_data q]"

definition news_response :: "pb_lib \<Rightarrow> bool \<times> news \<Rightarrow> IMResponse" where
  "news_response pb n = \<lparr>rsp_type = news_type (snd n), rsp_success = fst n, rsp_value = news_value pb (snd n)\<rparr>"

definition news_bytes :: "pb_lib \<Rightarrow> bool \<times> news \<Rightarrow> bytes" where
  "news_bytes pb n = encodeIMResponseToBytes pb (news_response pb n)"

definition news_small :: "pb_lib \<Rightarrow> bool \<times> news \<Rightarrow> bool" where
  "news_small pb n \<longleftrightarrow> list_all small_bytes (news_fields (snd n)) \<and> small_bytes (news_value pb (snd n))"

text \<open>The kernel's next answer to \<open>socket\<close> and \<open>connect\<close> is a failure or a descriptor that is not open,
  and there is room in the table.\<close>

definition connect_fits :: "client \<Rightarrow> bool" where
  "connect_fits s \<longleftrightarrow> (case connects s of Some fd # _ \<Rightarrow> fd \<notin> open_fds s \<and> length (clients s) < MAX_CLIENTS | _ \<Rightarrow> True)"

text \<open>An address has the size of one, and nobody who is registered on a connection registers again on it
  under another name.\<close>

fun admissible_news :: "client \<Rightarrow> cref \<Rightarrow> news \<Rightarrow> bool" where
  "admissible_news s c (Address q) \<longleftrightarrow> 16 \<le> length (gip_addr q) \<and> connect_fits s"
| "admissible_news s c (Registration q) \<longleftrightarrow> (case client_store s c of None \<Rightarrow> True
     | Some cl \<Rightarrow> c_user cl = None \<or> findUser s (prr_username q) = c_user cl)"
| "admissible_news s c (Exit q) \<longleftrightarrow> False"
| "admissible_news s c _ \<longleftrightarrow> True"

text \<open>Finding a user or a connection does not look at the other fields.\<close>

lemma lastresponse_inv [simp]: "client_inv (s\<lparr>lastresponse := b\<rparr>) = client_inv s"
  by (rule client_inv_cong) simp_all

lemma start_private_inv:
  assumes inv: "client_inv s" and live: "\<not> fatal s" and addr: "16 \<le> length (gip_addr gr)" and conn: "connect_fits s"
  shows "returns (start_private pb s gr) (\<lambda>t. client_inv t \<and> keeps_reading s t)"
proof -
  obtain a where a: "sockaddr_of (gip_addr gr) = Some a" using addr by (simp add: sockaddr_of_def)
  let ?s0 = "s\<lparr>connects := tl (connects s)\<rparr>"
  have inv0: "client_inv ?s0" using inv by (subst client_inv_cong [of _ s]) simp_all
  have k0: "keeps_reading s ?s0" by (rule keeps_reading_same) simp_all
  show ?thesis
  proof (cases "case connects s of [] \<Rightarrow> None | r # _ \<Rightarrow> r")
    case None
    with a inv0 k0 show ?thesis by (simp add: start_private_def Let_def)
  next
    case (Some fd)
    then have fd: "fd \<notin> open_fds ?s0" "length (clients ?s0) < MAX_CLIENTS"
      using conn by (auto simp: connect_fits_def split: list.splits)
    from add_client_inv [OF inv0 _ fd, of a] live obtain c s1 where
      s1: "add_client ?s0 fd a = Some (c, s1)" "client_inv s1" "keeps_reading ?s0 s1"
        "client_store s1 c = Some (new_client fd a)" "fd \<in> open_fds s1" "users s1 = users s"
        "\<forall>u x. users s u = Some x \<longrightarrow> u_client x \<noteq> Some c" by (auto elim!: returnsE)
    let ?s2 = "print_line (''Start private messaging with '' @ cstr (gip_username gr)) s1"
    have inv2: "client_inv ?s2" and k2: "keeps_reading s1 ?s2" using s1(2) by simp_all
    obtain u s3 where s3: "findOrAddUser ?s2 (gip_username gr) = (u, s3)" by (cases "findOrAddUser ?s2 (gip_username gr)")
    note f = findOrAddUser_inv [OF inv2 s3]
    have cl: "client_store s3 c = Some (new_client fd a)" using f(5) s1(4) by (simp add: print_line_fields)
    have fd3: "c_fd (new_client fd a) \<in> open_fds s3"
      using f(2) s1(5) by (auto simp: keeps_reading_def new_client_def print_line_def)
    have "v = u" if "users s3 v = Some x" "u_client x = Some c" for v x
      using f(6) [OF that] s1(6,7) that(2) by (auto simp: print_line_fields)
    then have "\<forall>v x. users s3 v = Some x \<longrightarrow> u_client x = Some c \<longrightarrow> v = u" by blast
    from link_private_inv [OF f(1,3) cl fd3 this] obtain s4 cl4 where
      s4: "link_private u c s3 = Some s4" "client_inv s4" "keeps_reading s3 s4" "client_store s4 c = Some cl4"
      by (auto elim!: returnsE)
    from send_client_inv [OF s4(2,4), of pb "registration_response pb s4"] obtain t where
      t: "send_response_to_client pb s4 c (registration_response pb s4) = Some t" "client_inv t" "keeps_reading s4 t"
      by (auto elim!: returnsE)
    have "keeps_reading s t"
      using k0 s1(3) k2 f(2) s4(3) t(3) by (blast intro: keeps_reading_trans)
    with Some a s1(1) s3 s4(1) t show ?thesis by (simp add: start_private_def Let_def)
  qed
qed

lemma private_started_inv:
  assumes inv: "client_inv s" and cl: "client_store s c = Some cl" "c_fd cl \<in> open_fds s"
    and ok: "c_user cl = None \<or> findUser s (prr_username q) = c_user cl"
  shows "returns (private_started s c q) (\<lambda>t. client_inv t \<and> keeps_reading s t)"
proof -
  obtain u s1 where s1: "findOrAddUser s (prr_username q) = (u, s1)" by (cases "findOrAddUser s (prr_username q)")
  note f = findOrAddUser_inv [OF inv s1]
  let ?s2 = "print_line (cstr (prr_username q) @ '' has started a private messaging session with you'') s1"
  have inv2: "client_inv ?s2" and k2: "keeps_reading s1 ?s2" using f(1) by simp_all
  have cl2: "client_store ?s2 c = Some cl" "c_fd cl \<in> open_fds ?s2" "u \<in> dom (users ?s2)"
    using f(2,3,5) cl by (auto simp: keeps_reading_def print_line_def)
  have "v = u" if "users ?s2 v = Some x" "u_client x = Some c" for v x
  proof -
    have x: "users s v = Some x" using f(6) that by (simp add: print_line_fields)
    from links_okD [OF client_invD(4) [OF inv] x that(2)] cl(1) have "c_user cl = Some v" by auto
    with ok have "findUser s (prr_username q) = Some v" by simp
    then show ?thesis by (rule f(4))
  qed
  then have "\<forall>v x. users ?s2 v = Some x \<longrightarrow> u_client x = Some c \<longrightarrow> v = u" by blast
  from link_private_inv [OF inv2 cl2(3,1,2) this] obtain t where
    "link_private u c ?s2 = Some t" "client_inv t" "keeps_reading ?s2 t" by (auto elim!: returnsE)
  with keeps_reading_trans [OF f(2) keeps_reading_trans [OF k2]] s1 show ?thesis
    by (simp add: private_started_def Let_def)
qed

text \<open>Sending to the server always finds it: the first connection of the table.\<close>

lemma server_conn_inv:
  assumes "client_inv s"
  obtains c cl where "server_conn s = Some c" "client_store s c = Some cl" "conn_ok s cl"
  using client_invD(5,6) [OF assms] unfolding server_ok_def by blast

lemma epoll_do_send_inv:
  assumes "client_inv s"
  shows "returns (epoll_do_send_buffer s) (\<lambda>t. client_inv t \<and> keeps_reading s t \<and> exited t = exited s)"
proof -
  have "keeps_reading s (s\<lparr>epoll := e\<rparr>)" for e by (rule keeps_reading_same) simp_all
  moreover from server_conn_inv [OF assms] obtain c cl where "server_conn s = Some c" "client_store s c = Some cl" .
  ultimately show ?thesis using assms by (simp add: epoll_do_send_buffer_def)
qed

lemma files_inv: "client_inv s \<Longrightarrow> tree_ok fs \<Longrightarrow> client_inv (s\<lparr>cl_files := fs\<rparr>)"
  using db_ok_cong [of "s\<lparr>cl_files := fs\<rparr>" s]
  by (simp add: client_inv_def local_ok_def table_ok_def links_ok_def server_ok_def server_conn_def conn_ok_def)

text \<open>A request put into the output buffer for the server.\<close>

lemma request_inv:
  assumes inv: "client_inv s"
  shows "\<exists>c cl ob. server_conn s = Some c \<and> client_store s c = Some cl \<and> \<not> c_locked cl \<and> send_request pb (c_outbuffer cl) q = Some ob
    \<and> client_inv (put_client c (cl\<lparr>c_outbuffer := ob\<rparr>) s) \<and> keeps_reading s (put_client c (cl\<lparr>c_outbuffer := ob\<rparr>) s)"
proof -
  from server_conn_inv [OF inv] obtain c cl where c: "server_conn s = Some c" "client_store s c = Some cl" "conn_ok s cl" .
  from append_ok [of "c_outbuffer cl" "encodeIMRequestToBytes pb q"] c(3) obtain ob where
    ob: "send_request pb (c_outbuffer cl) q = Some ob" "buf_ok ob" by (auto simp: send_request_def conn_ok_def elim!: returnsE)
  with put_output_inv [OF inv c(2) ob(2)] c show ?thesis unfolding conn_ok_def by blast
qed

lemma writeFile_inv:
  assumes inv: "client_inv s"
  shows "returns (writeFile pb s q) (\<lambda>t. client_inv t \<and> keeps_reading s t)"
proof -
  define fs where "fs = (case mkdir (cl_files s) (datapath s @ ''/'' @ cstr (cdr_filename q)) of
    None \<Rightarrow> cl_files s | Some fs \<Rightarrow> fs)"
  define p where "p = chunk_path (datapath s) (cdr_filename q) (cdr_chunk q)"
  note run = writeFile_def [of pb s q, unfolded Let_def, folded fs_def p_def]
  have "tree_ok (cl_files s)" using client_invD(7) [OF inv] by (simp add: local_ok_def)
  then have fs: "tree_ok fs" using mkdir_ok(1) by (simp add: fs_def split: option.split)
  show ?thesis
  proof (cases "write_file fs p (cdr_data q)")
    case None
    have "keeps_reading s (s\<lparr>cl_files := fs\<rparr>)" by (rule keeps_reading_same) simp_all
    with None files_inv [OF inv fs] show ?thesis by (simp add: run)
  next
    case (Some fs')
    let ?s1 = "print_line (''Stored file at '' @ p) (s\<lparr>cl_files := fs'\<rparr>)"
    have inv1: "client_inv ?s1" using files_inv [OF inv write_file_ok(1) [OF fs Some]] by simp
    have k1: "keeps_reading s ?s1" by (rule keeps_reading_trans [OF keeps_reading_same print_keeps]) simp_all
    from request_inv [OF inv1, of pb "chunk_registration pb q"] obtain c cl ob where
      c: "server_conn ?s1 = Some c" "client_store ?s1 c = Some cl" "\<not> c_locked cl"
        "send_request pb (c_outbuffer cl) (chunk_registration pb q) = Some ob"
      and s2: "client_inv (put_client c (cl\<lparr>c_outbuffer := ob\<rparr>) ?s1)"
        "keeps_reading ?s1 (put_client c (cl\<lparr>c_outbuffer := ob\<rparr>) ?s1)" by blast
    have "writeFile pb s q = epoll_do_send_buffer (put_client c (cl\<lparr>c_outbuffer := ob\<rparr>) ?s1)"
      unfolding run Some option.case c(1,2,4) Option.bind.simps using c(3) by simp
    with epoll_do_send_inv [OF s2(1)] show ?thesis
      by (auto elim!: returns_mono intro: keeps_reading_trans [OF keeps_reading_trans [OF k1 s2(2)]])
  qed
qed

context pb_codec
begin

lemma response_inv:
  assumes inv: "client_inv s" and live: "\<not> fatal s" and cl: "client_store s c = Some cl" "c_fd cl \<in> open_fds s"
    and small: "news_small pb n" and ok: "admissible_news s c (snd n)"
  shows "returns (run_response pb s c (news_response pb n)) (\<lambda>(t, rsp). rsp = None \<and> client_inv t \<and> keeps_reading s t)"
proof -
  let ?s = "s\<lparr>lastresponse := fst n\<rparr>"
  have inv': "client_inv ?s" using inv by simp
  have k: "keeps_reading ?s t \<Longrightarrow> keeps_reading s t" for t
    by (rule keeps_reading_trans [OF keeps_reading_same]) simp_all
  have cl': "client_store ?s c = Some cl" "c_fd cl \<in> open_fds ?s" using cl by simp_all
  have "returns (response_case pb ?s c (news_response pb n)) (\<lambda>t. client_inv t \<and> keeps_reading ?s t)"
  proof (cases "snd n")
    case (Text q)
    with Text small inv' TextResponse_roundtrip [of q] show ?thesis
      by (simp add: response_case_def news_response_def news_small_def)
  next
    case (Exit q)
    with ok show ?thesis by simp
  next
    case (Address q)
    have "connect_fits ?s" using ok Address by (simp add: connect_fits_def split: list.splits option.splits)
    with Address ok small start_private_inv [OF inv', of q pb] live GetIPResponse_roundtrip [of q] show ?thesis
      by (simp add: response_case_def news_response_def news_small_def)
  next
    case (Registration q)
    have "c_user cl = None \<or> findUser ?s (prr_username q) = c_user cl"
      using ok Registration cl(1) by (simp add: findUser_def)
    with Registration small private_started_inv [OF inv' cl'] PrivateRegistrationResponse_roundtrip [of q] show ?thesis
      by (simp add: response_case_def news_response_def news_small_def)
  next
    case (Chunk_Wanted q)
    with small send_client_inv [OF inv' cl'(1)] ChunkDataRequest_roundtrip [of q] show ?thesis
      by (simp add: response_case_def news_response_def news_small_def)
  next
    case (Chunk q)
    with small writeFile_inv [OF inv'] ChunkDataResponse_roundtrip [of q] show ?thesis
      by (simp add: response_case_def news_response_def news_small_def)
  qed
  then obtain t where "response_case pb ?s c (news_response pb n) = Some t" "client_inv t" "keeps_reading ?s t"
    by (auto elim!: returnsE)
  with k show ?thesis by (simp add: run_response_def news_response_def)
qed

end

section \<open>Receiving\<close>

definition admissible_step :: "pb_lib \<Rightarrow> cref \<Rightarrow> bool \<times> news \<Rightarrow> client \<Rightarrow> client option" where
  "admissible_step pb c n s = serve_message pb (encodeIMResponseToBytes pb) (run_response pb) c (news_response pb n) s"

text \<open>Every response is admissible in the state in which it is served.\<close>

fun admissible_stream :: "pb_lib \<Rightarrow> cref \<Rightarrow> (bool \<times> news) list \<Rightarrow> client \<Rightarrow> bool" where
  "admissible_stream pb c [] s \<longleftrightarrow> True"
| "admissible_stream pb c (n # ns) s \<longleftrightarrow> admissible_news s c (snd n)
     \<and> (case admissible_step pb c n s of None \<Rightarrow> True | Some t \<Rightarrow> admissible_stream pb c ns t)"

definition partial_news :: "pb_lib \<Rightarrow> bytes \<Rightarrow> bool" where
  "partial_news pb = partial_message (encodeIMResponseToBytes pb) (\<lambda>r. small_bytes (rsp_value r))"

text \<open>The response that ends the program, and whatever is behind it.\<close>

definition farewell :: "pb_lib \<Rightarrow> bytes \<Rightarrow> bool" where
  "farewell pb p \<longleftrightarrow> (\<exists>ok q rest. p = news_bytes pb (ok, Exit q) @ rest \<and> news_small pb (ok, Exit q))"

text \<open>What the network promises for a read: the other side has closed, or what arrives on an open
  connection is a run of admissible responses, followed by the beginning of one or by a farewell.\<close>

definition reading_fits :: "pb_lib \<Rightarrow> client \<Rightarrow> cref \<Rightarrow> recv_result \<Rightarrow> bool" where
  "reading_fits pb s c rx \<longleftrightarrow> rx = Recv [] \<or> (\<exists>data cl ns p. rx = Recv data \<and> client_store s c = Some cl
     \<and> c_fd cl \<in> open_fds s \<and> length data \<le> recv_room (recv_prepare (c_inbuffer cl))
     \<and> pending (c_inbuffer cl) @ data = concat (map (news_bytes pb) ns) @ p
     \<and> (\<forall>n \<in> set ns. news_small pb n) \<and> (partial_news pb p \<or> farewell pb p)
     \<and> admissible_stream pb c ns
         (put_client c (cl\<lparr>c_inbuffer := recv_store (recv_prepare (c_inbuffer cl)) data\<rparr>) s))"

context pb_codec
begin

lemma news_fits: "news_small pb n \<Longrightarrow> \<forall>q. snd n \<noteq> Exit q \<Longrightarrow> response_fits (news_response pb n)"
  by (cases "snd n") (simp_all add: response_fits_def news_response_def news_small_def)

lemma farewell_ends:
  assumes inv: "client_inv s" and cl: "client_store s c = Some cl" "buf_ok (c_inbuffer cl)" and p: "farewell pb (pending (c_inbuffer cl))"
  shows "returns (recv_loop pb (parse_response pb) c s) (\<lambda>t. client_inv t \<and> exited t)"
proof -
  from p obtain ok q rest where q: "pending (c_inbuffer cl) = news_bytes pb (ok, Exit q) @ rest" "news_small pb (ok, Exit q)"
    unfolding farewell_def by blast
  let ?r = "news_response pb (ok, Exit q)"
  let ?t = "(print_line (cstr (ext_msg q)) (s\<lparr>lastresponse := ok\<rparr>))\<lparr>exited := True\<rparr>"
  have small: "small_bytes (rsp_value ?r)" using q(2) by (simp add: news_response_def news_small_def)
  have "response_case pb (s\<lparr>lastresponse := rsp_success ?r\<rparr>) c ?r = Some ?t"
    using q(2) ExitResponse_roundtrip [of q] by (simp add: response_case_def news_response_def news_small_def)
  then have h: "parse_response pb s c (pending (c_inbuffer cl)) = Some (?t, 0, None)"
    unfolding q(1) news_bytes_def parse_response_of [OF small] by simp
  have "news_bytes pb (ok, Exit q) \<noteq> []" using response_bytes_nonempty [OF small] by (simp add: news_bytes_def)
  then have "pending (c_inbuffer cl) \<noteq> []" unfolding q(1) by simp
  then have "0 < length (pending (c_inbuffer cl))" by (metis length_greater_0_conv)
  then have b: "buffer_start (c_inbuffer cl) < buffer_end (c_inbuffer cl)" by simp
  have "client_inv (u\<lparr>exited := True\<rparr>) = client_inv u" for u by (rule client_inv_cong) simp_all
  with inv have "client_inv ?t" by simp
  moreover have "recv_loop pb (parse_response pb) c s = Some ?t"
    using cl b h by (simp add: recv_loop.simps [of pb _ c s] Let_def buf_ok_def respond_def)
  ultimately show ?thesis by simp
qed

lemma stream_step:
  assumes inv: "client_inv s" and live: "\<not> fatal s" "\<not> exited s" and cl: "client_store s c = Some cl" "c_fd cl \<in> open_fds s"
    and small: "news_small pb n" and ok: "admissible_news s c (snd n)"
    and p: "pending (c_inbuffer cl) = news_bytes pb n @ rest"
  shows "returns (admissible_step pb c n s) (\<lambda>t. client_inv t \<and> \<not> fatal t \<and> \<not> exited t
    \<and> (\<exists>k. client_store t c = Some k \<and> c_fd k \<in> open_fds t \<and> pending (c_inbuffer k) = rest))"
proof -
  from response_inv [OF inv live(1) cl small ok] obtain s1 where
    s1: "run_response pb s c (news_response pb n) = Some (s1, None)" "client_inv s1" "keeps_reading s s1" by (auto elim!: returnsE)
  from s1(3) cl obtain k where
    k: "client_store s1 c = Some k" "c_inbuffer k = c_inbuffer cl" "c_fd k = c_fd cl" "c_fd k \<in> open_fds s1" "fatal s1 = fatal s"
    unfolding keeps_reading_def by (metis subsetD)
  have "\<forall>q. snd n \<noteq> Exit q" using ok by auto
  then have t2: "rsp_type (news_response pb n) \<noteq> 2" by (cases "snd n") (simp_all add: news_response_def)
  have "response_case pb (s\<lparr>lastresponse := rsp_success (news_response pb n)\<rparr>) c (news_response pb n) = Some s1"
    using s1(1) by (auto simp: run_response_def)
  from response_case_exited [OF this t2] live(2) have e: "\<not> exited s1" by simp
  have bok: "buf_ok (c_inbuffer k)" using client_invD(6) [OF s1(2) k(1)] by (simp add: conn_ok_def)
  have "pending (c_inbuffer k) = news_bytes pb n @ rest" by (simp add: k(2) p)
  note adv = advance_rest [OF bok this]
  from put_input_inv [OF s1(2) k(1) adv(1)] s1(1) k e live(1) adv(2) show ?thesis
    by (simp add: admissible_step_def serve_message_def respond_def news_bytes_def heap_simps)
qed

lemma receive_client_inv:
  assumes inv: "client_inv s" and live: "\<not> fatal s" "\<not> exited s" and cl: "client_store s c = Some cl"
    and fits: "reading_fits pb s c rx"
  shows "returns (im_receive_command pb (parse_response pb) s c rx) client_inv"
proof (cases "rx = Recv []")
  case True
  let ?k = "cl\<lparr>c_inbuffer := recv_prepare (c_inbuffer cl)\<rparr>"
  have "buf_ok (c_inbuffer cl)" using client_invD(6) [OF inv cl] by (simp add: conn_ok_def)
  then have "buf_ok (recv_prepare (c_inbuffer cl))" by (rule recv_prepare_ok(1))
  from close_client_inv [OF put_input_inv [OF inv cl this], of c ?k pb] True cl show ?thesis
    by (auto simp: im_receive_command_def Let_def heap_simps elim!: returns_mono)
next
  case False
  with fits cl obtain data ns p where d: "rx = Recv data" "data \<noteq> []" "c_fd cl \<in> open_fds s"
    "length data \<le> recv_room (recv_prepare (c_inbuffer cl))"
    "pending (c_inbuffer cl) @ data = concat (map (news_bytes pb) ns) @ p" "\<forall>n \<in> set ns. news_small pb n"
    "partial_news pb p \<or> farewell pb p"
    "admissible_stream pb c ns (put_client c (cl\<lparr>c_inbuffer := recv_store (recv_prepare (c_inbuffer cl)) data\<rparr>) s)"
    by (auto simp: reading_fits_def)
  let ?b = "recv_store (recv_prepare (c_inbuffer cl)) data" and ?rs = "map (news_response pb) ns"
  let ?s = "put_client c (cl\<lparr>c_inbuffer := ?b\<rparr>) s"
  have ok: "buf_ok (c_inbuffer cl)" using client_invD(6) [OF inv cl] by (simp add: conn_ok_def)
  note prep = recv_prepare_ok(1,2) [OF ok]
  have wires: "map (news_bytes pb) ns = map (encodeIMResponseToBytes pb) ?rs" by (simp add: news_bytes_def)
  have b: "buf_ok ?b" "pending ?b = concat (map (encodeIMResponseToBytes pb) ?rs) @ p"
    using recv_store_ok [OF prep(1), of data] d(4) d(5) [unfolded wires] prep(2) by simp_all
  let ?I = "\<lambda>rs u. \<exists>ms. rs = map (news_response pb) ms \<and> (\<forall>n \<in> set ms. news_small pb n) \<and> admissible_stream pb c ms u
    \<and> client_inv u \<and> \<not> fatal u \<and> \<not> exited u \<and> (\<exists>k. client_store u c = Some k \<and> c_fd k \<in> open_fds u)"
  have fit: "response_fits r \<and> \<not> exited u" if I: "?I (r # rs) u" for r rs u
  proof -
    from I obtain m ms where m: "r = news_response pb m" "news_small pb m" "admissible_news u c (snd m)" "\<not> exited u"
      by (auto simp: map_eq_Cons_conv Cons_eq_map_conv)
    then have "\<forall>q. snd m \<noteq> Exit q" by auto
    with m news_fits show ?thesis by blast
  qed
  have step: "returns (serve_message pb (encodeIMResponseToBytes pb) (run_response pb) c r u) (\<lambda>t. ?I rs t
      \<and> (\<exists>cl'. client_store t c = Some cl' \<and> buf_ok (c_inbuffer cl') \<and> pending (c_inbuffer cl') = rest))"
    if I: "?I (r # rs) u" and k: "client_store u c = Some k" and pk: "pending (c_inbuffer k) = encodeIMResponseToBytes pb r @ rest"
    for r rs u k rest
  proof -
    from I k obtain m ms where m: "r = news_response pb m" "rs = map (news_response pb) ms" "news_small pb m"
      "\<forall>n \<in> set ms. news_small pb n" "admissible_stream pb c (m # ms) u" "client_inv u" "\<not> fatal u" "\<not> exited u"
      "c_fd k \<in> open_fds u" by (auto simp: Cons_eq_map_conv)
    from stream_step [OF m(6-8) k m(9,3) _ pk [unfolded m(1), folded news_bytes_def]] m(5) obtain t k' where
      t: "admissible_step pb c m u = Some t" "client_inv t" "\<not> fatal t" "\<not> exited t" "client_store t c = Some k'"
        "c_fd k' \<in> open_fds t" "pending (c_inbuffer k') = rest" by (auto elim!: returnsE)
    have "buf_ok (c_inbuffer k')" using client_invD(6) [OF t(2,5)] by (simp add: conn_ok_def)
    with m t show ?thesis by (auto simp: admissible_step_def)
  qed
  have start: "?I ?rs ?s"
    using d(3,6,8) live put_input_inv [OF inv cl b(1)] by (intro exI [of _ ns]) (simp add: heap_simps)
  have c: "client_store ?s c = Some (cl\<lparr>c_inbuffer := ?b\<rparr>)" by (simp add: heap_simps)
  have ok': "buf_ok (c_inbuffer (cl\<lparr>c_inbuffer := ?b\<rparr>))"
    "pending (c_inbuffer (cl\<lparr>c_inbuffer := ?b\<rparr>)) = concat (map (encodeIMResponseToBytes pb) ?rs) @ p" using b by simp_all
  have "\<exists>t cl'. foldM (serve_message pb (encodeIMResponseToBytes pb) (run_response pb) c) ?rs ?s = Some t \<and> ?I [] t
    \<and> recv_loop pb (parse_response pb) c ?s = recv_loop pb (parse_response pb) c t
    \<and> client_store t c = Some cl' \<and> buf_ok (c_inbuffer cl') \<and> pending (c_inbuffer cl') = p"
    by (rule responses.loop_prefix [where pb = pb and I = ?I and c = c, OF fit step start c ok']) assumption+
  then obtain t cl' where t: "client_inv t" "recv_loop pb (parse_response pb) c ?s = recv_loop pb (parse_response pb) c t"
    "client_store t c = Some cl'" "buf_ok (c_inbuffer cl')" "pending (c_inbuffer cl') = p" by blast
  have "returns (recv_loop pb (parse_response pb) c t) client_inv"
    using d(7)
  proof
    assume "partial_news pb p"
    then have "recv_loop pb (parse_response pb) c t = Some t"
      by (intro responses.loop_partial [OF t(3,4)]) (simp add: t(5) partial_news_def)
    with t(1) show ?thesis by simp
  next
    assume "farewell pb p"
    with farewell_ends [OF t(1,3,4)] t(5) show ?thesis by (auto elim!: returns_mono)
  qed
  with t(2) cl d(1,2) show ?thesis by (simp add: im_receive_command_def Let_def)
qed

end

end
