(* ===== verification/Client_Steps.thy ===== *)
theory Client_Steps
  imports Client_Run
begin

text \<open>
  What the user types, the events of the network thread, and the client as a step relation over both
  threads, with the invariant in every reachable state.
\<close>

section \<open>Typed lines\<close>

text \<open>One prompt of the login: the line, if there is one and it does not start with a NUL.\<close>

definition prompt_answer :: "bytes \<Rightarrow> bytes option" where
  "prompt_answer inp = (case fgets LOGIN_SIZE_LIMIT inp of None \<Rightarrow> None
     | Some (l, rest) \<Rightarrow> if chop l = None then None else Some rest)"

definition login_answered :: "client \<Rightarrow> bool" where
  "login_answered s \<longleftrightarrow> (if loggedInUserName s = None then prompt_answer (cl_stdin s) \<bind> prompt_answer
     else prompt_answer (cl_stdin s)) \<noteq> None"

definition register_answered :: "client \<Rightarrow> bool" where
  "register_answered s \<longleftrightarrow> (case registration (cl_files s) (cl_stdin s) of None \<Rightarrow> False
     | Some (choice, _) \<Rightarrow> (case choice of None \<Rightarrow> True | Some (f, content, cs) \<Rightarrow> 0 < cs))"

definition download_fits :: "bytes \<Rightarrow> bool" where
  "download_fits l \<longleftrightarrow> (case split_word (drop 8 l) of None \<Rightarrow> True
     | Some (u, m) \<Rightarrow> (case scan_s (drop 9 m) of None \<Rightarrow> True | Some (f, _) \<Rightarrow> length f < BUFSIZ))"

text \<open>What the user has to do for a command: answer its questions, and not overrun the array \<open>private\<close>
  scans a file name into.\<close>

definition line_fits :: "client \<Rightarrow> bytes \<Rightarrow> bool" where
  "line_fits s l \<longleftrightarrow> (has_prefix ''login'' l \<longrightarrow> login_answered s) \<and> (has_prefix ''register'' l \<longrightarrow> register_answered s)
     \<and> (has_prefix ''private '' l \<longrightarrow> download_fits l)"

lemma ask_line_inv:
  assumes inv: "client_inv s" and r: "prompt_answer (cl_stdin s) = Some rest"
  shows "returns (ask_line p s) (\<lambda>(w, t). length w < LOGIN_SIZE_LIMIT \<and> client_inv t \<and> keeps_reading s t
    \<and> cl_stdin t = rest \<and> exited t = exited s)"
proof -
  from r obtain l where l: "fgets LOGIN_SIZE_LIMIT (cl_stdin s) = Some (l, rest)" "chop l \<noteq> None"
    by (auto simp: prompt_answer_def split: option.splits if_splits)
  then have w: "chop l = Some (butlast (cstr l))" by (auto simp: chop_def)
  have "length l < LOGIN_SIZE_LIMIT" using l(1) by (auto simp: fgets_def Let_def LOGIN_SIZE_LIMIT_def split: if_splits)
  moreover have "length (cstr l) \<le> length l" by (simp add: cstr_def length_takeWhile_le)
  ultimately have "length (butlast (cstr l)) < LOGIN_SIZE_LIMIT" by simp
  moreover have "client_inv (s\<lparr>cl_stdin := rest\<rparr>)" using inv by (subst client_inv_cong [of _ s]) simp_all
  moreover have "keeps_reading s (print_line p (s\<lparr>cl_stdin := rest\<rparr>))"
    by (rule keeps_reading_trans [OF keeps_reading_same print_keeps]) simp_all
  moreover have "cl_stdin (print_line p (s\<lparr>cl_stdin := rest\<rparr>)) = rest" by (simp add: print_line_def)
  ultimately show ?thesis using l(1) w by (simp add: ask_line_def)
qed

lemma login_inv:
  assumes inv: "client_inv s" and ans: "login_answered s"
  shows "returns (cmd_login_client pb s req) (\<lambda>(q, t). client_inv t \<and> keeps_reading s t \<and> exited t = exited s)"
proof -
  have named: "client_inv (t\<lparr>loggedInUserName := Some w\<rparr>)" if "client_inv t" "length w < LOGIN_SIZE_LIMIT" for t w
    using that by (simp add: client_inv_def local_ok_def table_ok_def links_ok_def server_ok_def server_conn_def conn_ok_def
        db_ok_cong [of "t\<lparr>loggedInUserName := Some w\<rparr>" t])
  have kept: "keeps_reading s (t\<lparr>loggedInUserName := Some w\<rparr>)" if "keeps_reading s t" for t w
    by (rule keeps_reading_trans [OF that keeps_reading_same]) simp_all
  have last: "returns (do { (password, s2) \<leftarrow> ask_line ''Password: '' s1;
      mk_request 1 (encodeLoginRequestToBytes pb \<lparr>lr_username = w, lr_password = password, lr_port = listen_port s2\<rparr>)
        (s2\<lparr>loggedInUserName := Some w\<rparr>) }) (\<lambda>(q, t). client_inv t \<and> keeps_reading s t \<and> exited t = exited s)"
    if s1: "client_inv s1" "keeps_reading s s1" "exited s1 = exited s" "prompt_answer (cl_stdin s1) = Some rest"
      and w: "length w < LOGIN_SIZE_LIMIT" for s1 w rest
    using ask_line_inv [OF s1(1,4), of "''Password: ''"] named [OF _ w] kept [OF keeps_reading_trans [OF s1(2)]] s1(3)
    by (auto simp: mk_request_def elim!: returns_mono)
  show ?thesis
  proof (cases "loggedInUserName s")
    case None
    with ans obtain r1 r2 where r: "prompt_answer (cl_stdin s) = Some r1" "prompt_answer r1 = Some r2"
      by (auto simp: login_answered_def bind_eq_Some_conv)
    from ask_line_inv [OF inv r(1), of "''Username: ''"] obtain w s1 where
      s1: "ask_line ''Username: '' s = Some (w, s1)" "length w < LOGIN_SIZE_LIMIT" "client_inv s1" "keeps_reading s s1"
        "cl_stdin s1 = r1" "exited s1 = exited s" by (auto elim!: returnsE)
    have "prompt_answer (cl_stdin s1) = Some r2" using r(2) s1(5) by simp
    from last [OF s1(3,4,6) this s1(2)] None s1(1) show ?thesis by (simp add: cmd_login_client_def)
  next
    case (Some w)
    with ans obtain r where r: "prompt_answer (cl_stdin s) = Some r" by (auto simp: login_answered_def)
    have w: "length w < LOGIN_SIZE_LIMIT" using client_invD(7) [OF inv] Some by (simp add: local_ok_def)
    from last [OF inv keeps_reading_refl refl r w] Some w show ?thesis by (simp add: cmd_login_client_def)
  qed
qed

lemma base_name_set: "set (base_name p) \<subseteq> set p"
proof -
  have "set (takeWhile P (rev p)) \<subseteq> set (rev p)" for P by (blast dest: set_takeWhileD)
  then show ?thesis by (simp add: base_name_def)
qed

lemma chosen_file_NUL: "chosen_file fs inp = Some (path, content, rest) \<Longrightarrow> NUL \<notin> set path"
proof (induction fs inp rule: chosen_file.induct)
  case (1 fs inp)
  have "NUL \<notin> set (butlast (cstr l))" for l using NUL_notin_cstr [of l] by (blast dest: in_set_butlastD)
  then have "chop l = Some q \<Longrightarrow> NUL \<notin> set q" for l q by (auto simp: chop_def split: if_splits)
  moreover from 1(4) obtain l r q where g: "fgets BUFSIZ inp = Some (l, r)" "chop l = Some q"
    by (auto simp: chosen_file.simps [of fs inp] split: option.splits)
  ultimately have q: "NUL \<notin> set q" by blast
  note here = chosen_file.simps [of fs inp] g
  show ?case
  proof (cases "stat fs q")
    case None
    with 1(1) [of _ l r q] 1(4) show ?thesis by (simp add: here)
  next
    case (Some f)
    with 1(2) [of _ l r q f] 1(3) [of _ l r q f] 1(4) q show ?thesis
      by (cases f) (auto simp: here split: if_splits)
  qed
qed

lemma talked_inv:
  assumes "talked rest s t"
  shows "client_inv t = client_inv s" "keeps_reading s t" "exited t = exited s"
proof -
  from assms obtain ls where t: "t = s\<lparr>cl_stdin := rest, stdout := stdout s @ ls\<rparr>" by (auto simp: talked_def)
  show "client_inv t = client_inv s" by (rule client_inv_cong) (simp_all add: t)
  show "keeps_reading s t" by (rule keeps_reading_same) (simp_all add: t)
  show "exited t = exited s" by (simp add: t)
qed

lemma register_inv:
  assumes inv: "client_inv s" and ans: "register_answered s"
  shows "returns (cmd_regfile_client pb s req) (\<lambda>(q, t). client_inv t \<and> keeps_reading s t \<and> exited t = exited s)"
proof -
  from ans obtain choice rest where c: "registration (cl_files s) (cl_stdin s) = Some (choice, rest)"
    and size: "\<And>f content cs. choice = Some (f, content, cs) \<Longrightarrow> 0 < cs"
    by (auto simp: register_answered_def split: option.splits)
  from regfile_dialogue [OF c, of pb req] obtain t where t: "talked rest s t"
    and run: "cmd_regfile_client pb s req = (case choice of None \<Rightarrow> Some (None, t)
      | Some (f, content, cs) \<Rightarrow> register_chunks pb f content cs (chunk_count (int (length content)) cs) t)" by blast
  note s' = talked_inv [OF t]
  show ?thesis
  proof (cases choice)
    case None
    with run s' inv show ?thesis by simp
  next
    case (Some x)
    obtain f content cs where x: "x = (f, content, cs)" by (cases x)
    have cs: "0 < cs" using size Some x by simp
    have f: "NUL \<notin> set f"
      using c base_name_set chosen_file_NUL unfolding Some x
      by (fastforce simp: registration_def bind_eq_Some_conv split: if_splits)
    have invt: "client_inv t" using s'(1) inv by simp
    then have disk: "tree_ok (cl_files t)" "NUL \<notin> set (datapath t)"
      using client_invD(7) [OF invt] by (simp_all add: local_ok_def)
    define dir where "dir = datapath t @ ''/'' @ f"
    have dir: "NUL \<notin> set dir" using disk(2) f by (simp add: dir_def)
    note go = register_chunks_def [of pb f content cs n t for n, unfolded Let_def, folded dir_def]
    have "returns (register_chunks pb f content cs n t) (\<lambda>(q, u). client_inv u \<and> keeps_reading t u \<and> exited u = exited t)" for n
    proof (cases "mkdir (cl_files t) dir")
      case None
      with invt show ?thesis by (simp add: go)
    next
      case (Some fs)
      note mk = mkdir_ok [OF disk(1) Some]
      from mk(3) [OF dir] obtain p where p: "resolve fs dir = Some p" "fs p = Some Dir" "\<forall>n. fs (p @ [n]) = None" by blast
      from split_loop_returns [OF mk(1) p(1,2) _ dir cs, of "nat n" 0 content] p(3) obtain fs' where
        fs': "split_loop dir cs (nat n) 0 content fs = Some fs'" "tree_ok fs'" by (auto elim!: returnsE)
      have "keeps_reading t (t\<lparr>cl_files := fs'\<rparr>)" by (rule keeps_reading_same) simp_all
      with Some fs' files_inv [OF invt fs'(2)] show ?thesis by (simp add: go mk_request_def)
    qed
    note this [of "chunk_count (int (length content)) cs"]
    then show ?thesis
      unfolding run Some x option.case prod.case using s'(3) keeps_reading_trans [OF s'(2)] by (auto elim!: returnsE)
  qed
qed

lemma private_inv:
  assumes inv: "client_inv s" and fits: "download_fits req"
  shows "returns (cmd_private_client pb s req) (\<lambda>(q, t). client_inv t \<and> keeps_reading s t \<and> exited t = exited s)"
proof (cases "split_word (drop 8 req)")
  case None
  with inv show ?thesis by (simp add: cmd_private_client_def)
next
  case (Some w)
  obtain name m where w: "w = (name, m)" by (cases w)
  note here = cmd_private_client_def Some w
  show ?thesis
  proof (cases "findUser s name")
    case None
    with inv show ?thesis by (simp add: here)
  next
    case u: (Some u)
    from findUser_SomeD [OF client_invD(1) [OF inv] u] obtain x where x: "users s u = Some x" .
    show ?thesis
    proof (cases "u_client x")
      case None
      with inv u x show ?thesis by (simp add: here)
    next
      case c: (Some c)
      from links_okD [OF client_invD(4) [OF inv] x c] obtain cl where cl: "client_store s c = Some cl" .
      have send: "returns (do { s' \<leftarrow> send_response_to_client pb s c r; Some (None, s') })
          (\<lambda>(q, t). client_inv t \<and> keeps_reading s t \<and> exited t = exited s)" for r
        using send_client_inv [OF inv cl, of pb r] send_goes_on [of s pb c r] by (auto elim!: returnsE)
      from u x c fits inv send show ?thesis
        by (auto simp: here download_fits_def Let_def split: option.splits)
    qed
  qed
qed

lemma stopprivate_inv:
  assumes inv: "client_inv s"
  shows "returns (cmd_stopprivate_client pb s req) (\<lambda>(q, t). client_inv t
    \<and> dom (client_store s) \<subseteq> dom (client_store t) \<and> exited t = exited s)"
proof (cases "findUser s (drop 12 req)")
  case None
  with inv show ?thesis by (simp add: cmd_stopprivate_client_def)
next
  case u: (Some u)
  from findUser_SomeD [OF client_invD(1) [OF inv] u] obtain x where x: "users s u = Some x" .
  show ?thesis
  proof (cases "u_client x")
    case None
    with inv u x show ?thesis by (simp add: cmd_stopprivate_client_def)
  next
    case c: (Some c)
    from links_okD [OF client_invD(4) [OF inv] x c] obtain cl where cl: "client_store s c = Some cl" .
    let ?k = "cl\<lparr>c_close_prehook := None\<rparr>"
    have "client_inv (put_client c ?k s)"
      using client_invD(6) [OF inv cl] by (intro put_conn_inv [OF inv cl]) (simp_all add: same_conn_def conn_ok_def)
    from close_client_inv [OF this, of c ?k pb] u x c cl show ?thesis
      by (auto simp: cmd_stopprivate_client_def heap_simps print_line_fields elim!: returns_mono)
  qed
qed

text \<open>Every command of the table.\<close>

lemma whoelsesince_inv:
  assumes "client_inv s"
  shows "returns (cmd_whoelsesince_client pb s req) (\<lambda>(q, t). client_inv t \<and> keeps_reading s t \<and> exited t = exited s)"
  using assms by (simp add: cmd_whoelsesince_client_def mk_request_def Let_def)

lemma searchchunk_inv:
  assumes "client_inv s"
  shows "returns (cmd_searchchunk_client pb s req) (\<lambda>(q, t). client_inv t \<and> keeps_reading s t \<and> exited t = exited s)"
proof (cases "split_word (drop 12 req)")
  case None
  with assms show ?thesis by (simp add: cmd_searchchunk_client_def)
next
  case (Some w)
  obtain f ch where w: "w = (f, ch)" by (cases w)
  from pack_returns [of ch] obtain n bs where "pack_repeated_uint32_from_str ch = Some (n, bs)" by blast
  with Some w assms show ?thesis by (simp add: cmd_searchchunk_client_def mk_request_def)
qed

lemma keeps_reading_dom:
  assumes "keeps_reading s t" and "server_conn s = Some c" and "server_ok s" and "\<not> fatal s"
  shows "c \<in> dom (client_store t)"
  using assms unfolding keeps_reading_def server_ok_def by (metis domI option.inject)

lemma command_inv:
  assumes inv: "client_inv s" and live: "\<not> fatal s" and c: "server_conn s = Some c" and fits: "line_fits s l"
    and cmd: "cmd \<in> set enabled_commands_client" "has_prefix (fst cmd) l"
  shows "returns (snd cmd pb s l) (\<lambda>(q, t). client_inv t \<and> c \<in> dom (client_store t) \<and> exited t = exited s)"
proof -
  have stays: "c \<in> dom (client_store t)" if "keeps_reading s t" for t
    using keeps_reading_dom [OF that c client_invD(5) [OF inv] live] .
  have keep: "returns m (\<lambda>(q, t). client_inv t \<and> c \<in> dom (client_store t) \<and> exited t = exited s)"
    if "returns m (\<lambda>(q, t). client_inv t \<and> keeps_reading s t \<and> exited t = exited s)" for m :: command_result
    using that stays by (auto elim!: returnsE)
  have plain: "returns (mk_request t v s) (\<lambda>(q, t). client_inv t \<and> c \<in> dom (client_store t) \<and> exited t = exited s)" for t v
    using inv stays [OF keeps_reading_refl] by (simp add: mk_request_def)
  have here: "c \<in> dom (client_store s)" using stays [OF keeps_reading_refl] .
  have msg: "returns (cmd_message_client pb s l) (\<lambda>(q, t). client_inv t \<and> c \<in> dom (client_store t) \<and> exited t = exited s)"
    using plain inv here by (auto simp: cmd_message_client_def split: option.split)
  have stop: "returns (cmd_stopprivate_client pb s l) (\<lambda>(q, t). client_inv t \<and> c \<in> dom (client_store t) \<and> exited t = exited s)"
  proof (rule returns_mono [OF stopprivate_inv [OF inv, of pb l]])
    fix r assume "case r of (q, t) \<Rightarrow> client_inv t \<and> dom (client_store s) \<subseteq> dom (client_store t) \<and> exited t = exited s"
    then show "case r of (q, t) \<Rightarrow> client_inv t \<and> c \<in> dom (client_store t) \<and> exited t = exited s"
      using subsetD [OF _ here] by blast
  qed
  have "login_answered s" if "has_prefix ''login'' l" using fits that by (simp add: line_fits_def)
  moreover have "register_answered s" if "has_prefix ''register'' l" using fits that by (simp add: line_fits_def)
  moreover have "download_fits l" if "has_prefix ''private '' l" using fits that by (simp add: line_fits_def)
  ultimately show ?thesis
    using cmd keep [OF login_inv [OF inv]] keep [OF register_inv [OF inv]] keep [OF private_inv [OF inv]]
      keep [OF whoelsesince_inv [OF inv]] keep [OF searchchunk_inv [OF inv]] msg stop
    unfolding enabled_commands_client_def
    by (elim set_ConsD [THEN disjE] disjE)
      (auto simp: plain cmd_block_client_def cmd_unblock_client_def cmd_startprivate_client_def cmd_logout_client_def
        cmd_broadcast_client_def cmd_whoelse_client_def cmd_searchfile_client_def)
qed

lemma parse_command_inv:
  assumes inv: "client_inv s" and live: "\<not> fatal s" and c: "server_conn s = Some c" and fits: "line_fits s l"
  shows "returns (parse_command_client pb s c l) (\<lambda>t. client_inv t \<and> exited t = exited s)"
proof (cases "l = []")
  case True
  with inv show ?thesis by (simp add: parse_command_client_def)
next
  case False
  show ?thesis
  proof (cases "List.find (\<lambda>cmd. has_prefix (fst cmd) l) enabled_commands_client")
    case None
    with False inv show ?thesis by (simp add: parse_command_client_def)
  next
    case (Some cmd)
    then have "cmd \<in> set enabled_commands_client" "has_prefix (fst cmd) l"
      by (auto simp: find_Some_iff)
    from command_inv [OF inv live c fits this, of pb] obtain q t where
      t: "snd cmd pb s l = Some (q, t)" "client_inv t" "c \<in> dom (client_store t)" "exited t = exited s" by (auto elim!: returnsE)
    then obtain k where k: "client_store t c = Some k" by blast
    note ok = client_invD(6) [OF t(2) k, unfolded conn_ok_def]
    show ?thesis
    proof (cases q)
      case None
      with False Some t show ?thesis by (simp add: parse_command_client_def)
    next
      case r: (Some r)
      from append_ok [of "c_outbuffer k" "encodeIMRequestToBytes pb r"] ok obtain ob where
        ob: "send_request pb (c_outbuffer k) r = Some ob" "buf_ok ob" by (auto simp: send_request_def elim!: returnsE)
      from put_output_inv(1) [OF t(2) k ob(2)] False Some t r k ok ob(1) show ?thesis
        by (simp add: parse_command_client_def)
    qed
  qed
qed

section \<open>One step of either thread\<close>

lemma got_command_inv:
  assumes inv: "client_inv s" and live: "\<not> fatal s" and fits: "line_fits s l"
  shows "returns (got_command pb s l) (\<lambda>t. client_inv t \<and> exited t = exited s)"
proof -
  from server_conn_inv [OF inv] obtain c where c: "server_conn s = Some c" by blast
  from parse_command_inv [OF inv live c fits, of pb] obtain t where
    "parse_command_client pb s c l = Some t" "client_inv t" "exited t = exited s" by (auto elim!: returnsE)
  with epoll_do_send_inv [of t] c show ?thesis by (auto simp: got_command_def elim!: returns_mono)
qed

text \<open>A line of the command loop does not start with a NUL.\<close>

definition typing_fits :: "client \<Rightarrow> bool" where
  "typing_fits s \<longleftrightarrow> (case fgets MAX_COMMAND (cl_stdin s) of None \<Rightarrow> True
     | Some (buf, rest) \<Rightarrow> (case chop buf of None \<Rightarrow> False | Some l \<Rightarrow> line_fits (s\<lparr>cl_stdin := rest\<rparr>) l))"

lemma stdin_inv [simp]: "client_inv (s\<lparr>cl_stdin := r\<rparr>) = client_inv s" "client_inv (s\<lparr>loginlock := b\<rparr>) = client_inv s"
  by (rule client_inv_cong; simp)+

lemma input_round_inv:
  assumes inv: "client_inv s" and live: "\<not> fatal s" and fits: "typing_fits s"
  shows "returns (input_round pb s) client_inv"
proof (cases "fgets MAX_COMMAND (cl_stdin s)")
  case None
  with inv show ?thesis by (simp add: input_round_def)
next
  case (Some r)
  obtain buf rest where r: "r = (buf, rest)" by (cases r)
  with fits Some obtain l where l: "chop buf = Some l" "line_fits (s\<lparr>cl_stdin := rest\<rparr>) l"
    by (auto simp: typing_fits_def split: option.splits)
  from got_command_inv [of "s\<lparr>cl_stdin := rest\<rparr>" l pb] inv live l(2) have
    "returns (got_command pb (s\<lparr>cl_stdin := rest\<rparr>) l) client_inv" by (auto elim!: returnsE)
  with Some r l(1) show ?thesis by (simp add: input_round_def)
qed

lemma login_round_inv:
  assumes inv: "client_inv s" and live: "\<not> fatal s" and fits: "lastresponse s \<or> login_answered s"
  shows "returns (login_round pb s) (\<lambda>(go, t). client_inv t)"
proof -
  let ?s = "s\<lparr>loginlock := True\<rparr>"
  have "line_fits ?s ''login''" if "login_answered s"
    using that by (cases "loggedInUserName s") (simp_all add: line_fits_def has_prefix_def login_answered_def)
  with got_command_inv [of ?s "''login''" pb] inv live fits show ?thesis
    by (auto simp: login_round_def Let_def elim!: returnsE)
qed

definition client_event_fits :: "pb_lib \<Rightarrow> client \<Rightarrow> net_event \<Rightarrow> bool" where
  "client_event_fits pb s ev \<longleftrightarrow>
     (\<forall>fd a. ev_accept ev = Some (fd, a) \<longrightarrow> fd \<notin> open_fds s \<and> length (clients s) < MAX_CLIENTS)
     \<and> (\<forall>c cl. client_store s c = Some cl \<longrightarrow> c_fd cl = ev_fd ev \<longrightarrow>
          reading_fits pb s c (ev_recv ev) \<and> send_fits (c_outbuffer cl) (ev_sent ev))"

lemma lookup_client_inv:
  assumes "client_inv s"
  obtains "lookup_client s fd = Some None"
  | i cl where "lookup_client s fd = Some (Some i)" "client_store s (clients s ! i) = Some cl" "c_fd cl = fd"
proof -
  from find_fd_spec [OF equalityD1 [OF table_okD(1) [OF client_invD(3) [OF assms]]], of fd]
  obtain r where "lookup_client s fd = Some r" "case r of None \<Rightarrow> True
    | Some i \<Rightarrow> \<exists>cl. client_store s (clients s ! i) = Some cl \<and> c_fd cl = fd"
    unfolding lookup_client_def by (auto elim!: returnsE split: option.splits)
  with that show thesis by (auto split: option.splits)
qed

context pb_codec
begin

lemma handle_event_inv:
  assumes inv: "client_inv s" and live: "\<not> fatal s" "\<not> exited s" and fits: "client_event_fits pb s ev"
  shows "returns (handle_event_client pb s ev) (\<lambda>(go, out, t). client_inv t)"
proof -
  have accept: "returns (add_client s fd a) (\<lambda>(c, t). client_inv t)" if "ev_accept ev = Some (fd, a)" for fd a
    using add_client_inv [OF inv live(1), of fd a] fits that by (auto simp: client_event_fits_def elim!: returns_mono)
  show ?thesis
  proof (cases rule: lookup_client_inv [OF inv, of "ev_fd ev"])
    case 1
    with inv accept show ?thesis by (auto simp: handle_event_client_def split: option.split elim!: returns_mono)
  next
    case (2 i cl)
    note close = close_client_inv [OF inv 2(2), of pb]
    have recv: "returns (im_receive_command pb (parse_response pb) s (clients s ! i) (ev_recv ev)) client_inv"
      using receive_client_inv [OF inv live 2(2)] fits 2(2,3) by (auto simp: client_event_fits_def)
    have out: "buf_ok (c_outbuffer cl)" "\<not> c_locked cl" using client_invD(6) [OF inv 2(2)] by (simp_all add: conn_ok_def)
    have "send_fits (c_outbuffer cl) (ev_sent ev)" using fits 2(2,3) by (auto simp: client_event_fits_def)
    from im_send_buffer_spec(2) [OF out(1) this]
    have b: "buf_ok (fst (snd (im_send_buffer fd (c_outbuffer cl) (ev_sent ev) e)))" for fd e by (metis prod.collapse)
    have flush: "client_inv ((put_client (clients s ! i)
        (cl\<lparr>c_outbuffer := fst (snd (im_send_buffer fd (c_outbuffer cl) (ev_sent ev) e))\<rparr>) s)\<lparr>epoll := e'\<rparr>)" for fd e e'
      using put_output_inv(1) [OF inv 2(2) b] by simp
    from 2 inv accept close recv out(2) flush show ?thesis
      by (auto simp: handle_event_client_def Let_def split: option.split elim!: returns_mono)
  qed
qed

end

section \<open>Every reachable state\<close>

text \<open>The threads take turns until the program ends; the login loop runs while it can take the
  \<open>loginlock\<close>, and time passes.\<close>

definition running :: "client \<Rightarrow> bool" where
  "running s \<longleftrightarrow> \<not> fatal s \<and> \<not> exited s"

inductive client_step :: "pb_lib \<Rightarrow> client \<Rightarrow> client \<Rightarrow> bool" for pb where
  Client_Event: "running s \<Longrightarrow> client_event_fits pb s ev \<Longrightarrow> handle_event_client pb s ev = Some (go, out, t) \<Longrightarrow> client_step pb s t"
| Client_Line: "running s \<Longrightarrow> typing_fits s \<Longrightarrow> input_round pb s = Some t \<Longrightarrow> client_step pb s t"
| Client_Login: "running s \<Longrightarrow> \<not> loginlock s \<Longrightarrow> lastresponse s \<or> login_answered s \<Longrightarrow> login_round pb s = Some (go, t) \<Longrightarrow>
    client_step pb s t"
| Client_Tick: "running s \<Longrightarrow> now s \<le> t \<Longrightarrow> client_step pb s (s\<lparr>now := t\<rparr>)"

inductive_cases client_stepE: "client_step pb s t"

context pb_codec
begin

lemma client_step_inv: "client_step pb s t \<Longrightarrow> client_inv s \<Longrightarrow> client_inv t"
proof (elim client_stepE)
  fix t' assume "t = s\<lparr>now := t'\<rparr>" "client_inv s"
  then show "client_inv t" using client_inv_cong [of t s] by simp
qed (use handle_event_inv [of s] input_round_inv [of s pb] login_round_inv [of s pb] in
  \<open>auto simp: running_def dest: returns_Some\<close>)

lemma client_steps_inv: "(client_step pb)\<^sup>*\<^sup>* s t \<Longrightarrow> client_inv s \<Longrightarrow> client_inv t"
  by (induction rule: rtranclp_induct) (auto intro: client_step_inv)

end

end
