(* ===== verification/Client_Safe.thy ===== *)
theory Client_Safe
  imports Client_Steps Startup
begin

text \<open>
  What holds in every state of the client from its start on: whatever the server, other clients and the
  user do within the promises of \<open>Client_Steps\<close>, nothing gets stuck and no link dangles.
\<close>

section \<open>The start\<close>

lemma client_start_inv:
  assumes start: "client_start sock addr mfd port dir fs inp conns t = Some s" and fs: "tree_ok fs" and dir: "NUL \<notin> set dir"
  shows "client_inv s"
proof -
  let ?k = "(new_client sock addr)\<lparr>c_close_callback := Some Server_Close_Connection\<rparr>"
  from start have s: "users s = Map.empty" "next_user s = 0" "udb s = newUserDb 0 0" "client_store s = [0 \<mapsto> ?k]"
    "next_client s = 1" "clients s = [0]" "open_fds s = {mfd, sock}" "\<not> is_server s" "loggedInUserName s = None" "datapath s = dir"
    "cl_files s = (case mkdir fs dir of None \<Rightarrow> fs | Some fs' \<Rightarrow> fs')"
    by (auto simp: client_start_def im_connection_accept_def Let_def put_client_def print_line_def simp del: append.simps
        split: option.splits)
  have "db_ok s" by (simp add: db_ok_def s newUserDb_def)
  moreover have "table_ok s" by (simp add: table_ok_def s)
  moreover have "links_ok s" by (simp add: links_ok_def s)
  moreover have "server_ok s" by (simp add: server_ok_def server_conn_def s new_client_def)
  moreover have "conn_ok s k" if "client_store s c = Some k" for c k
    using that by (auto simp: s conn_ok_def new_client_def init_buffer_ok MSG_LIMIT_def OUT_BUFFER_DEFAULT_SIZE_def split: if_splits)
  moreover have "local_ok s" using fs dir mkdir_ok(1) [OF fs] by (simp add: local_ok_def s split: option.split)
  ultimately show ?thesis using s(8) by (simp add: client_inv_def)
qed

lemma client_main_inv:
  assumes "client_main argv cr sr er fs inp conns t = Some (Inr s)" and "tree_ok fs"
  shows "client_inv s" "running s \<longleftrightarrow> \<not> exited s"
proof -
  from assms(1) obtain sock addr mfd port where
    s: "client_start sock addr mfd port (''clientdata.'' @ dec_int t @ ''.'' @ dec_int (cr_pid cr)) fs inp conns t = Some s" "\<not> fatal s"
    by (auto simp: client_main_def Let_def bind_eq_Some_conv split: if_splits option.splits sum.splits)
  have "c \<noteq> NUL" if "c \<in> set (''clientdata.'' @ dec_int t @ ''.'' @ dec_int (cr_pid cr))" for c
    using that dec_int_chars [of c t] dec_int_chars [of c "cr_pid cr"] by auto
  then show "client_inv s" using client_start_inv [OF s(1) assms(2)] by blast
  show "running s \<longleftrightarrow> \<not> exited s" using s(2) by (simp add: running_def)
qed

lemma client_reachable_inv:
  assumes "pb_codec pb" and "client_main argv cr sr er fs inp conns t = Some (Inr s0)" and "tree_ok fs"
    and "(client_step pb)\<^sup>*\<^sup>* s0 s"
  shows "client_inv s"
  using pb_codec.client_steps_inv [OF assms(1,4)] client_main_inv(1) [OF assms(2,3)] by blast

section \<open>Properties\<close>


lemma demo_disk_ok: "tree_ok demo_disk"
  by (simp add: tree_ok_def demo_disk_def)

text \<open>A client that has just started: somebody connects, and the user, who is not logged in yet, leaves.\<close>

definition demo_visitor :: net_event where
  "demo_visitor = \<lparr>ev_fd = 3, ev_err = False, ev_in = True, ev_out = False,
     ev_accept = Some (9, \<lparr>sin_family = 2, sin_port = 80, sin_addr = 1\<rparr>),
     ev_recv = Recv [], ev_sent = Send_Error, ev_sent_user = Send_Error\<rparr>"

lemma demo_client_fits:
  assumes "client_main argv demo_calls sr er fs inp conns t = Some (Inr s)" and "listen_socket sr 0 = Inr k" and "sk_fd k \<noteq> 9"
  shows "client_event_fits pb s demo_visitor"
proof -
  from assms obtain addr port dir where
    "client_start 4 addr (sk_fd k) port dir fs inp conns t = Some s"
    by (auto simp: client_main_def Let_def bind_eq_Some_conv demo_calls_def split: if_splits option.splits sum.splits)
  then have "open_fds s = {sk_fd k, 4}" "clients s = [0]" "client_store s 0 \<noteq> None \<and> c_fd (the (client_store s 0)) = 4"
    "dom (client_store s) = {0}"
    by (auto simp: client_start_def im_connection_accept_def Let_def put_client_def print_line_def new_client_def simp del: append.simps
        split: option.splits if_splits)
  then show ?thesis using assms(3)
    by (auto simp: client_event_fits_def demo_visitor_def reading_fits_def send_fits_def MAX_CLIENTS_def)
qed

lemma demo_started:
  "\<exists>s. client_main [''./client'', ''127.0.0.1'', ''9000''] demo_calls demo_sock demo_epoll demo_disk [] [] 100 = Some (Inr s)
    \<and> running s \<and> typing_fits s \<and> listen_fd s = 3 \<and> client_event_fits wire_pb s demo_visitor
    \<and> clients s = [0] \<and> (\<exists>k. client_store s = [0 \<mapsto> k] \<and> c_fd k = 4) \<and> next_client s = 1 \<and> findUser s ''bob'' = None"
proof -
  obtain s where s: "client_main [''./client'', ''127.0.0.1'', ''9000''] demo_calls demo_sock demo_epoll demo_disk [] [] 100 = Some (Inr s)"
    using demo_client_main by blast
  have k: "listen_socket demo_sock 0 = Inr k \<Longrightarrow> sk_fd k = 3" for k
    by (auto simp: listen_socket_def make_socket_nonblocking_def demo_sock_def Let_def split: if_splits)
  obtain k where "listen_socket demo_sock 0 = Inr k"
    using s by (cases "listen_socket demo_sock 0") (auto simp: client_main_def Let_def demo_calls_def)
  then have "client_event_fits wire_pb s demo_visitor" "listen_socket demo_sock 0 = Inr k \<and> sk_fd k = 3"
    using demo_client_fits [OF s] k by force+
  moreover have "\<not> exited s \<and> cl_stdin s = [] \<and> (\<exists>k. listen_socket demo_sock 0 = Inr k \<and> listen_fd s = sk_fd k)" using s
    by (auto simp: client_main_def client_start_def im_connection_accept_def Let_def put_client_def print_line_def bind_eq_Some_conv
        simp del: append.simps split: if_splits option.splits sum.splits)
  moreover from this have "running s" "typing_fits s"
    using client_main_inv(2) [OF s demo_disk_ok] by (simp_all add: typing_fits_def fgets_def)
  moreover have "clients s = [0]" "\<exists>k. client_store s = [0 \<mapsto> k] \<and> c_fd k = 4" "next_client s = 1" "findUser s ''bob'' = None" using s
    by (auto simp: client_main_def client_start_def im_connection_accept_def Let_def put_client_def print_line_def bind_eq_Some_conv
        demo_calls_def new_client_def findUser_def newUserDb_def newTrieUserNode_def
        simp del: append.simps split: if_splits option.splits sum.splits)
  ultimately show ?thesis using s by auto
qed



section \<open>A visit\<close>

text \<open>The visitor connects, and registers as \<open>bob\<close>.\<close>

lemma demo_visited:
  assumes s: "running s" "listen_fd s = 3" "clients s = [0]" "client_store s = [0 \<mapsto> k]" "c_fd k = 4" "next_client s = 1"
    and fits: "client_event_fits pb s demo_visitor"
  shows "\<exists>t. client_step pb s t \<and> running t \<and> listen_fd t = 3 \<and> clients t = [0, 1] \<and> 9 \<in> open_fds t \<and> udb t = udb s
    \<and> client_store t = [0 \<mapsto> k, 1 \<mapsto> new_client 9 \<lparr>sin_family = 2, sin_port = 80, sin_addr = 1\<rparr>]"
proof -
  obtain t where t: "handle_event_client pb s demo_visitor = Some (True, [], t)" "listen_fd t = 3" "clients t = [0, 1]" "9 \<in> open_fds t"
    "udb t = udb s" "client_store t = [0 \<mapsto> k, 1 \<mapsto> new_client 9 \<lparr>sin_family = 2, sin_port = 80, sin_addr = 1\<rparr>]"
    "exited t = exited s" "fatal t = fatal s"
    using s(2-6) by (auto simp: handle_event_client_def demo_visitor_def add_client_def lookup_client_def im_connection_accept_def
        Let_def MAX_CLIENTS_def)
  then have "running t" using s(1) by (simp add: running_def)
  with Client_Event [OF s(1) fits t(1)] t(2-6) show ?thesis by blast
qed

definition demo_name :: "bool \<times> news" where
  "demo_name = (True, Registration \<lparr>prr_username = ''bob''\<rparr>)"

lemma demo_name_bytes: "news_bytes wire_pb demo_name =
    [CHR 0x08, CHR 0x04, CHR 0x10, CHR 0x01, CHR 0x1A, CHR 0x05, CHR 0x0A, CHR 0x03, CHR ''b'', CHR ''o'', CHR ''b'']"
  by code_simp

lemma demo_name_small: "news_small wire_pb demo_name"
  by (simp add: news_small_def demo_name_def small_short encodePrivateRegistrationResponseToBytes_def
      encodePrivateRegistrationResponseToProtobufMsg_def small_wire)

definition demo_registers :: net_event where
  "demo_registers = \<lparr>ev_fd = 9, ev_err = False, ev_in = True, ev_out = False, ev_accept = None,
     ev_recv = Recv (news_bytes wire_pb demo_name), ev_sent = Send_Error, ev_sent_user = Send_Error\<rparr>"

lemma started_new:
  assumes "findUser s n = None" and "client_store s c = Some cl"
  shows "\<exists>t. private_started s c \<lparr>prr_username = n\<rparr> = Some t
    \<and> users t = (users s)(next_user s \<mapsto> (new_user n [])\<lparr>u_client := Some c\<rparr>) \<and> next_user t = Suc (next_user s)
    \<and> (\<forall>m. findUser t m = (if cstr m = cstr n then Some (next_user s) else findUser s m))
    \<and> client_store t = (client_store s)(c \<mapsto> cl\<lparr>c_user := Some (next_user s), c_close_prehook := Some Pm_Close_Connection\<rparr>)
    \<and> clients t = clients s \<and> next_client t = next_client s \<and> is_server t = is_server s
    \<and> exited t = exited s \<and> fatal t = fatal s"
proof -
  have "findOrAddUser s n = addUser s n []" using assms(1) by (simp add: findOrAddUser_def)
  moreover have "findUser (snd (addUser s n [])) m = (if cstr m = cstr n then Some (next_user s) else findUser s m)" for m
    by (simp add: findUser_addUser)
  ultimately show ?thesis using assms(2)
    by (simp add: private_started_def Let_def addUser_def link_private_def heap_simps findUser_def print_line_def put_client_def
        put_user_def)
qed

lemma demo_registered:
  assumes s: "running s" "listen_fd s = 3" "clients s = [0, 1]" "9 \<in> open_fds s" "c_fd k = 4"
    "client_store s = [0 \<mapsto> k, 1 \<mapsto> new_client 9 a]" and new: "findUser s ''bob'' = None"
  shows "\<exists>t x. client_step wire_pb s t \<and> running t \<and> users t (next_user s) = Some x \<and> u_client x = Some 1"
proof -
  let ?cl = "new_client 9 a" and ?data = "news_bytes wire_pb demo_name" and ?r = "news_response wire_pb demo_name"
  let ?k = "?cl\<lparr>c_inbuffer := recv_store (recv_prepare (c_inbuffer ?cl)) ?data\<rparr>"
  let ?s = "put_client 1 ?k s"
  have cl: "c_inbuffer ?cl = init_buffer MSG_LIMIT" "c_user ?cl = None" "c_fd ?cl = 9" by (simp_all add: new_client_def)
  have room: "length ?data \<le> recv_room (recv_prepare (c_inbuffer ?cl))" by (simp only: cl demo_inbuffer demo_name_bytes) (simp add: MSG_LIMIT_def)
  have k: "client_store ?s 1 = Some ?k" by (simp add: heap_simps)
  have p: "pending (c_inbuffer ?cl) @ ?data = concat (map (news_bytes wire_pb) [demo_name]) @ []" by (simp add: cl init_buffer_ok)
  have part: "partial_news wire_pb []" by (simp add: partial_news_def partial_message_def)
  have adm: "admissible_stream wire_pb 1 [demo_name] ?s"
    using k by (simp add: demo_name_def cl split: option.split)
  have at: "client_store s 1 = Some ?cl" "c_fd ?cl \<in> open_fds s" using s(4,6) cl(3) by simp_all
  have small: "\<forall>n \<in> set [demo_name]. news_small wire_pb n" using demo_name_small by simp
  have "reading_fits wire_pb s 1 (Recv ?data)"
    unfolding reading_fits_def
    by (intro disjI2 exI [of _ ?data] exI [of _ ?cl] exI [of _ "[demo_name]"] exI [of _ "[]"] conjI refl at room p small adm disjI1 part)
  then have fits: "client_event_fits wire_pb s demo_registers"
    using s(5,6) by (auto simp: client_event_fits_def demo_registers_def send_fits_def split: if_splits)
  note prep = recv_prepare_ok(1,2) [OF demo_inbuffer(2), folded cl(1)]
  have b: "buf_ok (c_inbuffer ?k)" "pending (c_inbuffer ?k) = encodeIMResponseToBytes wire_pb ?r @ []"
    using recv_store_ok [OF prep(1), of ?data] room prep(2) by (simp_all add: cl init_buffer_ok news_bytes_def)
  have "findUser (?s\<lparr>lastresponse := True\<rparr>) ''bob'' = None" using new by (simp add: findUser_def heap_simps)
  from started_new [OF this, of 1 ?k] k obtain t where
    t: "private_started (?s\<lparr>lastresponse := True\<rparr>) 1 \<lparr>prr_username = ''bob''\<rparr> = Some t"
      "users t (next_user s) = Some ((new_user ''bob'' [])\<lparr>u_client := Some 1\<rparr>)"
      "client_store t 1 = Some (?k\<lparr>c_user := Some (next_user s), c_close_prehook := Some Pm_Close_Connection\<rparr>)"
      "exited t = exited s" "fatal t = fatal s"
    by (auto simp: heap_simps put_client_def)
  have "parsePrivateRegistrationResponseFromBytes wire_pb (encodePrivateRegistrationResponseToBytes wire_pb \<lparr>prr_username = ''bob''\<rparr>) =
      Some (\<lparr>prr_username = ''bob''\<rparr>, length (encodePrivateRegistrationResponseToBytes wire_pb \<lparr>prr_username = ''bob''\<rparr>))"
    using pb_codec.PrivateRegistrationResponse_roundtrip [OF wire.pb_codec_axioms, of "\<lparr>prr_username = ''bob''\<rparr>"] demo_name_small
    by (simp add: news_small_def demo_name_def)
  with t(1) have case_r: "response_case wire_pb (?s\<lparr>lastresponse := rsp_success ?r\<rparr>) 1 ?r = Some t"
    by (simp add: response_case_def news_response_def demo_name_def)
  then have run: "run_response wire_pb ?s 1 ?r = Some (t, None)" by (simp add: run_response_def)
  let ?t = "put_client 1 (?k\<lparr>c_user := Some (next_user s), c_close_prehook := Some Pm_Close_Connection,
      c_inbuffer := advance_start (length (encodeIMResponseToBytes wire_pb ?r)) (c_inbuffer ?k)\<rparr>) t"
  have served: "serve_message wire_pb (encodeIMResponseToBytes wire_pb) (run_response wire_pb) 1 ?r ?s = Some ?t"
    using run t(3) by (simp add: serve_message_def respond_def)
  have fit: "response_fits ?r" "\<not> exited ?s"
    using pb_codec.news_fits [OF wire.pb_codec_axioms demo_name_small] s(1) by (simp_all add: demo_name_def running_def)
  note adv = advance_rest [OF b]
  have "recv_loop wire_pb (parse_response wire_pb) 1 ?t = Some ?t"
    by (rule message_stream.loop_partial [OF pb_codec.response_stream [OF wire.pb_codec_axioms], where cl = "?k\<lparr>c_user := Some (next_user s), c_close_prehook := Some Pm_Close_Connection,
      c_inbuffer := advance_start (length (encodeIMResponseToBytes wire_pb ?r)) (c_inbuffer ?k)\<rparr>"])
      (use adv in \<open>simp_all add: heap_simps partial_message_def\<close>)
  with message_stream.loop_message [OF pb_codec.response_stream [OF wire.pb_codec_axioms] k b(1) fit b(2), of wire_pb] served
  have "recv_loop wire_pb (parse_response wire_pb) 1 ?s = Some ?t" by simp
  moreover have "lookup_client s 9 = Some (Some 1)" using s(3,5,6) cl(3) by (simp add: lookup_client_def)
  moreover have "?data \<noteq> []" by (simp add: demo_name_bytes)
  ultimately have "handle_event_client wire_pb s demo_registers = Some (False, [], ?t\<lparr>loginlock := False\<rparr>)"
    using s(2,3,6) cl by (simp add: handle_event_client_def demo_registers_def im_receive_command_def Let_def)
  from Client_Event [OF s(1) fits this] have "client_step wire_pb s (?t\<lparr>loginlock := False\<rparr>)" .
  moreover have "running (?t\<lparr>loginlock := False\<rparr>)" using t(4,5) s(1) by (simp add: running_def put_client_def)
  moreover have "users (?t\<lparr>loginlock := False\<rparr>) (next_user s) = Some ((new_user ''bob'' [])\<lparr>u_client := Some 1\<rparr>)"
    using t(2) by (simp add: heap_simps)
  ultimately show ?thesis by force
qed


section \<open>A link that dangles\<close>

text \<open>What the promises exclude: somebody who registers twice on one connection, under two names.  When
  the connection has closed and its descriptor is used again, the first name is linked to memory
  that has been freed, and a message to that name goes there.\<close>

lemma dangling_send:
  assumes "findUser s name = Some u" and "users s u = Some x" and "u_client x = Some c" and "client_store s c = None"
    and "CHR '' '' \<notin> set name" and "take 9 m \<noteq> ''download ''"
  shows "parse_command_client pb s sc (''private '' @ name @ '' '' @ m) = None"
  using assms split_word_word [OF assms(5), of m]
  by (simp add: parse_command_client_def enabled_commands_client_def has_prefix_def cmd_private_client_def
      send_response_to_client_def)

text \<open>Closing the connection takes the link of the second name only.\<close>

lemma closed_under_last_name:
  assumes "client_store s c = Some k" and "\<not> c_locked k" and "c_close_callback k = None"
    and "c_close_prehook k = Some Pm_Close_Connection" and "c_user k = Some u" and "users s u = Some x"
    and "u_client x = Some c" and "\<not> is_server s"
  shows "\<exists>t. close_socket pb s (Some c) = Some t \<and> users t = (users s)(u \<mapsto> x\<lparr>u_client := None\<rparr>) \<and> udb t = udb s
    \<and> client_store t = (client_store s)(c \<mapsto> k\<lparr>c_user := None\<rparr>) \<and> clients t = clients s \<and> next_client t = next_client s"
proof -
  have same: "k\<lparr>c_user := None, c_locked := False\<rparr> = k\<lparr>c_user := None\<rparr>" using assms(2) by (cases k) simp
  from assms show ?thesis
    by (simp add: close_socket_def heap_simps Let_def logoutUser_def print_line_def put_client_def put_user_def) (simp only: same)
qed

lemma second_name_dangles:
  assumes inv: "client_inv s" and cl: "client_store s c = Some cl" "c_close_callback cl = None"
    and new: "findUser s a = None" "findUser s b = None" "cstr a \<noteq> cstr b" and "CHR '' '' \<notin> set a"
  shows "returns (do {
      s1 \<leftarrow> private_started s c \<lparr>prr_username = a\<rparr>;
      s2 \<leftarrow> private_started s1 c \<lparr>prr_username = b\<rparr>;
      s3 \<leftarrow> close_socket pb s2 (Some c);
      add_client s3 (c_fd cl) addr })
    (\<lambda>(d, s4). parse_command_client pb s4 sc (''private '' @ a @ '' '' @ ''hi'') = None)"
proof -
  let ?u = "next_user s" and ?v = "Suc (next_user s)"
  note tab = table_okD [OF client_invD(3) [OF inv]]
  have nl: "\<not> c_locked cl" using client_invD(6) [OF inv cl(1)] by (simp add: conn_ok_def)
  from started_new [OF new(1) cl(1)] obtain s1 where s1: "private_started s c \<lparr>prr_username = a\<rparr> = Some s1"
    "users s1 = (users s)(?u \<mapsto> (new_user a [])\<lparr>u_client := Some c\<rparr>)" "next_user s1 = ?v"
    "\<forall>m. findUser s1 m = (if cstr m = cstr a then Some ?u else findUser s m)"
    "client_store s1 = (client_store s)(c \<mapsto> cl\<lparr>c_user := Some ?u, c_close_prehook := Some Pm_Close_Connection\<rparr>)"
    "clients s1 = clients s" "next_client s1 = next_client s" "is_server s1 = is_server s" by blast
  let ?k = "cl\<lparr>c_user := Some ?v, c_close_prehook := Some Pm_Close_Connection\<rparr>"
  have "findUser s1 b = None" using s1(4) new(2,3) by simp
  from started_new [OF this, of c "cl\<lparr>c_user := Some ?u, c_close_prehook := Some Pm_Close_Connection\<rparr>"] s1 obtain s2 where
    s2: "private_started s1 c \<lparr>prr_username = b\<rparr> = Some s2" "users s2 = (users s1)(?v \<mapsto> (new_user b [])\<lparr>u_client := Some c\<rparr>)"
      "findUser s2 a = Some ?u" "client_store s2 = (client_store s)(c \<mapsto> ?k)" "clients s2 = clients s"
      "next_client s2 = next_client s" "\<not> is_server s2"
    using new(3) client_invD(2) [OF inv] by auto
  have kc: "client_store s2 c = Some ?k" "\<not> c_locked ?k" "c_close_callback ?k = None" using s2(4) nl cl(2) by simp_all
  from closed_under_last_name [OF kc _ _ _ _ s2(7), of ?v "(new_user b [])\<lparr>u_client := Some c\<rparr>" pb] s2(2) obtain s3 where
    s3: "close_socket pb s2 (Some c) = Some s3" "users s3 ?u = Some ((new_user a [])\<lparr>u_client := Some c\<rparr>)" "udb s3 = udb s2"
      "client_store s3 = (client_store s2)(c \<mapsto> ?k\<lparr>c_user := None\<rparr>)" "clients s3 = clients s" "next_client s3 = next_client s"
    using s1(2) s2(5,6) by auto
  have fds: "client_store s3 d = Some l \<Longrightarrow> c_fd l = c_fd cl \<Longrightarrow> d = c" for d l
    using tab(4) [OF cl(1), of d l] s2(4) s3(4) by (auto split: if_splits)
  have dom: "set (clients s3) \<subseteq> dom (client_store s3)" "c \<in> set (clients s3)"
    using tab(1) cl(1) s2(4) s3(4,5) by auto
  obtain r where r: "find_fd s3 (clients s3) (c_fd cl) = Some r" "case r of
      None \<Rightarrow> \<forall>d \<in> set (clients s3). \<forall>l. client_store s3 d = Some l \<longrightarrow> c_fd l \<noteq> c_fd cl
    | Some i \<Rightarrow> i < length (clients s3) \<and> (\<exists>l. client_store s3 (clients s3 ! i) = Some l \<and> c_fd l = c_fd cl)"
    using find_fd_spec [OF dom(1), of "c_fd cl"] by (rule returnsE)
  have c3: "client_store s3 c = Some (?k\<lparr>c_user := None\<rparr>)" using s3(4) by simp
  obtain i where i: "r = Some i" "clients s3 ! i = c"
  proof (cases r)
    case None
    then have "\<forall>d \<in> set (clients s3). \<forall>l. client_store s3 d = Some l \<longrightarrow> c_fd l \<noteq> c_fd cl" using r(2) by simp
    from bspec [OF this dom(2)] c3 have "c_fd (?k\<lparr>c_user := None\<rparr>) \<noteq> c_fd cl" by blast
    then show thesis by simp
  qed (use r(2) fds that in auto)
  have ne: "c \<noteq> next_client s" using tab(3) [of c] cl(1) by auto
  obtain d s4 where s4: "add_client s3 (c_fd cl) addr = Some (d, s4)" "users s4 = users s3" "udb s4 = udb s3" "client_store s4 c = None"
    using r(1) i ne s3(6) by (simp add: add_client_def lookup_client_def im_connection_accept_def free_client_def Let_def)
  have "findUser s4 a = Some ?u" using s2(3) s3(3) s4(3) by (simp add: findUser_def)
  with dangling_send [of s4 a ?u _ c "''hi''" pb sc] s3(2) s4(2,4) assms(7) show ?thesis
    by (simp add: s1(1) s2(1) s3(1) s4(1))
qed

end
