(* ===== verification/Spec2Isabelle.thy ===== *)
theory Spec2Isabelle
  imports Limits Private Chat_Facts Client_Limits Startup Conversation Client_Safe
begin

text \<open>
  A verification development for epoll-chat, an instant messaging server and client over TCP and
  \<open>epoll\<close> with peer-to-peer private messages and file chunks.

  \<^bold>\<open>The program.\<close>  The server (\<open>server.c\<close>) runs two threads.  The network thread waits for
  \<open>epoll\<close> events: it accepts connections, receives requests into the input buffer of a connection
  (\<open>lib/socket.c\<close>), hands every complete protobuf message to \<open>parse_command\<close>
  (\<open>serverlib/command.c\<close>), which finds the handler of its type (\<open>serverlib/commands/\<close>), and flushes
  output buffers.  The time thread logs out whoever has been idle for too long.  Users, passwords,
  blocked lists and presence are in \<open>lib/auth.c\<close>, registered files in \<open>lib/file.c\<close>.  The client
  (\<open>client.c\<close>) reads commands from the terminal (\<open>clientlib/\<close>), talks to the server and, over the
  same \<open>lib/\<close>, to other clients.

  \<^bold>\<open>Theories and code.\<close>
  \<^item> \<open>Prelude\<close>: the option monad's \<open>returns\<close>, C strings, 32-bit \<open>int\<close>, little endian words.
  \<^item> \<open>Buffer\<close>: \<open>lib/buffer.c\<close> and what \<open>lib/socket.c\<close> and \<open>clientlib/command.c\<close> do to buffers.
  The locale \<open>byte_queue\<close> is the contract of an output buffer.
  \<^item> \<open>Protobuf\<close>, \<open>Wire_Format\<close>, \<open>Messages\<close>: the protobuf library is a git submodule that is not in
  the repository.  It is the record \<open>pb_lib\<close>, with its documented behaviour as the locale
  \<open>pb_codec\<close>, which the real wire format satisfies (\<open>Wire_Format.wire\<close>).  \<open>Messages\<close> is
  \<open>proto/*.pb.c\<close>, message by message.
  \<^item> \<open>Index\<close>: the contracts \<open>name_index\<close> and \<open>name_registry\<close> of the two tries.
  \<^item> \<open>State\<close>: \<open>lib/auth.h\<close>, \<open>lib/client.h\<close> and the globals.  Users and connections are in stores
  and name each other by references, so that aliasing, dangling and missing links can be said.
  \<^item> \<open>Auth\<close>: \<open>lib/auth.c\<close>; \<open>File\<close>: \<open>lib/file.c\<close>; \<open>Packed\<close>: the packed chunk lists of \<open>lib/socket.c\<close>.
  \<^item> \<open>Socket\<close>: \<open>lib/response.c\<close> and sending; \<open>Session\<close>: login, logout and closing a connection;
  \<open>Network\<close>: accepting, receiving and flushing.
  \<^item> \<open>Stream\<close>: the locale \<open>message_stream\<close>, the contract between the receive loop and a handler that
  takes complete messages off the buffer: a handler that serves each message of a stream makes the loop
  serve the stream, in order, however it is cut.  \<open>parse_command\<close> (\<open>Dispatch\<close>) and
  \<open>parse_response\<close> (\<open>Conversation\<close>) are its instances.
  \<^item> \<open>Commands\<close>: \<open>serverlib/commands/\<close>; \<open>Server\<close>: \<open>serverlib/command.c\<close> and \<open>server.c\<close>.
  \<^item> \<open>Handlers\<close>: what each handler does, on every branch, and that it keeps the invariant
  \<open>srv_inv\<close>; \<open>Dispatch\<close>: the dispatcher and the receive loop against the requests the client
  encodes; \<open>Events\<close>: events, sweeps, the step relation \<open>server_step\<close> and \<open>reachable\<close>.
  \<^item> \<open>Chat\<close>: the abstract specification of the server, without buffers, descriptors, references between
  records or time: who is on which connection and live, who has blocked whom, all mail ever put on a
  connection or kept for somebody away, and the bytes of it that have left.  \<open>chat_rel\<close> relates it to the
  model: what has been written, or freed with a closed connection, followed by what waits in the buffers, is
  the encoded mail.  \<open>Refine\<close>: every handler, the dispatcher and the response
  do to the chat what \<open>chat_serves\<close> says.  \<open>Chat_Run\<close>: runs of the chat, and what they keep.
  \<open>Refine_Run\<close>: every event, sweep and tick of the clock is a run of the chat, whose events stand
  for the bytes that arrived and the bytes that were written (\<open>stands_for\<close>); the locale \<open>simulation\<close> lifts this to whole runs.
  \<open>Chat_Facts\<close>: what follows for every run of the server.
  \<^item> \<open>Startup\<close>: the two functions \<open>main\<close> up to their threads, with \<open>listen_socket\<close> and
  \<open>make_socket_nonblocking\<close> of \<open>lib/socket.c\<close>; the results of the system calls are arguments.
  \<^item> \<open>Demo\<close>: the concrete server the witnesses run on; \<open>Limits\<close>: where the code does not do what
  it means to.
  \<^item> \<open>Answers\<close>: what the answers of the server tell (who is online, addresses, files and chunks).
  \<^item> \<open>Stdio\<close>: the part of the C library and the operating system the client uses: files as a map from
  paths, lines of the standard input, \<open>scanf\<close> conversions.  \<open>Client\<close>: \<open>clientlib/\<close>, every command and the
  table; \<open>Client_Net\<close>: \<open>client.c\<close>, its responses, threads and start.  \<open>Client_Facts\<close>: typed lines against
  the requests they stand for, splitting a file, downloading a chunk.  \<open>Private\<close>: private sessions
  between two clients.  \<open>Conversation\<close>: what a client prints of the stream it receives, and a message
  from the terminal of one client through the server to the terminal of another.
  \<open>Client_Demo\<close>: the concrete clients of the witnesses.  \<open>Client_Limits\<close>: where the client does not do what it means to.
  \<^item> \<open>Disk\<close>: the file system for any path: nothing is lost, everything is in a directory, splitting a file does
  not fail half way.  \<open>Dialogue\<close>: the questions of \<open>register\<close> against reference definitions that read the
  answers off the input (\<open>answer\<close>, \<open>chosen_file\<close>, \<open>registration\<close>).  \<open>Client_Inv\<close>: the invariant
  \<open>client_inv\<close> of the client and its connections, links and the close of a connection.  \<open>Client_Run\<close>: the
  responses as a datatype, and reading a stream of them.  \<open>Client_Steps\<close>: every command, the two threads, and
  the step relation \<open>client_step\<close>.  \<open>Client_Safe\<close>: what holds from the command line on, and the link
  that dangles when what \<open>admissible_news\<close> excludes happens.

  \<^bold>\<open>Conventions.\<close>  \<open>None\<close> is everything a C program must not do or may never come back from: a
  NULL or dangling pointer, an index outside an array, locking a mutex this thread holds, a loop
  that does not end.  So \<open>returns e P\<close> says that the code comes back and the result satisfies \<open>P\<close>.
  Error returns of the code are values.  \<open>int\<close> arithmetic is reduced by \<open>int32\<close> where it can
  overflow, \<open>uint32_t\<close> is \<open>32 word\<close>, \<open>size_t\<close> is \<open>nat\<close> except where a wrap-around really happens
  (\<open>Buffer.recv_failed\<close>).  What the kernel decides (how many bytes \<open>recv\<close> or \<open>send\<close> moves, which
  descriptor \<open>accept\<close> returns, the time) is an argument of an event.  Loops are structural
  recursion over what they walk, or \<open>partial_function\<close> where they may not end, with termination
  proved (\<open>grow_capacity\<close>, \<open>recv_loop\<close> on admissible input).

  \<^bold>\<open>Invariants.\<close>  \<open>heap_inv L\<close>: users and connections are linked both ways, buffers are well formed,
  blocked lists have no duplicates and not their owner, the mutexes held are exactly \<open>L\<close>.  \<open>srv_inv\<close>
  adds the user trie, the table of connections and the interest set.  \<open>admissible\<close> excludes
  the requests under which the code is known to break (they are listed as findings): a second login on a
  connection that has a user, a login behind a logout on the connection the logout has closed, a login that
  takes over an expired session, \<open>2 ^ 31\<close> chunks or more on a connection.  \<open>input_fits\<close> excludes a \<open>recv\<close>
  that fails and malformed requests, \<open>event_fits\<close> a full table of connections; these are findings too.
  \<open>client_inv\<close> is weaker, because a second private session with the same user takes the link of the first:
  a user who is linked is linked to an open connection that names the user, and the first connection is
  the server's.  \<open>client_event_fits\<close>, \<open>typing_fits\<close> and \<open>login_answered\<close> are what the client needs of the
  kernel, of who is connected to it and of the user: no \<open>recv\<close> that fails, no malformed response, room in the
  table, no second name registered on a connection, no address of less than 16 bytes; no line that starts
  with a NUL, no \<open>download\<close> argument of \<open>BUFSIZ\<close> bytes or more, no chunk size below 1, no question unanswered.
  \<open>clock_ok\<close>, which the refinement needs at every step, says that the present plus the idle time
  fits an \<open>int\<close> and the idle time is positive: otherwise a login would not be live.

  \<^bold>\<open>Bounds and fuel.\<close>  There is no fuel in the model of the program.  The receive loop is a
  \<open>partial_function\<close> whose termination on what clients send is part of
  \<open>stream_served_in_order\<close>; doubling a buffer is one too, and \<open>append_grows_to_fit\<close> shows that it
  ends.  \<open>Wire_Format.read_all\<close> takes the length of its input as fuel, which is enough because every
  field takes at least one byte (\<open>wire_field_nonempty\<close>).  The dialogues of the client (\<open>confirm\<close>,
  \<open>ask_path\<close>) ask for ever when the user never answers, and so does the code; that they end when there is
  an answer is \<open>confirm_answered\<close> and \<open>ask_path_answered\<close>.

  \<^bold>\<open>Not modelled.\<close>  The submodule \<open>achelper\<close> (wire library, logging, memory), as said above; that
  \<open>ac_log(AC_LOG_FATAL, ...)\<close> ends the program is taken from how its callers go on (\<open>Startup\<close>); true
  concurrency: a step of a thread (one event, one sweep, one line) is atomic, and the mutexes matter
  only where one thread takes the same one twice; the functions that only free memory (memory is not
  modelled); that \<open>memcpy\<close> is undefined on the overlapping regions of \<open>reset_buffer_start\<close> (the copy that is
  meant is made, \<open>Buffer\<close>); the address argument of \<open>connect\<close>, of which only the result and the record of
  the address are in the model (\<open>start_private\<close>); log output; failures of memory allocation; permissions, symbolic links and full disks;
  the build files.
\<close>

section \<open>The server as a whole\<close>



text \<open>C4. TCP may cut the byte stream anywhere: when the bytes waiting on a connection, with those
  \<open>recv\<close> just delivered, are some whole requests and the beginning of another, the receive loop
  serves exactly the whole ones, each once and in order, and keeps the rest for the next time.  Each request
  must be admissible in the state in which it is served.\<close>

theorem stream_served_in_order:
  assumes "pb_codec pb" and "srv_inv s" and "client_store s c = Some cl"
    and "data \<noteq> []" and "length data \<le> recv_room (recv_prepare (c_inbuffer cl))"
    and "pending (c_inbuffer cl) @ data = concat (map (request_bytes pb) rs) @ p"
    and "\<forall>r \<in> set rs. request_small pb r" and "partial_request pb p"
    and "admissible_all pb c rs
      (put_client c (cl\<lparr>c_inbuffer := recv_store (recv_prepare (c_inbuffer cl)) data\<rparr>) s)"
  shows "returns (im_receive_command pb (parse_command pb) s c (Recv data)) (\<lambda>t. srv_inv t
    \<and> foldM (serve_one pb c) rs
        (put_client c (cl\<lparr>c_inbuffer := recv_store (recv_prepare (c_inbuffer cl)) data\<rparr>) s) = Some t
    \<and> (\<exists>cl'. client_store t c = Some cl' \<and> pending (c_inbuffer cl') = p))"
  using pb_codec.receive_stream [OF assms(1,2,3,7,4,5,6,8,9)] .

definition demo_block :: request where
  "demo_block = Block \<lparr>br_username = ''bob''\<rparr>"

lemma demo_block_bytes: "request_bytes wire_pb demo_block =
    [CHR 0x08, CHR 0x04, CHR 0x12, CHR 0x05, CHR 0x0A, CHR 0x03, CHR ''b'', CHR ''o'', CHR ''b'']"
  by code_simp

lemma demo_small: "request_small wire_pb demo_block"
  by (simp add: request_small_def demo_block_def small_bytes_def encodeBlockRequestToBytes_def
      encodeBlockRequestToProtobufMsg_def wire_pb_def wire_field_def bytes_field_def varint.simps)

lemma demo_stream:
  "pending (c_inbuffer (demo_client 5 (Some 0))) @ request_bytes wire_pb demo_block @ take 3 (request_bytes wire_pb demo_block)
    = concat (map (request_bytes wire_pb) [demo_block]) @ take 3 (request_bytes wire_pb demo_block)"
  by (simp add: init_buffer_ok)

lemma demo_partial: "partial_request wire_pb (take 3 (request_bytes wire_pb demo_block))"
  unfolding partial_request_def partial_message_def
  by (intro disjI2 exI [of _ demo_block] exI [of _ "drop 3 (request_bytes wire_pb demo_block)"])
    (use demo_small in \<open>simp add: request_small_def demo_block_bytes\<close>)

lemma stream_served_in_order_witness:
  "\<exists>cl data. client_store demo 0 = Some cl
    \<and> data = request_bytes wire_pb demo_block @ take 3 (request_bytes wire_pb demo_block)
    \<and> returns (im_receive_command wire_pb (parse_command wire_pb) demo 0 (Recv data)) (\<lambda>t. srv_inv t
    \<and> foldM (serve_one wire_pb 0) [demo_block]
        (put_client 0 (cl\<lparr>c_inbuffer := recv_store (recv_prepare (c_inbuffer cl)) data\<rparr>) demo) = Some t
    \<and> (\<exists>cl'. client_store t 0 = Some cl'
         \<and> pending (c_inbuffer cl') = take 3 (request_bytes wire_pb demo_block)))"
proof -
  let ?cl = "demo_client 5 (Some 0)"
    and ?data = "request_bytes wire_pb demo_block @ take 3 (request_bytes wire_pb demo_block)"
  have "?data \<noteq> []" "length ?data \<le> recv_room (recv_prepare (c_inbuffer ?cl))"
    by (simp_all add: demo_block_bytes recv_room_def recv_prepare_def Let_def init_buffer_def
        reset_buffer_start_def MSG_LIMIT_def)
  moreover have "client_store demo 0 = Some ?cl" by simp
  moreover have "\<forall>r \<in> set [demo_block]. request_small wire_pb r" using demo_small by simp
  moreover have "admissible_all wire_pb 0 [demo_block] s" for s
    by (simp add: demo_block_def split: option.split)
  ultimately show ?thesis
    using stream_served_in_order [OF wire.pb_codec_axioms demo_inv _ _ _ demo_stream _ demo_partial]
    by blast
qed

text \<open>C8. A request the client encoded, with anything behind it, reaches the handler of its type with
  exactly the fields the client put in; the handler's answer is returned, exactly the bytes of the request
  are consumed, and to what the handler did is added only that the user who is then on the connection in
  a live session, if there is one, was last active now.\<close>

theorem request_dispatched:
  assumes "pb_codec pb" and "request_small pb r"
  shows "parse_command pb s c (request_bytes pb r @ rest) =
      map_option (\<lambda>(t, rsp). (t, length (request_bytes pb r), rsp)) (request_run pb s c r \<bind> refresh c)
    \<and> (\<forall>t n rsp cl u x. parse_command pb s c (request_bytes pb r @ rest) = Some (t, n, rsp) \<longrightarrow>
        client_store t c = Some cl \<longrightarrow> c_user cl = Some u \<longrightarrow> users t u = Some x \<longrightarrow> session_live t x \<longrightarrow>
        u_last_active x = now t)"
proof -
  have run: "parse_command pb s c (request_bytes pb r @ rest) =
      map_option (\<lambda>(t, rsp). (t, length (request_bytes pb r), rsp)) (request_run pb s c r \<bind> refresh c)"
    using pb_codec.parse_command_request [OF assms] by (simp only: serve_def)
  have "u_last_active x = now t"
    if t: "parse_command pb s c (request_bytes pb r @ rest) = Some (t, n, rsp)"
      and x: "client_store t c = Some cl" "c_user cl = Some u" "users t u = Some x" "session_live t x" for t n rsp cl u x
  proof -
    obtain q where "refresh c q = Some (t, rsp)" using t by (auto simp: run bind_eq_Some_conv)
    with x show ?thesis by (auto simp: refresh_def Let_def session_live_def split: option.splits if_splits)
  qed
  with run show ?thesis by blast
qed

lemma request_dispatched_witness:
  "\<exists>t rsp x. parse_command wire_pb (tick 120 demo) 0 (request_bytes wire_pb demo_block @ ''xyz'') =
      Some (t, length (request_bytes wire_pb demo_block), rsp)
    \<and> users t 0 = Some x \<and> u_last_active x = 120 \<and> u_blocked x = [1]"
proof -
  let ?s = "tick 120 demo"
  have i: "int32 150 = 150" by simp
  have me: "logged ?s 0 0 (demo_user ''ann'' ''a1'' (Some 0))"
    by (simp add: logged_def session_live_def tick_def)
  have "findUser ?s ''bob'' = Some 1" using demo_find(2) by (simp add: findUser_def tick_def)
  then obtain rsp where "request_run wire_pb ?s 0 demo_block = Some (rsp, put_user 0 ((demo_user ''ann'' ''a1'' (Some 0))\<lparr>u_blocked := [1]\<rparr>) ?s)"
    using cmd_block_spec [OF tick_inv [OF demo_inv] me, where req = "\<lparr>br_username = ''bob''\<rparr>" and pb = wire_pb]
    by (auto simp: demo_block_def block_answer_def text_reply_def simp del: One_nat_def)
  moreover have "client_store ?s 0 = Some (demo_client 5 (Some 0))" "now ?s = 120" "login_timeout (udb ?s) = 50" by (simp_all add: tick_def)
  ultimately show ?thesis
    using request_dispatched [OF wire.pb_codec_axioms demo_small, of ?s 0 "''xyz''"]
    by (auto simp: refresh_def Let_def heap_simps session_live_def)
qed

text \<open>Less than a whole request changes nothing, answers nothing and consumes nothing.\<close>

theorem partial_request_waits:
  assumes "pb_codec pb" and "partial_request pb p" and "client_store s c = Some cl"
    and "buf_ok (c_inbuffer cl)" and "pending (c_inbuffer cl) = p"
  shows "recv_loop pb (parse_command pb) c s = Some s"
  using message_stream.loop_partial [OF pb_codec.request_stream [OF assms(1)] assms(3,4)] assms(2,5)
  by (simp add: partial_request_def)

lemma demo_room:
  "buf_ok (init_buffer MSG_LIMIT)" "recv_room (init_buffer MSG_LIMIT) = 32768" "pending (init_buffer MSG_LIMIT) = []"
  by (simp_all add: init_buffer_ok MSG_LIMIT_def) (simp add: recv_room_def init_buffer_def)

lemma partial_request_waits_witness:
  "recv_loop wire_pb (parse_command wire_pb) 0
     (put_client 0 ((demo_client 5 (Some 0))\<lparr>c_inbuffer :=
        recv_store (init_buffer MSG_LIMIT) [CHR 0x08, CHR 0x04, CHR 0x12]\<rparr>) demo)
   = Some (put_client 0 ((demo_client 5 (Some 0))\<lparr>c_inbuffer :=
        recv_store (init_buffer MSG_LIMIT) [CHR 0x08, CHR 0x04, CHR 0x12]\<rparr>) demo)"
proof -
  let ?b = "recv_store (init_buffer MSG_LIMIT) [CHR 0x08, CHR 0x04, CHR 0x12]"
  let ?s = "put_client 0 ((demo_client 5 (Some 0))\<lparr>c_inbuffer := ?b\<rparr>) demo"
  have b: "buf_ok ?b" "pending ?b = take 3 (request_bytes wire_pb demo_block)"
    using recv_store_ok [OF demo_room(1), of "[CHR 0x08, CHR 0x04, CHR 0x12]"] demo_room
    by (simp_all add: demo_block_bytes)
  have "client_store ?s 0 = Some ((demo_client 5 (Some 0))\<lparr>c_inbuffer := ?b\<rparr>)" by (simp add: heap_simps)
  from partial_request_waits [OF wire.pb_codec_axioms demo_partial this] b show ?thesis by simp
qed

section \<open>Sessions and messages\<close>

text \<open>C9. A login with the right password for an account that is not locked, on a free, open connection for a
  free user, links the two, greets
  the user, clears the failed attempts, records the port the client listens on, and tells exactly the
  online users the newcomer has not blocked.\<close>

theorem login_accepted_notifies:
  assumes "srv_inv s" and "findUser s (lr_username req) = Some u" and "users s u = Some x"
    and "\<not> now s < u_last_blocked x" and "u_password x = cstr (lr_password req)" and "u_client x = None"
    and "client_store s c = Some cl" and "c_user cl = None" and "c_fd cl \<in> open_fds s"
  shows "returns (cmd_login_impl pb s c req) (\<lambda>(rsp, t). rsp = Some (welcome_reply pb x) \<and> srv_inv t
    \<and> client_store t c = Some (cl\<lparr>c_user := Some u,
         c_addr := (c_addr cl)\<lparr>sin_port := htons (ucast (lr_port req))\<rparr>\<rparr>)
    \<and> users t u = Some (x\<lparr>u_attempts := 0, u_last_logged_in := now s, u_last_active := now s, u_client := Some c\<rparr>)
    \<and> (\<forall>v. v \<noteq> u \<longrightarrow> outbox t v =
         (if hears s u v then outbox s v @ login_notice pb (lr_username req) else outbox s v)))"
  using cmd_login_accepted [OF assms, of pb] by (auto simp: after_login_def elim!: returns_mono)

lemma login_accepted_notifies_witness:
  "returns (cmd_login_impl wire_pb demo 2 \<lparr>lr_username = ''cyd'', lr_password = ''c1'', lr_port = 9000\<rparr>) (\<lambda>(rsp, t).
    srv_inv t \<and> outbox t 0 = outbox demo 0 @ login_notice wire_pb ''cyd'')"
  using login_accepted_notifies [OF demo_inv, where pb = wire_pb and c = 2 and u = 2
      and x = "new_user ''cyd'' ''c1''" and cl = "demo_client 7 None"
      and req = "\<lparr>lr_username = ''cyd'', lr_password = ''c1'', lr_port = 9000\<rparr>"]
  by (auto simp: demo_find hears_def elim!: returns_mono)

lemma put_user_reads:
  "users (put_user u y s) u = Some y" "put_user u z (put_user u y s) = put_user u z s"
    "findUser (put_user u y s) name = findUser s name"
  by (simp_all add: put_user_def findUser_def)

text \<open>C10. The third wrong password in a row locks the account for \<open>block_duration\<close> seconds: until then
  every password, the right one too, is refused; afterwards the right one is looked at again.\<close>

theorem wrong_passwords_lock_account:
  assumes "srv_inv s" and "findUser s name = Some u" and "users s u = Some x" and "u_attempts x = 0"
    and "\<not> now s < u_last_blocked x" and "u_password x \<notin> {cstr pw1, cstr pw2, cstr pw3}"
    and "fits_int32 (now s + block_duration (udb s))" and "u_password x = cstr pw"
  shows "\<exists>s1 s2 s3. login pb s name pw1 = Some (3, Some u, s1) \<and> login pb s1 name pw2 = Some (3, Some u, s2)
    \<and> login pb s2 name pw3 = Some (2, Some u, s3)
    \<and> (\<forall>t p. t < now s + block_duration (udb s) \<longrightarrow>
         login pb (s3\<lparr>now := t\<rparr>) name p = Some (2, Some u, s3\<lparr>now := t\<rparr>))
    \<and> (\<forall>t. now s + block_duration (udb s) \<le> t \<longrightarrow>
         returns (login pb (s3\<lparr>now := t\<rparr>) name pw) (\<lambda>(code, _, _). code = 0 \<or> code = 4))"
proof -
  note rec = put_user_reads
  have i: "int32 1 = 1" "int32 2 = 2" "int32 3 = 3" by (simp_all add: int32_id fits_int32_def)
  let ?x1 = "x\<lparr>u_attempts := 1\<rparr>" and ?x2 = "x\<lparr>u_attempts := 2\<rparr>"
    and ?x3 = "x\<lparr>u_last_blocked := now s + block_duration (udb s), u_attempts := 0\<rparr>"
  let ?s3 = "put_user u ?x3 s"
  have l1: "login pb s name pw1 = Some (3, Some u, put_user u ?x1 s)"
    using login_eq(2) [OF assms(2,3,5), of pw1 pb] assms(4,6) by (simp add: after_wrong_def i)
  have l2: "login pb (put_user u ?x1 s) name pw2 = Some (3, Some u, put_user u ?x2 s)"
    using login_eq(2) [of "put_user u ?x1 s" name u ?x1 pw2 pb] assms(2,5,6)
    by (simp add: after_wrong_def i heap_simps rec)
  have l3: "login pb (put_user u ?x2 s) name pw3 = Some (2, Some u, ?s3)"
    using login_eq(2) [of "put_user u ?x2 s" name u ?x2 pw3 pb] assms(2,5,6) int32_id [OF assms(7)]
    by (simp add: after_wrong_def i heap_simps rec)
  have f: "findUser (?s3\<lparr>now := t\<rparr>) name = Some u" "users (?s3\<lparr>now := t\<rparr>) u = Some ?x3" for t
    using assms(2) by (simp_all add: findUser_def heap_simps)
  have "user_ok s u ?x3"
    using heap_invD(2) [OF srv_invD(1) [OF assms(1)] assms(3)] by (simp add: user_ok_def)
  from put_user_inv [OF srv_invD(1) [OF assms(1)] assms(3) this]
  have inv: "heap_inv {} (?s3\<lparr>now := t\<rparr>)" for t
    using heap_inv_cong [of "?s3\<lparr>now := t\<rparr>" ?s3 "{}"] by simp
  have "returns (login pb (?s3\<lparr>now := t\<rparr>) name pw) (\<lambda>(code, _, _). code = 0 \<or> code = 4)"
    if "now s + block_duration (udb s) \<le> t" for t
    using login_spec [OF inv [of t], of pb name pw] f [of t] that assms(8)
    by (auto elim!: returns_mono split: if_splits)
  moreover have "login pb (?s3\<lparr>now := t\<rparr>) name p = Some (2, Some u, ?s3\<lparr>now := t\<rparr>)"
    if "t < now s + block_duration (udb s)" for t p
    using login_eq(1) [OF f [of t]] that by simp
  ultimately show ?thesis using l1 l2 l3 by blast
qed

lemma wrong_passwords_lock_account_witness:
  "\<exists>s1 s2 s3. login wire_pb demo ''cyd'' ''x'' = Some (3, Some 2, s1) \<and> login wire_pb s1 ''cyd'' ''y'' = Some (3, Some 2, s2)
    \<and> login wire_pb s2 ''cyd'' ''z'' = Some (2, Some 2, s3)
    \<and> (\<forall>t p. t < 160 \<longrightarrow> login wire_pb (s3\<lparr>now := t\<rparr>) ''cyd'' p = Some (2, Some 2, s3\<lparr>now := t\<rparr>))"
proof -
  have "fits_int32 (now demo + block_duration (udb demo))" by (simp add: fits_int32_def)
  from wrong_passwords_lock_account [OF demo_inv demo_find(3), of "new_user ''cyd'' ''c1''" "''x''" "''y''" "''z''" "''c1''" wire_pb,
      OF _ _ _ _ this]
  obtain s1 s2 s3 where "login wire_pb demo ''cyd'' ''x'' = Some (3, Some 2, s1)"
    "login wire_pb s1 ''cyd'' ''y'' = Some (3, Some 2, s2)" "login wire_pb s2 ''cyd'' ''z'' = Some (2, Some 2, s3)"
    "\<forall>t p. t < 160 \<longrightarrow> login wire_pb (s3\<lparr>now := t\<rparr>) ''cyd'' p = Some (2, Some 2, s3\<lparr>now := t\<rparr>)"
    by (auto simp: cstr_def)
  then show ?thesis by blast
qed

text \<open>C11. A message to one user: if that user has blocked the sender it is refused and nothing
  changes; otherwise exactly the encoded line \<open>sender: text\<close> is appended to what waits for that user (on
  the connection of a live session, or kept for the next login), and no other outbox changes.\<close>

theorem direct_message_delivered:
  assumes "srv_inv s" and "logged s c me x" and "\<not> mr_broadcast req"
    and "findUser s (mr_username req) = Some u" and "users s u = Some y"
  shows "if me \<in> set (u_blocked y)
    then cmd_message_impl pb s c req = text_reply pb
      ''Your message couldn't be delivered because the recipient has blocked you'' False s
    else returns (cmd_message_impl pb s c req) (\<lambda>(rsp, t). rsp = None \<and> srv_inv t
      \<and> (\<forall>v. outbox t v = (if v = u then outbox s v @ message_bytes pb x (mr_msg req) else outbox s v)))"
  using cmd_message_direct(2,3) [OF assms, where pb = pb]
  by (auto simp: sent_user_def elim!: returns_mono)

lemma direct_message_delivered_witness:
  "returns (cmd_message_impl wire_pb demo 0 \<lparr>mr_broadcast = False, mr_username = ''cyd'', mr_msg = ''hi''\<rparr>)
    (\<lambda>(rsp, t). rsp = None \<and> outbox t 2 = outbox demo 2 @ message_bytes wire_pb (demo_user ''ann'' ''a1'' (Some 0)) ''hi''
      \<and> outbox t 1 = outbox demo 1)"
  using direct_message_delivered [OF demo_inv demo_logged(1), where pb = wire_pb and u = 2
      and y = "new_user ''cyd'' ''c1''" and req = "\<lparr>mr_broadcast = False, mr_username = ''cyd'', mr_msg = ''hi''\<rparr>"]
  by (auto simp: demo_find elim!: returns_mono)

text \<open>C12. A broadcast goes to exactly the other online users who have not blocked the sender; the
  sender is told when somebody was left out.\<close>

theorem broadcast_delivered:
  assumes "srv_inv s" and "logged s c me x" and "mr_broadcast req"
  shows "returns (cmd_message_impl pb s c req) (\<lambda>(rsp, t). srv_inv t
    \<and> rsp = (if \<exists>v. refuses_broadcast s me v then
         Some (encodeTextResponseToIMResponseAndFree pb
           \<lparr>txt_msg = ''Your message could not be delivered to some of the recipients.''\<rparr> False) else None)
    \<and> (\<forall>v. outbox t v = (if gets_broadcast s me v
         then outbox s v @ message_bytes pb x (mr_msg req) else outbox s v)))"
  using cmd_message_broadcast [OF assms, of pb] by (auto simp: told_def elim!: returns_mono)

lemma broadcast_delivered_witness:
  "returns (cmd_message_impl wire_pb demo 0 \<lparr>mr_broadcast = True, mr_username = [], mr_msg = ''hi''\<rparr>)
    (\<lambda>(rsp, t). outbox t 1 = outbox demo 1 @ message_bytes wire_pb (demo_user ''ann'' ''a1'' (Some 0)) ''hi''
      \<and> outbox t 2 = outbox demo 2)"
  using broadcast_delivered [OF demo_inv demo_logged(1), where pb = wire_pb
      and req = "\<lparr>mr_broadcast = True, mr_username = [], mr_msg = ''hi''\<rparr>"]
  by (auto simp: gets_broadcast_def elim!: returns_mono)

text \<open>Once a user has asked to block another, no message of the blocked one, direct or broadcast,
  ever reaches the outbox of the one who blocked.\<close>

theorem blocked_sender_silenced:
  assumes "srv_inv s" and "logged s c b x" and "findUser s (br_username bq) = Some a" and "a \<noteq> b"
    and "cmd_block_impl pb s c bq = Some (rsp, t)" and "logged t d a y"
  shows "returns (cmd_message_impl pb t d req) (\<lambda>(_, t'). outbox t' b = outbox t b)"
proof -
  let ?r = "block_answer (cstr (br_username bq)) (findUser s (br_username bq)) b (u_blocked x)"
  obtain m ok bl where r: "?r = (m, ok, bl)" by (metis prod_cases3)
  then have "a \<in> set bl" using assms(3,4) by (auto simp: block_answer_def split: if_splits)
  moreover have "cmd_block_impl pb s c bq = text_reply pb m ok (put_user b (x\<lparr>u_blocked := bl\<rparr>) s)
      \<and> srv_inv (put_user b (x\<lparr>u_blocked := bl\<rparr>) s)"
    using cmd_block_spec [OF assms(1,2), where req = bq and pb = pb] r by simp
  ultimately have t: "t = put_user b (x\<lparr>u_blocked := bl\<rparr>) s" "srv_inv t" "a \<in> set bl"
    using assms(5) by (auto simp: text_reply_def)
  then have b: "users t b = Some (x\<lparr>u_blocked := bl\<rparr>)" by (simp add: heap_simps)
  show ?thesis
  proof (cases "mr_broadcast req")
    case True
    have "\<not> gets_broadcast t a b" using b t(3) by (simp add: gets_broadcast_def)
    with cmd_message_broadcast [OF t(2) assms(6) True, of pb] show ?thesis by (auto simp: told_def elim!: returns_mono)
  next
    case False
    note direct = cmd_message_direct [OF t(2) assms(6) False, where pb = pb]
    show ?thesis
    proof (cases "findUser t (mr_username req)")
      case None
      with direct(1) show ?thesis by (simp add: text_reply_def)
    next
      case (Some u)
      from findUser_SomeD [OF srv_invD(5) [OF t(2)] this] obtain z where z: "users t u = Some z" by blast
      show ?thesis
      proof (cases "a \<in> set (u_blocked z)")
        case True
        with direct(2) [OF Some z] show ?thesis by (simp add: text_reply_def)
      next
        case nb: False
        with b z t(3) have "u \<noteq> b" by auto
        with direct(3) [OF Some z nb] show ?thesis by (auto simp: sent_user_def elim!: returns_mono)
      qed
    qed
  qed
qed

lemma blocked_sender_silenced_witness:
  "\<exists>rsp t. cmd_block_impl wire_pb demo 1 \<lparr>br_username = ''ann''\<rparr> = Some (rsp, t)
    \<and> returns (cmd_message_impl wire_pb t 0 \<lparr>mr_broadcast = False, mr_username = ''bob'', mr_msg = ''hi''\<rparr>)
        (\<lambda>(_, t'). outbox t' 1 = outbox t 1)"
proof -
  let ?x = "(demo_user ''bob'' ''b1'' (Some 1))\<lparr>u_blocked := [0]\<rparr>"
  let ?t = "put_user 1 ?x demo"
  have run: "cmd_block_impl wire_pb demo 1 \<lparr>br_username = ''ann''\<rparr> =
      Some (Some (encodeTextResponseToIMResponseAndFree wire_pb \<lparr>txt_msg = ''ann is blocked''\<rparr> True), ?t)"
    using cmd_block_spec [OF demo_inv demo_logged(2), where req = "\<lparr>br_username = ''ann''\<rparr>" and pb = wire_pb]
    by (simp add: demo_find block_answer_def text_reply_def)
  have "logged ?t 0 0 (demo_user ''ann'' ''a1'' (Some 0))"
    by (auto simp: logged_def heap_simps session_live_def)
  from blocked_sender_silenced [OF demo_inv demo_logged(2) _ _ run this] run show ?thesis
    by (auto simp: demo_find)
qed

text \<open>C13. Logging out closes the connection: both links are cut, the descriptor is closed and out of
  the interest set, and exactly the online users the leaver has not blocked are told.\<close>

theorem logout_unlinks_and_notifies:
  assumes "srv_inv s" and "logged s c me x"
  shows "returns (cmd_logout_impl pb s c req) (\<lambda>(rsp, t). rsp = None \<and> srv_inv t \<and> closed_from c s t
    \<and> (\<exists>y. users t me = Some y \<and> u_client y = None)
    \<and> (\<forall>v. v \<noteq> me \<longrightarrow> outbox t v = (if hears s me v then outbox s v @ logout_notice pb x else outbox s v)))"
  using cmd_logout_spec [OF assms, of pb req] by (auto elim!: returns_mono)

lemma logout_unlinks_and_notifies_witness:
  "returns (cmd_logout_impl wire_pb demo 0 ()) (\<lambda>(rsp, t). 5 \<notin> open_fds t \<and> epoll t 5 = None
    \<and> outbox t 1 = outbox demo 1 @ logout_notice wire_pb (demo_user ''ann'' ''a1'' (Some 0))
    \<and> outbox t 2 = outbox demo 2)"
  using logout_unlinks_and_notifies [OF demo_inv demo_logged(1), of wire_pb "()"]
  by (auto simp: hears_def closed_from_def elim!: returns_mono)

text \<open>C14. The sweep of the time thread cuts exactly the sessions whose time is up, and tells each of
  these connections so; the records of all other users stay as they were.\<close>

theorem sweep_logs_out_expired:
  assumes "srv_inv s"
  shows "returns (time_thread_round pb s) (\<lambda>t. srv_inv t
    \<and> (\<forall>u x. users s u = Some x \<longrightarrow> users t u = Some (if expired s x then x\<lparr>u_client := None\<rparr> else x))
    \<and> (\<forall>c. expired_on s c \<longrightarrow> cout t c = cout s c @ idle_bytes pb)
    \<and> (\<forall>u x. users t u = Some x \<longrightarrow> \<not> expired t x))"
  using time_round_spec [OF assms, of pb]
proof (rule returns_mono)
  fix t assume t: "srv_inv t \<and> net_frame s t \<and> open_fds t = open_fds s
    \<and> (\<forall>v. users t v = map_option (swept s UNIV) (users s v))
    \<and> (\<forall>c. expired_on s c \<longrightarrow> cout t c = cout s c @ idle_bytes pb)"
  have sw: "swept s UNIV x = (if expired s x then x\<lparr>u_client := None\<rparr> else x)" for x
    by (auto simp: swept_def expired_def)
  have live: "session_live t x = session_live s x" for x
    using t by (simp add: net_frame_def session_live_def)
  have "\<not> expired t x" if x: "users t u = Some x" for u x
  proof -
    from t x obtain z where "x = swept s UNIV z" by auto
    then show ?thesis by (cases "expired s z") (auto simp: sw expired_def live)
  qed
  with t show "srv_inv t
    \<and> (\<forall>u x. users s u = Some x \<longrightarrow> users t u = Some (if expired s x then x\<lparr>u_client := None\<rparr> else x))
    \<and> (\<forall>c. expired_on s c \<longrightarrow> cout t c = cout s c @ idle_bytes pb)
    \<and> (\<forall>u x. users t u = Some x \<longrightarrow> \<not> expired t x)" by (auto simp: sw)
qed

lemma sweep_logs_out_expired_witness:
  "returns (time_thread_round wire_pb (tick 150 demo)) (\<lambda>t. cout t 0 = cout (tick 150 demo) 0 @ idle_bytes wire_pb
    \<and> users t 1 = Some ((demo_user ''bob'' ''b1'' (Some 1))\<lparr>u_client := None\<rparr>))"
proof -
  have e: "expired (tick 150 demo) (demo_user n p (Some c))" for n p c
    by (simp add: expired_def session_live_def tick_def)
  then have "expired_on (tick 150 demo) 0" by (auto simp: expired_on_def tick_def)
  moreover have "users (tick 150 demo) 1 = Some (demo_user ''bob'' ''b1'' (Some 1))" by (simp add: tick_def)
  ultimately show ?thesis
    using sweep_logs_out_expired [OF tick_inv [OF demo_inv], of wire_pb 150] e
    by (elim returns_mono) (simp del: One_nat_def)
qed

text \<open>C15. Without a live session only a login is looked at: every other request is refused and
  changes nothing.\<close>

theorem unauthenticated_refused:
  assumes "srv_inv s" and "client_store s c = Some cl" and "\<nexists>me x. logged s c me x" and "\<nexists>q. r = Login q"
  shows "request_run pb s c r = text_reply pb ''You are not logged in'' False s"
  using assms by (rule request_run_unlogged)

lemma unauthenticated_refused_witness:
  "request_run wire_pb demo 2 demo_block = text_reply wire_pb ''You are not logged in'' False demo"
  by (rule unauthenticated_refused [OF demo_inv]) (auto simp: logged_def demo_block_def)

text \<open>Sending to a user appends to that user's outbox and leaves every other outbox, and everything
  that is not an output buffer, as it was.\<close>

theorem send_changes_one_outbox:
  assumes "srv_inv s" and "users s u = Some x"
  shows "returns (send_response_to_user pb s u msg) (\<lambda>t. srv_inv t \<and> buffers_only s t
    \<and> (\<forall>v. outbox t v = (if v = u then outbox s v @ encodeIMResponseToBytes pb msg else outbox s v)))"
  using send_response_to_user_spec [OF srv_invD(1) [OF assms(1)] assms(2), of pb msg]
  by (auto simp: sent_user_def intro: srv_inv_buffers [OF assms(1)] elim!: returns_mono)

lemma send_changes_one_outbox_witness:
  "returns (send_response_to_user wire_pb demo 2 (idle_response wire_pb)) (\<lambda>t.
    outbox t 2 = outbox demo 2 @ idle_bytes wire_pb \<and> outbox t 0 = outbox demo 0)"
  using send_changes_one_outbox [OF demo_inv, where u = 2 and x = "new_user ''cyd'' ''c1''" and pb = wire_pb
      and msg = "idle_response wire_pb"]
  by (auto simp: idle_bytes_def elim!: returns_mono)

text \<open>C20. The output branch of the event loop writes a prefix of the connection's pending bytes and
  then a prefix of those kept for its user, and drops nothing.\<close>

theorem flush_loses_nothing:
  assumes "srv_inv s" and "client_store s c = Some cl" and "flush_fits s c r1 r2"
  shows "returns (flush_client s c r1 r2) (\<lambda>(out, t). srv_inv t \<and> buffers_only s t
    \<and> (\<exists>o1 o2. out = o1 @ o2 \<and> o1 @ cout t c = cout s c \<and> o2 @ kept t c = kept s c))"
  using flush_client_spec [OF assms] by (auto elim!: returns_mono)

lemma flush_loses_nothing_witness:
  "returns (flush_client demo 0 (Sent 0) Send_Error) (\<lambda>(out, t). out = [] \<and> cout t 0 = cout demo 0)"
  using flush_loses_nothing [OF demo_inv, where c = 0 and cl = "demo_client 5 (Some 0)" and ?r1.0 = "Sent 0"
      and ?r2.0 = Send_Error]
  by (auto simp: flush_fits_def send_fits_def cout_def kept_def init_buffer_ok elim!: returns_mono)

text \<open>Blocking a user and unblocking the same user restores the state exactly.\<close>

lemma block_unblock_restores:
  assumes "srv_inv s" and "logged s c me x" and "findUser s name = Some v" and "v \<noteq> me"
    and "v \<notin> set (u_blocked x)"
  shows "\<exists>r1 r2 t. cmd_block_impl pb s c \<lparr>br_username = name\<rparr> = Some (r1, t)
    \<and> cmd_unblock_impl pb t c \<lparr>ubr_username = name\<rparr> = Some (r2, s)"
proof -
  let ?x = "x\<lparr>u_blocked := v # u_blocked x\<rparr>"
  let ?t = "put_user me ?x s"
  have block: "\<exists>r. cmd_block_impl pb s c \<lparr>br_username = name\<rparr> = Some (r, ?t)" and inv: "srv_inv ?t"
    using cmd_block_spec [OF assms(1,2), where req = "\<lparr>br_username = name\<rparr>" and pb = pb] assms(3-5)
    by (simp_all add: block_answer_def text_reply_def)
  have "logged ?t c me ?x" using assms(2) by (auto simp: logged_def heap_simps session_live_def)
  from cmd_unblock_spec [OF inv this, where req = "\<lparr>ubr_username = name\<rparr>" and pb = pb]
  have "\<exists>r. cmd_unblock_impl pb ?t c \<lparr>ubr_username = name\<rparr> = Some (r, put_user me (?x\<lparr>u_blocked := u_blocked x\<rparr>) ?t)"
    using assms(3,4) by (simp add: unblock_answer_def text_reply_def put_user_reads)
  moreover have "put_user me (?x\<lparr>u_blocked := u_blocked x\<rparr>) ?t = s"
    using logged_user(1) [OF assms(1,2)] by (simp add: put_user_reads put_user_self)
  ultimately show ?thesis using block by metis
qed

lemma block_unblock_restores_witness:
  "\<exists>r1 r2 t. cmd_block_impl wire_pb demo 0 \<lparr>br_username = ''bob''\<rparr> = Some (r1, t)
    \<and> cmd_unblock_impl wire_pb t 0 \<lparr>ubr_username = ''bob''\<rparr> = Some (r2, demo)"
  by (rule block_unblock_restores [OF demo_inv demo_logged(1) demo_find(2)]) simp_all

end
